(* ===== verification/Go_Prelude.thy ===== *)
theory Go_Prelude
  imports Main "HOL-Library.Word"
begin

text \<open>
  What the component theories share: Go's strings, integers and error returns.

  \<^item> A Go string or byte slice is a sequence of bytes: a \<open>string\<close>, whose \<open>char\<close> is a byte.
    \<open>TrimSpace\<close>, \<open>Cut\<close>, \<open>Split\<close>, \<open>Index\<close>, \<open>HasPrefix\<close>, \<open>Atoi\<close>, \<open>Itoa\<close> and their
    kin are the functions of the packages strings and strconv the program calls.
  \<^item> A Go int is a mathematical \<open>int\<close>; where an operation of the program can leave the 64-bit
    range, the wrap-around \<open>i64\<close> is written at that operation.  An uint64 is a \<open>64 word\<close>, and so is an
    int64 counter that is only counted up.
  \<^item> A function that returns an error is an option (\<open>None\<close> is nil) or a sum (\<open>Inl\<close> the
    error).  A loop that stops at the first error is \<open>first_error\<close> or \<open>traverse\<close>.
\<close>

named_theorems go_string "definitions of the string functions, for evaluation"
named_theorems go_error "facts about loops that stop at their first error"

type_synonym u64 = "64 word"
type_synonym bytes = string

section \<open>Integers\<close>

definition i64 :: "int \<Rightarrow> int" where
  "i64 x = signed_take_bit 63 x"

abbreviation (input) min_i64 :: int where "min_i64 \<equiv> - (2 ^ 63)"
abbreviation (input) max_i64 :: int where "max_i64 \<equiv> 2 ^ 63 - 1"

definition is_i64 :: "int \<Rightarrow> bool" where
  "is_i64 x \<longleftrightarrow> - (2 ^ 63) \<le> x \<and> x < 2 ^ 63"

lemma is_i64_i64 [simp, intro]: "is_i64 (i64 x)"
  unfolding is_i64_def i64_def
  by (intro conjI signed_take_bit_int_greater_eq_minus_exp signed_take_bit_int_less_exp)

lemma i64_i64 [simp]: "i64 (i64 x) = i64 x"
  by (simp add: i64_def)

lemma i64_add [simp]: "i64 (i64 x + y) = i64 (x + y)" "i64 (y + i64 x) = i64 (y + x)"
  using signed_take_bit_add [of 63 "i64 x" y] signed_take_bit_add [of 63 x y]
    signed_take_bit_add [of 63 y "i64 x"] signed_take_bit_add [of 63 y x]
  by (simp_all add: i64_def)

lemma i64_id: "is_i64 x \<Longrightarrow> i64 x = x"
  by (simp add: is_i64_def i64_def signed_take_bit_int_eq_self)

text \<open>A duration is a count of nanoseconds in 64 bits; an instant is a count of nanoseconds.
  The difference of two instants saturates, as \<^verbatim>\<open>Time.Sub\<close> does.\<close>

type_synonym duration = int
type_synonym instant = int

abbreviation (input) Millisecond :: duration where "Millisecond \<equiv> 1000000"
abbreviation (input) Second :: duration where "Second \<equiv> 1000000000"

definition time_sub :: "instant \<Rightarrow> instant \<Rightarrow> duration" where
  "time_sub a b = max min_i64 (min max_i64 (a - b))"

section \<open>Loops that stop at the first error\<close>

primrec first_error :: "('a \<Rightarrow> 'e option) \<Rightarrow> 'a list \<Rightarrow> 'e option" where
  "first_error f [] = None"
| "first_error f (x # xs) = (case f x of Some e \<Rightarrow> Some e | None \<Rightarrow> first_error f xs)"

lemma first_error_None [go_error]: "first_error f xs = None \<longleftrightarrow> (\<forall>x \<in> set xs. f x = None)"
  by (induction xs) (auto split: option.splits)

lemma first_error_Some: "first_error f xs = Some e \<Longrightarrow> \<exists>x \<in> set xs. f x = Some e"
  by (induction xs) (auto split: option.splits)

primrec traverse :: "('a \<Rightarrow> 'e + 'b) \<Rightarrow> 'a list \<Rightarrow> 'e + 'b list" where
  "traverse f [] = Inr []"
| "traverse f (x # xs) =
     (case f x of Inl e \<Rightarrow> Inl e
      | Inr y \<Rightarrow> (case traverse f xs of Inl e \<Rightarrow> Inl e | Inr ys \<Rightarrow> Inr (y # ys)))"

lemma traverse_Inr [go_error]: "traverse f xs = Inr ys \<longleftrightarrow> list_all2 (\<lambda>x y. f x = Inr y) xs ys"
proof (induction xs arbitrary: ys)
  case Nil
  then show ?case by auto
next
  case (Cons x xs)
  have "traverse f (x # xs) = Inr ys \<longleftrightarrow>
      (\<exists>y zs. f x = Inr y \<and> traverse f xs = Inr zs \<and> ys = y # zs)"
    by (auto split: sum.splits)
  then show ?case using Cons.IH by (auto simp: list_all2_Cons1)
qed

lemma traverse_Inl: "traverse f xs = Inl e \<Longrightarrow> \<exists>x \<in> set xs. f x = Inl e"
  by (induction xs) (auto split: sum.splits)

lemma traverse_set: "traverse f xs = Inr ys \<Longrightarrow> y \<in> set ys \<Longrightarrow> \<exists>x \<in> set xs. f x = Inr y"
  by (induction xs arbitrary: ys) (auto split: sum.splits)

lemma traverse_length: "traverse f xs = Inr ys \<Longrightarrow> length ys = length xs"
  by (auto simp: traverse_Inr dest: list_all2_lengthD)

text \<open>A call whose error ends the caller, and what a successful sequence of calls did.\<close>

definition and_then :: "'e + 'a \<Rightarrow> ('a \<Rightarrow> 'e + 'b) \<Rightarrow> 'e + 'b" where
  "and_then m f = (case m of Inl e \<Rightarrow> Inl e | Inr x \<Rightarrow> f x)"

lemma and_then_simps [simp]: "and_then (Inl e) f = Inl e" "and_then (Inr x) f = f x"
  by (simp_all add: and_then_def)

lemma and_then_Inr [go_error]: "and_then m f = Inr y \<longleftrightarrow> (\<exists>x. m = Inr x \<and> f x = Inr y)"
  by (cases m) simp_all

definition check_that :: "bool \<Rightarrow> 'e \<Rightarrow> 'e + unit" where
  "check_that b e = (if b then Inr () else Inl e)"

lemma check_that_Inr [go_error]: "check_that b e = Inr u \<longleftrightarrow> b"
  by (simp add: check_that_def)

section \<open>Characters\<close>

definition is_digit :: "char \<Rightarrow> bool" where
  "is_digit c \<longleftrightarrow> 48 \<le> (of_char c :: nat) \<and> (of_char c :: nat) \<le> 57"

definition is_upper :: "char \<Rightarrow> bool" where
  "is_upper c \<longleftrightarrow> 65 \<le> (of_char c :: nat) \<and> (of_char c :: nat) \<le> 90"

definition is_lower :: "char \<Rightarrow> bool" where
  "is_lower c \<longleftrightarrow> 97 \<le> (of_char c :: nat) \<and> (of_char c :: nat) \<le> 122"

definition is_control :: "char \<Rightarrow> bool" where
  "is_control c \<longleftrightarrow> (of_char c :: nat) < 32 \<or> (of_char c :: nat) = 127"

definition lower_ascii :: "char \<Rightarrow> char" where
  "lower_ascii c = (if is_upper c then char_of (of_char c + 32 :: nat) else c)"

lemmas char_class_defs [go_string] = is_digit_def is_upper_def is_lower_def is_control_def
  lower_ascii_def

section \<open>Prefixes, suffixes, searching\<close>

definition HasPrefix :: "string \<Rightarrow> string \<Rightarrow> bool" where
  "HasPrefix s p \<longleftrightarrow> take (length p) s = p"

definition HasSuffix :: "string \<Rightarrow> string \<Rightarrow> bool" where
  "HasSuffix s p \<longleftrightarrow> HasPrefix (rev s) (rev p)"

definition TrimPrefix :: "string \<Rightarrow> string \<Rightarrow> string" where
  "TrimPrefix s p = (if HasPrefix s p then drop (length p) s else s)"

definition TrimSuffix :: "string \<Rightarrow> string \<Rightarrow> string" where
  "TrimSuffix s p = (if HasSuffix s p then take (length s - length p) s else s)"

definition CutPrefix :: "string \<Rightarrow> string \<Rightarrow> string option" where
  "CutPrefix s p = (if HasPrefix s p then Some (drop (length p) s) else None)"

definition CutSuffix :: "string \<Rightarrow> string \<Rightarrow> string option" where
  "CutSuffix s p = (if HasSuffix s p then Some (take (length s - length p) s) else None)"

fun Index :: "string \<Rightarrow> string \<Rightarrow> nat option" where
  "Index s p = (if HasPrefix s p then Some 0
     else (case s of [] \<Rightarrow> None | _ # r \<Rightarrow> map_option Suc (Index r p)))"

declare Index.simps [simp del]

definition Contains :: "string \<Rightarrow> string \<Rightarrow> bool" where
  "Contains s p \<longleftrightarrow> Index s p \<noteq> None"

text \<open>The index of the last occurrence of a single byte.\<close>

fun LastIndexByte :: "string \<Rightarrow> char \<Rightarrow> nat option" where
  "LastIndexByte [] c = None"
| "LastIndexByte (x # xs) c = (case LastIndexByte xs c of
     Some i \<Rightarrow> Some (Suc i) | None \<Rightarrow> if x = c then Some 0 else None)"

definition ContainsAny :: "string \<Rightarrow> string \<Rightarrow> bool" where
  "ContainsAny s cs \<longleftrightarrow> list_ex (\<lambda>c. c \<in> set cs) s"

definition Cut :: "string \<Rightarrow> string \<Rightarrow> (string \<times> string) option" where
  "Cut s p = map_option (\<lambda>i. (take i s, drop (i + length p) s)) (Index s p)"

text \<open>\<^verbatim>\<open>strings.Split\<close> with a separator of one byte.\<close>

fun Split :: "string \<Rightarrow> char \<Rightarrow> string list" where
  "Split [] c = [[]]"
| "Split (x # xs) c =
     (if x = c then [] # Split xs c
      else (case Split xs c of [] \<Rightarrow> [[x]] | y # ys \<Rightarrow> (x # y) # ys))"

lemmas go_search_defs [go_string] = HasPrefix_def HasSuffix_def TrimPrefix_def TrimSuffix_def
  CutPrefix_def CutSuffix_def Contains_def ContainsAny_def Cut_def Index.simps

lemma HasPrefix_append: "HasPrefix s p \<longleftrightarrow> (\<exists>r. s = p @ r)"
  unfolding HasPrefix_def by (metis append_eq_conv_conj append_take_drop_id)

lemma HasSuffix_append: "HasSuffix s p \<longleftrightarrow> (\<exists>r. s = r @ p)"
  unfolding HasSuffix_def HasPrefix_append
  by (metis rev_append rev_rev_ident)

lemma Index_Some: "Index s p = Some i \<Longrightarrow> s = take i s @ p @ drop (i + length p) s"
proof (induction s p arbitrary: i rule: Index.induct)
  case (1 s p)
  show ?case
  proof (cases "HasPrefix s p")
    case True
    with "1.prems" show ?thesis
      by (auto simp: Index.simps [of s p] HasPrefix_append)
  next
    case False
    with "1.prems" obtain x r j where "s = x # r" "Index r p = Some j" "i = Suc j"
      by (auto simp: Index.simps [of s p] split: list.splits)
    with "1.IH" [OF False] show ?thesis by simp
  qed
qed

lemma Cut_Some: "Cut s p = Some (a, b) \<Longrightarrow> s = a @ p @ b"
  by (auto simp: Cut_def dest: Index_Some)

lemma Split_not_Nil [simp]: "Split s c \<noteq> []"
  by (induction s) (auto split: list.splits)

lemma Split_no_sep: "c \<notin> set s \<Longrightarrow> Split s c = [s]"
  by (induction s) auto

lemma Split_append: "c \<notin> set s \<Longrightarrow> Split (s @ c # r) c = s # Split r c"
  by (induction s) auto

lemma Split_parts: "p \<in> set (Split s c) \<Longrightarrow> c \<notin> set p"
  by (induction s arbitrary: p) (auto split: if_splits list.splits)

section \<open>White space\<close>

text \<open>The UTF-8 encodings of the code points \<^verbatim>\<open>unicode.IsSpace\<close> accepts.\<close>

definition ws_runes :: "string list" where
  "ws_runes =
     [[CHR 0x09], [CHR 0x0A], [CHR 0x0B], [CHR 0x0C], [CHR 0x0D], [CHR 0x20],
      [CHR 0xC2, CHR 0x85], [CHR 0xC2, CHR 0xA0], [CHR 0xE1, CHR 0x9A, CHR 0x80]]
     @ map (\<lambda>c. [CHR 0xE2, CHR 0x80, c])
         [CHR 0x80, CHR 0x81, CHR 0x82, CHR 0x83, CHR 0x84, CHR 0x85, CHR 0x86, CHR 0x87,
          CHR 0x88, CHR 0x89, CHR 0x8A, CHR 0xA8, CHR 0xA9, CHR 0xAF]
     @ [[CHR 0xE2, CHR 0x81, CHR 0x9F], [CHR 0xE3, CHR 0x80, CHR 0x80]]"

function strip_any :: "string list \<Rightarrow> string \<Rightarrow> string" where
  "strip_any ws s = (case find (\<lambda>w. w \<noteq> [] \<and> HasPrefix s w) ws of
     None \<Rightarrow> s | Some w \<Rightarrow> strip_any ws (drop (length w) s))"
  by pat_completeness auto
termination
proof (relation "measure (\<lambda>(ws, s). length s)")
  fix ws s w
  assume "find (\<lambda>w. w \<noteq> [] \<and> HasPrefix s w) ws = Some w"
  then have "w \<noteq> []" and "HasPrefix s w" by (auto simp: find_Some_iff)
  then have "s \<noteq> []" by (auto simp: HasPrefix_append)
  with \<open>w \<noteq> []\<close>
  show "((ws, drop (length w) s), (ws, s)) \<in> measure (\<lambda>(ws, s). length s)"
    by (cases s; cases w) auto
qed simp

declare strip_any.simps [simp del]

definition TrimSpace :: "string \<Rightarrow> string" where
  "TrimSpace s = rev (strip_any (map rev ws_runes) (rev (strip_any ws_runes s)))"

lemmas go_trim_defs [go_string] = TrimSpace_def strip_any.simps ws_runes_def

lemma strip_any_suffix: "\<exists>p. s = p @ strip_any ws s"
proof (induction ws s rule: strip_any.induct)
  case (1 ws s)
  show ?case
  proof (cases "find (\<lambda>w. w \<noteq> [] \<and> HasPrefix s w) ws")
    case None
    then show ?thesis by (simp add: strip_any.simps [of ws s])
  next
    case (Some w)
    with "1" obtain p where "drop (length w) s = p @ strip_any ws (drop (length w) s)" by blast
    then have "s = (take (length w) s @ p) @ strip_any ws (drop (length w) s)"
      by (metis append.assoc append_take_drop_id)
    then have "\<exists>q. s = q @ strip_any ws (drop (length w) s)" by (rule exI)
    with Some show ?thesis by (simp add: strip_any.simps [of ws s])
  qed
qed

lemma strip_any_stuck: "find (\<lambda>w. w \<noteq> [] \<and> HasPrefix (strip_any ws s) w) ws = None"
proof (induction ws s rule: strip_any.induct)
  case (1 ws s)
  then show ?case
    by (cases "find (\<lambda>w. w \<noteq> [] \<and> HasPrefix s w) ws") (simp_all add: strip_any.simps [of ws s])
qed

text \<open>No white space is left at either end, and nothing else is removed.\<close>

lemma TrimSpace_infix: "\<exists>a b. s = a @ TrimSpace s @ b"
proof -
  obtain p where p: "s = p @ strip_any ws_runes s" using strip_any_suffix by blast
  let ?t = "strip_any ws_runes s"
  obtain q where "rev ?t = q @ strip_any (map rev ws_runes) (rev ?t)" using strip_any_suffix by blast
  then have "?t = TrimSpace s @ rev q" unfolding TrimSpace_def by (metis rev_append rev_rev_ident)
  with p show ?thesis by metis
qed

lemma TrimSpace_set: "set (TrimSpace s) \<subseteq> set s"
  using TrimSpace_infix [of s] by (metis le_sup_iff order_refl set_append)

lemma TrimSpace_length: "length (TrimSpace s) \<le> length s"
proof -
  obtain a b where "s = a @ TrimSpace s @ b" using TrimSpace_infix by blast
  then have "length s = length a + (length (TrimSpace s) + length b)"
    by (metis length_append)
  then show ?thesis by linarith
qed

lemma TrimSpace_no_space:
  assumes "w \<in> set ws_runes" and "w \<noteq> []"
  shows "\<not> HasPrefix (TrimSpace s) w" and "\<not> HasSuffix (TrimSpace s) w"
proof -
  let ?l = "strip_any ws_runes s"
  have l: "\<not> HasPrefix ?l w"
    using strip_any_stuck [of ws_runes s] assms by (auto simp: find_None_iff)
  obtain q where "rev ?l = q @ strip_any (map rev ws_runes) (rev ?l)" using strip_any_suffix by blast
  then have "?l = TrimSpace s @ rev q" unfolding TrimSpace_def by (metis rev_append rev_rev_ident)
  with l show "\<not> HasPrefix (TrimSpace s) w" by (auto simp: HasPrefix_append)
  have "\<not> HasPrefix (strip_any (map rev ws_runes) (rev ?l)) (rev w)"
    using strip_any_stuck [of "map rev ws_runes" "rev ?l"] assms by (auto simp: find_None_iff)
  then show "\<not> HasSuffix (TrimSpace s) w" by (simp add: HasSuffix_def TrimSpace_def)
qed

section \<open>Letter case\<close>

text \<open>
  \<^verbatim>\<open>strings.ToLower\<close> on ASCII letters and on the two code points outside ASCII whose lower case
  is an ASCII letter (U+0130 and U+212A).  Other code points are kept; but for the adapter of Coraza, which
  reports a lower-cased key, the program compares the result with ASCII words only, so the lower case of the others
  does not show.
\<close>

fun ToLower :: "string \<Rightarrow> string" where
  "ToLower s = (case s of [] \<Rightarrow> []
     | c # r \<Rightarrow>
         if HasPrefix s [CHR 0xC4, CHR 0xB0] then CHR ''i'' # ToLower (drop 2 s)
         else if HasPrefix s [CHR 0xE2, CHR 0x84, CHR 0xAA] then CHR ''k'' # ToLower (drop 3 s)
         else lower_ascii c # ToLower r)"

declare ToLower.simps [simp del, go_string]

text \<open>
  \<^verbatim>\<open>strings.EqualFold\<close> against an ASCII word: upper and lower case are equal, and so are the
  code points U+017F and U+212A to the letters s and k.
\<close>

fun fold_case :: "string \<Rightarrow> string" where
  "fold_case s = (case s of [] \<Rightarrow> []
     | c # r \<Rightarrow>
         if HasPrefix s [CHR 0xC5, CHR 0xBF] then CHR ''s'' # fold_case (drop 2 s)
         else if HasPrefix s [CHR 0xE2, CHR 0x84, CHR 0xAA] then CHR ''k'' # fold_case (drop 3 s)
         else lower_ascii c # fold_case r)"

declare fold_case.simps [simp del, go_string]

definition EqualFold :: "string \<Rightarrow> string \<Rightarrow> bool" where
  "EqualFold s t \<longleftrightarrow> fold_case s = fold_case t"

section \<open>Decimal numbers\<close>

fun digits_value :: "nat \<Rightarrow> string \<Rightarrow> nat option" where
  "digits_value acc [] = Some acc"
| "digits_value acc (c # cs) =
     (if is_digit c then digits_value (acc * 10 + (of_char c - 48)) cs else None)"

text \<open>\<^verbatim>\<open>strconv.Atoi\<close>: an optional sign, at least one digit, a value within 64 bits.\<close>

definition Atoi :: "string \<Rightarrow> int option" where
  "Atoi s = (case s of [] \<Rightarrow> None
     | c # r \<Rightarrow>
         (let neg = (c = CHR ''-''); ds = (if c = CHR ''-'' \<or> c = CHR ''+'' then r else s)
          in if ds = [] then None
             else (case digits_value 0 ds of None \<Rightarrow> None
                   | Some n \<Rightarrow> (let v = (if neg then - int n else int n)
                                in if is_i64 v then Some v else None))))"

fun nat_digits :: "nat \<Rightarrow> string" where
  "nat_digits n = (if n < 10 then [char_of (48 + n)]
     else nat_digits (n div 10) @ [char_of (48 + n mod 10)])"

declare nat_digits.simps [simp del]

definition Itoa :: "int \<Rightarrow> string" where
  "Itoa x = (if x < 0 then CHR ''-'' # nat_digits (nat (- x)) else nat_digits (nat x))"

lemmas go_number_defs [go_string] = Atoi_def is_i64_def Itoa_def nat_digits.simps

lemma digits_value_append:
  "digits_value a (xs @ ys) = (case digits_value a xs of None \<Rightarrow> None | Some b \<Rightarrow> digits_value b ys)"
  by (induction xs arbitrary: a) auto

lemma digit_char:
  assumes "d < 10"
  shows "is_digit (char_of (48 + d :: nat))" and "of_char (char_of (48 + d :: nat)) = 48 + d"
proof -
  show *: "of_char (char_of (48 + d :: nat)) = 48 + d" using assms by simp
  show "is_digit (char_of (48 + d :: nat))" using assms * by (simp add: is_digit_def)
qed

lemma digits_value_nat_digits: "digits_value 0 (nat_digits n) = Some n"
proof (induction n rule: nat_digits.induct)
  case (1 n)
  show ?case
  proof (cases "n < 10")
    case True
    then show ?thesis by (simp add: nat_digits.simps [of n] digit_char del: of_char_of)
  next
    case False
    with "1" show ?thesis
      by (simp add: nat_digits.simps [of n] digits_value_append digit_char del: of_char_of)
  qed
qed

lemma nat_digits_digit: "c \<in> set (nat_digits n) \<Longrightarrow> is_digit c"
proof (induction n rule: nat_digits.induct)
  case (1 n)
  then show ?case
    by (cases "n < 10") (auto simp: nat_digits.simps [of n] digit_char del: of_char_of)
qed

lemma nat_digits_not_Nil [simp]: "nat_digits n \<noteq> []"
  by (subst nat_digits.simps) simp

lemma nat_digits_head: "nat_digits n = c # r \<Longrightarrow> c \<noteq> CHR ''-'' \<and> c \<noteq> CHR ''+''"
  using nat_digits_digit [of c n] by (auto simp: is_digit_def)

lemma Atoi_Itoa: "is_i64 x \<Longrightarrow> Atoi (Itoa x) = Some x"
proof (cases "x < 0")
  case True
  assume "is_i64 x"
  with True show ?thesis
    by (simp add: Itoa_def Atoi_def digits_value_nat_digits Let_def)
next
  case False
  assume x: "is_i64 x"
  obtain c r where cr: "nat_digits (nat x) = c # r" by (cases "nat_digits (nat x)") auto
  then have "c \<noteq> CHR ''-''" "c \<noteq> CHR ''+''" using nat_digits_head by blast+
  moreover have "digits_value 0 (c # r) = Some (nat x)"
    using digits_value_nat_digits [of "nat x"] cr by simp
  ultimately show ?thesis
    using False x cr by (simp add: Itoa_def Atoi_def Let_def del: digits_value.simps)
qed

lemma Atoi_i64: "Atoi s = Some x \<Longrightarrow> is_i64 x"
  by (auto simp: Atoi_def Let_def split: list.splits if_splits option.splits)

lemma Itoa_inj: "is_i64 x \<Longrightarrow> is_i64 y \<Longrightarrow> Itoa x = Itoa y \<Longrightarrow> x = y"
  by (metis Atoi_Itoa option.inject)

section \<open>Patterns\<close>

text \<open>\<^verbatim>\<open>^[A-Za-z0-9][A-Za-z0-9._-]*$\<close> and \<^verbatim>\<open>^[A-Z][A-Z0-9_]{0,63}$\<close>, the two regular
  expressions the policy files are checked with.\<close>

definition is_alnum :: "char \<Rightarrow> bool" where
  "is_alnum c \<longleftrightarrow> is_digit c \<or> is_upper c \<or> is_lower c"

lemmas is_alnum_unfold [go_string] = is_alnum_def

text \<open>Text of plain letters and digits is left alone by trimming and by lowering.\<close>

lemma strip_any_id:
  assumes "\<forall>w \<in> set ws. w \<noteq> [] \<longrightarrow> \<not> HasPrefix s w"
  shows "strip_any ws s = s"
proof -
  have "find (\<lambda>w. w \<noteq> [] \<and> HasPrefix s w) ws = None" using assms by (auto simp: find_None_iff)
  then show ?thesis by (subst strip_any.simps) simp
qed

lemma TrimSpace_plain:
  assumes "\<And>c. c \<in> set s \<Longrightarrow> is_alnum c"
  shows "TrimSpace s = s"
proof -
  have edge: "\<not> is_alnum (hd w) \<and> \<not> is_alnum (hd (rev w))" if "w \<in> set ws_runes" for w
    using that by (auto simp: ws_runes_def is_alnum_def is_digit_def is_upper_def is_lower_def)
  have plain: "\<not> HasPrefix t w" if "w \<noteq> []" "\<not> is_alnum (hd w)" "set t \<subseteq> set s" for t w
    using that assms by (cases w; cases t) (auto simp: HasPrefix_def)
  have "\<not> HasPrefix s w" "\<not> HasPrefix (rev s) (rev w)" if "w \<in> set ws_runes" "w \<noteq> []" for w
    using edge [OF that(1)] plain [of w s] plain [of "rev w" "rev s"] that(2) by simp_all
  then have "\<forall>w \<in> set ws_runes. w \<noteq> [] \<longrightarrow> \<not> HasPrefix s w"
    and "\<forall>w \<in> set (map rev ws_runes). w \<noteq> [] \<longrightarrow> \<not> HasPrefix (rev s) w" by simp_all
  then have "strip_any ws_runes s = s" "strip_any (map rev ws_runes) (rev s) = rev s"
    by (blast intro: strip_any_id)+
  then show ?thesis by (simp add: TrimSpace_def)
qed

lemma ToLower_plain:
  assumes "\<And>c. c \<in> set s \<Longrightarrow> is_digit c \<or> is_lower c"
  shows "ToLower s = s"
  using assms
proof (induction s)
  case (Cons c s)
  have "\<not> is_upper c" using Cons.prems [of c] by (auto simp: is_digit_def is_upper_def is_lower_def)
  moreover have "c \<noteq> CHR 0xC4" "c \<noteq> CHR 0xE2" using Cons.prems [of c] by (auto simp: is_digit_def is_lower_def)
  ultimately show ?case using Cons by (subst ToLower.simps) (simp add: lower_ascii_def HasPrefix_def)
qed (subst ToLower.simps, simp)

section \<open>Printable text\<close>

lemma strip_any_plain:
  assumes "\<And>w c r. w \<in> set ws \<Longrightarrow> w = c # r \<Longrightarrow> \<not> P c" and "\<And>c r. s = c # r \<Longrightarrow> P c"
  shows "strip_any ws s = s"
proof -
  have "\<not> (w \<noteq> [] \<and> HasPrefix s w)" if "w \<in> set ws" for w
    using assms that by (cases w) (auto simp: HasPrefix_append)
  then have "find (\<lambda>w. w \<noteq> [] \<and> HasPrefix s w) ws = None" by (simp add: find_None_iff)
  then show ?thesis by (simp add: strip_any.simps)
qed

definition is_graphic :: "char \<Rightarrow> bool" where
  "is_graphic c \<longleftrightarrow> 33 \<le> (of_char c :: nat) \<and> (of_char c :: nat) \<le> 126"

lemma ws_runes_not_graphic:
  "w \<in> set ws_runes \<Longrightarrow> w \<noteq> [] \<and> \<not> is_graphic (hd w) \<and> \<not> is_graphic (last w)"
  by (auto simp: ws_runes_def is_graphic_def)

text \<open>Text that starts and ends with a printable character is left alone by trimming.\<close>

lemma TrimSpace_edges:
  assumes "s \<noteq> [] \<Longrightarrow> is_graphic (hd s) \<and> is_graphic (last s)"
  shows "TrimSpace s = s"
proof -
  have l: "strip_any ws_runes s = s"
    by (rule strip_any_plain [where P = is_graphic]) (use assms in \<open>auto dest: ws_runes_not_graphic\<close>)
  have "strip_any (map rev ws_runes) (rev s) = rev s"
  proof (rule strip_any_plain [where P = is_graphic])
    fix w c r
    assume "w \<in> set (map rev ws_runes)" and "w = c # r"
    then obtain v where v: "v \<in> set ws_runes" "w = rev v" by auto
    with \<open>w = c # r\<close> have "c = last v" by (metis hd_rev list.sel(1))
    then show "\<not> is_graphic c" using ws_runes_not_graphic [OF v(1)] by simp
  next
    fix c r
    assume r: "rev s = c # r"
    then have "s \<noteq> []" by auto
    moreover have "c = last s" using r by (metis hd_rev list.sel(1))
    ultimately show "is_graphic c" using assms by simp
  qed
  then show ?thesis by (simp add: TrimSpace_def l)
qed

lemma TrimSpace_graphic: "(\<forall>c \<in> set s. is_graphic c) \<Longrightarrow> TrimSpace s = s"
  by (rule TrimSpace_edges) simp

lemma Itoa_nonneg: "0 \<le> x \<Longrightarrow> c \<in> set (Itoa x) \<Longrightarrow> is_digit c"
  by (simp add: Itoa_def nat_digits_digit)

lemma digit_graphic: "is_digit c \<Longrightarrow> is_graphic c \<and> c \<noteq> CHR ''-''"
  by (auto simp: is_digit_def is_graphic_def)

lemma Cut_skip: "c \<notin> set a \<Longrightarrow> Cut (a @ c # b) [c] = Some (a, b)"
proof -
  have "c \<notin> set a \<Longrightarrow> Index (a @ c # b) [c] = Some (length a)" for a
  proof (induction a)
    case Nil
    show ?case by (simp add: Index.simps HasPrefix_def)
  next
    case (Cons x a)
    then show ?case by (auto simp: Index.simps [of "x # a @ c # b"] HasPrefix_def)
  qed
  then show "c \<notin> set a \<Longrightarrow> ?thesis" by (simp add: Cut_def)
qed

section \<open>Lists\<close>

lemma list_ex_find: "list_ex P xs \<longleftrightarrow> find P xs \<noteq> None"
  by (auto simp: list_ex_iff find_None_iff)

end
