(* ===== verification/Protocol.thy ===== *)
theory Protocol
  imports Go_Prelude
begin

text \<open>
  The bus protocol, \<^verbatim>\<open>internal/protocol/protocol.go\<close>: the message and reply structs as records
  (one per struct, a pointer field as an option), the word lists as abbreviations, and every
  function of the file.  The JSON decoder is the argument \<open>unmarshal\<close> of \<open>Parse\<close> and the encoder
  the argument \<open>marshal\<close> of \<open>Marshal\<close>: they are reflective code over the struct tags.  The lemmas
  say what a parsed message guarantees to the handlers and which replies can be sent.
\<close>

section \<open>Messages\<close>

abbreviation (input) Version :: int where "Version \<equiv> 2"

record TLS =
  tls_Version :: string
  tls_SNI :: string
  tls_JA4 :: string

record Conn =
  conn_ClientIP :: string
  conn_ClientPort :: int
  conn_ServerIP :: string
  conn_ServerPort :: int
  conn_TLS :: "TLS option"

type_synonym Header = "string \<times> string"

record HTTP =
  http_Method :: string
  http_Scheme :: string
  http_Host :: string
  http_URI :: string
  http_ArgsSize :: int
  http_Version :: string

record Response =
  rsp_Status :: int
  rsp_Headers :: "Header list"
  rsp_UpstreamMS :: int

record Enc =
  enc_Alg :: string
  enc_KID :: string
  enc_Nonce :: string

record Locator =
  loc_Store :: string
  loc_Driver :: string
  loc_Key :: string
  loc_Unavailable :: string
  loc_Size :: int
  loc_DeclaredSize :: int
  loc_SHA256 :: string
  loc_ProcessedSHA256 :: string
  loc_Transformed :: bool
  loc_Complete :: bool
  loc_Truncated :: bool
  loc_Encoding :: string
  loc_ExpiresAt :: int
  loc_Hint :: string
  loc_Enc :: "Enc option"

definition Placed :: "Locator option \<Rightarrow> bool" where
  "Placed l = (case l of None \<Rightarrow> False
     | Some l \<Rightarrow> loc_Unavailable l = '''' \<and> loc_Driver l \<noteq> '''' \<and> loc_Key l \<noteq> '''')"

record Store =
  st_Headers :: "Locator option"
  st_Args :: "Locator option"
  st_Body :: "Locator option"

record Route =
  rt_ServerName :: string
  rt_Location :: string
  rt_Profile :: string

record ScoreState =
  sc_Total :: int
  sc_DenyAt :: int

record ObjectSpec =
  os_Set :: string
  os_Limit :: int
  os_Source :: string

record Action =
  act_To :: string
  act_Do :: string
  act_Apply :: string
  act_Phase :: string
  act_Code :: string
  act_Delta :: int
  act_Value :: int
  act_Counter :: string
  act_Marker :: string
  act_Group :: string
  act_Set :: string
  act_TTL :: "int option"
  act_When :: "string list"
  act_Headers :: "ObjectSpec option"
  act_Args :: "ObjectSpec option"
  act_Body :: "ObjectSpec option"

record PriorVerdict =
  pv_Phase :: string
  pv_Inspector :: string
  pv_Verdict :: string
  pv_Score :: int
  pv_Actions :: "Action list"

record Stream =
  sm_Protocol :: string
  sm_Direction :: string
  sm_Opcode :: string
  sm_Fin :: bool
  sm_Subprotocol :: string

record Release =
  rel_Token :: string
  rel_Reason :: string

record Resume =
  res_Want :: bool
  res_Token :: string
  res_Require :: bool

record Request =
  req_V :: int
  req_RID :: string
  req_Ray :: string
  req_Phase :: string
  req_Wave :: int
  req_Inspector :: string
  req_DeadlineMS :: int
  req_AuditSubject :: "string option"
  req_Node :: string
  req_Conn :: Conn
  req_HTTP :: HTTP
  req_Vars :: "(string \<times> string) list"
  req_Needs :: "string list"
  req_Store :: Store
  req_Route :: Route
  req_Score :: ScoreState
  req_Prior :: "PriorVerdict list"
  req_Response :: "Response option"
  req_RequestStore :: Store
  req_Resume :: "Resume option"
  req_Release :: "Release option"
  req_ConnID :: string
  req_Seq :: u64
  req_Stream :: "Stream option"

section \<open>Words of the protocol\<close>

abbreviation DoChallenge :: string where "DoChallenge \<equiv> ''challenge''"
abbreviation DoThreshold :: string where "DoThreshold \<equiv> ''threshold''"
abbreviation DoSkip :: string where "DoSkip \<equiv> ''skip''"
abbreviation DoReauth :: string where "DoReauth \<equiv> ''reauth''"
abbreviation DoNote :: string where "DoNote \<equiv> ''note''"
abbreviation DoMutate :: string where "DoMutate \<equiv> ''mutate''"
abbreviation DoActive :: string where "DoActive \<equiv> ''active''"
abbreviation DoPassive :: string where "DoPassive \<equiv> ''passive''"
abbreviation DoOff :: string where "DoOff \<equiv> ''off''"
abbreviation DoVote :: string where "DoVote \<equiv> ''vote''"
abbreviation DoAudit :: string where "DoAudit \<equiv> ''audit''"
abbreviation DoArchive :: string where "DoArchive \<equiv> ''archive''"
abbreviation DoMark :: string where "DoMark \<equiv> ''mark''"
abbreviation DoScore :: string where "DoScore \<equiv> ''score''"

abbreviation ApplyRequest :: string where "ApplyRequest \<equiv> ''request''"
abbreviation ApplyIP :: string where "ApplyIP \<equiv> ''ip''"
abbreviation ApplyASN :: string where "ApplyASN \<equiv> ''asn''"
abbreviation ApplySession :: string where "ApplySession \<equiv> ''session''"
abbreviation ApplyConn :: string where "ApplyConn \<equiv> ''conn''"
abbreviation ApplyResponse :: string where "ApplyResponse \<equiv> ''response''"

abbreviation PhaseRequest :: string where "PhaseRequest \<equiv> ''request''"
abbreviation PhaseResponse :: string where "PhaseResponse \<equiv> ''response''"
abbreviation PhaseFrame :: string where "PhaseFrame \<equiv> ''frame''"

abbreviation VerdictAllow :: string where "VerdictAllow \<equiv> ''allow''"
abbreviation VerdictScore :: string where "VerdictScore \<equiv> ''score''"
abbreviation VerdictRedirect :: string where "VerdictRedirect \<equiv> ''redirect''"
abbreviation VerdictDeny :: string where "VerdictDeny \<equiv> ''deny''"
abbreviation VerdictError :: string where "VerdictError \<equiv> ''error''"

abbreviation ClassOverload :: string where "ClassOverload \<equiv> ''overload''"

definition Scope :: "Action \<Rightarrow> string" where
  "Scope a = (if act_Apply a = '''' then ApplyRequest else act_Apply a)"

definition Needed :: "Request \<Rightarrow> string \<Rightarrow> bool" where
  "Needed r obj = list_ex (\<lambda>n. n = obj) (req_Needs r)"

section \<open>Checks shared by the policy files\<close>

datatype protocol_error =
    WhenWord string | WhenTwice string
  | SpecSet string string | SpecLimit string | SpecSource string string
  | MarkerEmpty | MarkerLong | MarkerControl | MarkerSpace

definition ArchiveWhen :: "string list" where
  "ArchiveWhen = [''allow'', ''deny'']"

fun archive_seen :: "string list \<Rightarrow> string list \<Rightarrow> protocol_error + string list" where
  "archive_seen seen [] = Inr seen"
| "archive_seen seen (word # words) =
     (let name = ToLower (TrimSpace word)
      in if name \<noteq> ''allow'' \<and> name \<noteq> ''deny'' then Inl (WhenWord word)
         else if name \<in> set seen then Inl (WhenTwice name)
         else archive_seen (name # seen) words)"

definition CheckArchiveWhen :: "string list \<Rightarrow> protocol_error + string list" where
  "CheckArchiveWhen words = (case archive_seen [] words of Inl e \<Rightarrow> Inl e
     | Inr seen \<Rightarrow> Inr (filter (\<lambda>name. name \<in> set seen) ArchiveWhen))"

definition CheckObjectSpec :: "string \<Rightarrow> ObjectSpec option \<Rightarrow> bool \<Rightarrow> protocol_error option" where
  "CheckObjectSpec name o' audit = (case o' of None \<Rightarrow> None
     | Some s \<Rightarrow>
         if os_Set s \<noteq> '''' \<and> os_Set s \<noteq> ''on'' \<and> os_Set s \<noteq> ''off''
           then Some (SpecSet name (os_Set s))
         else if os_Limit s < 0 then Some (SpecLimit name)
         else if os_Source s \<noteq> '''' \<and> os_Source s \<noteq> ''store'' \<and> os_Source s \<noteq> ''original''
           then Some (SpecSource name (os_Source s))
         else None)"

abbreviation (input) MarkerMax :: nat where "MarkerMax \<equiv> 128"

definition CheckMarker :: "string \<Rightarrow> protocol_error option" where
  "CheckMarker marker =
     (if marker = '''' then Some MarkerEmpty
      else if length marker > MarkerMax then Some MarkerLong
      else if list_ex is_control marker then Some MarkerControl
      else if hd marker = CHR '' '' \<or> last marker = CHR '' '' then Some MarkerSpace
      else None)"

section \<open>Replies\<close>

record Reason =
  rsn_Code :: string
  rsn_Class :: string

record ResponseRef =
  rr_Name :: string

record RedirectRef =
  rd_URL :: string
  rd_Status :: int

record HeaderOps =
  ho_Set :: "(string \<times> string) list"
  ho_Unset :: "string list"

record Continue =
  ct_Subject :: string
  ct_TTLMS :: int

record Reply =
  rp_V :: int
  rp_RID :: string
  rp_Inspector :: string
  rp_Verdict :: string
  rp_Score :: "int option"
  rp_Reason :: "Reason option"
  rp_Response :: "ResponseRef option"
  rp_Redirect :: "RedirectRef option"
  rp_Headers :: "HeaderOps option"
  rp_Continue :: "Continue option"
  rp_Actions :: "Action list"

definition NewReply :: "Request \<Rightarrow> string \<Rightarrow> Reply" where
  "NewReply req verdict = \<lparr>rp_V = req_V req, rp_RID = req_RID req, rp_Inspector = req_Inspector req,
     rp_Verdict = verdict, rp_Score = None, rp_Reason = None, rp_Response = None,
     rp_Redirect = None, rp_Headers = None, rp_Continue = None, rp_Actions = []\<rparr>"

text \<open>A reason with a code and no class.\<close>

abbreviation (input) reason :: "string \<Rightarrow> Reason option" where
  "reason code \<equiv> Some \<lparr>rsn_Code = code, rsn_Class = ''''\<rparr>"

definition ErrorReply :: "Request \<Rightarrow> string \<Rightarrow> Reply" where
  "ErrorReply req code = (NewReply req VerdictError)\<lparr>rp_Reason := reason code\<rparr>"

definition ShedReply :: "Request \<Rightarrow> string \<Rightarrow> Reply" where
  "ShedReply req code = (let reply = ErrorReply req code
     in reply\<lparr>rp_Reason := map_option (rsn_Class_update (\<lambda>_. ClassOverload)) (rp_Reason reply)\<rparr>)"

definition FallbackReply :: "string \<Rightarrow> string \<Rightarrow> string \<Rightarrow> Reply" where
  "FallbackReply rid inspector code = \<lparr>rp_V = Version, rp_RID = rid, rp_Inspector = inspector,
     rp_Verdict = VerdictError, rp_Score = None, rp_Reason = reason code, rp_Response = None,
     rp_Redirect = None, rp_Headers = None, rp_Continue = None, rp_Actions = []\<rparr>"

datatype score_error = ErrScoreRange int

definition WithScore :: "Reply \<Rightarrow> int \<Rightarrow> score_error + Reply" where
  "WithScore r score =
     (if score < 0 \<or> score > 100 then Inl (ErrScoreRange score)
      else Inr (r\<lparr>rp_Verdict := VerdictScore, rp_Score := Some score\<rparr>))"

text \<open>\<open>Marshal\<close> refuses a score out of range; otherwise the JSON encoder answers.\<close>

definition Marshal :: "(Reply \<Rightarrow> string + bytes) \<Rightarrow> Reply \<Rightarrow> (score_error + string) + bytes" where
  "Marshal marshal r = (case rp_Score r of
     Some s \<Rightarrow> if s < 0 \<or> s > 100 then Inl (Inl (ErrScoreRange s))
               else map_sum Inr id (marshal r)
   | None \<Rightarrow> map_sum Inr id (marshal r))"

section \<open>Parsing a message\<close>

datatype parse_cause =
    InvalidJSON string | RidMissing | VMissing | InspectorMissing | PhaseInvalid string
  | ReleaseNoToken | HttpIncomplete | LocatorMixed string | LocatorHalf string

record ParseError =
  pe_RID :: string
  pe_Err :: parse_cause

abbreviation (input) parse_error :: "string \<Rightarrow> parse_cause \<Rightarrow> ParseError" where
  "parse_error rid e \<equiv> \<lparr>pe_RID = rid, pe_Err = e\<rparr>"

definition validate_locator :: "Locator option \<Rightarrow> string \<Rightarrow> parse_cause option" where
  "validate_locator l obj = (case l of None \<Rightarrow> None
     | Some l \<Rightarrow>
         if loc_Unavailable l \<noteq> '''' \<and> (loc_Driver l \<noteq> '''' \<or> loc_Key l \<noteq> '''')
           then Some (LocatorMixed obj)
         else if (loc_Driver l = '''') \<noteq> (loc_Key l = '''') then Some (LocatorHalf obj)
         else None)"

definition is_re_space :: "char \<Rightarrow> bool" where
  "is_re_space c \<longleftrightarrow> c \<in> {CHR 0x09, CHR 0x0A, CHR 0x0C, CHR 0x0D, CHR 0x20}"

definition is_hex :: "char \<Rightarrow> bool" where
  "is_hex c \<longleftrightarrow> is_digit c \<or> (97 \<le> (of_char c :: nat) \<and> (of_char c :: nat) \<le> 102)
     \<or> (65 \<le> (of_char c :: nat) \<and> (of_char c :: nat) \<le> 70)"

text \<open>A match of the pattern \<^verbatim>\<open>"rid"\s*:\s*"([0-9a-fA-F]{1,32})"\<close> at the start of the text.\<close>

definition rid_match :: "string \<Rightarrow> string option" where
  "rid_match s = (case CutPrefix s (CHR 0x22 # ''rid'' @ [CHR 0x22]) of None \<Rightarrow> None
     | Some s1 \<Rightarrow> (case CutPrefix (dropWhile is_re_space s1) '':'' of None \<Rightarrow> None
       | Some s2 \<Rightarrow> (case CutPrefix (dropWhile is_re_space s2) [CHR 0x22] of None \<Rightarrow> None
         | Some s3 \<Rightarrow>
             (let hex = takeWhile is_hex s3
              in if 1 \<le> length hex \<and> length hex \<le> 32 \<and> HasPrefix (dropWhile is_hex s3) [CHR 0x22]
                 then Some hex else None))))"

fun sniffRID :: "string \<Rightarrow> string" where
  "sniffRID [] = ''''"
| "sniffRID (c # r) = (case rid_match (c # r) of Some rid \<Rightarrow> rid | None \<Rightarrow> sniffRID r)"

text \<open>
  The two loops over the locators range over Go maps, so of several bad locators any one may be
  reported; the model reports the first in the order headers, args, body.
\<close>

definition store_locators :: "string \<Rightarrow> Store \<Rightarrow> (string \<times> Locator option) list" where
  "store_locators prefix s =
     [(prefix @ ''headers'', st_Headers s), (prefix @ ''args'', st_Args s),
      (prefix @ ''body'', st_Body s)]"

definition check_store :: "string \<Rightarrow> Store \<Rightarrow> parse_cause option" where
  "check_store prefix s = first_error (\<lambda>(name, l). validate_locator l name) (store_locators prefix s)"

definition Parse :: "(bytes \<Rightarrow> string + Request) \<Rightarrow> bytes \<Rightarrow> ParseError + Request" where
  "Parse unmarshal payload = (case unmarshal payload of
     Inl e \<Rightarrow> Inl (parse_error (sniffRID payload) (InvalidJSON e))
   | Inr req \<Rightarrow>
       if req_RID req = '''' then Inl (parse_error '''' RidMissing)
       else if req_V req = 0 then Inl (parse_error (req_RID req) VMissing)
       else if req_Inspector req = '''' then Inl (parse_error (req_RID req) InspectorMissing)
       else if \<not> (req_Phase req = PhaseRequest \<or> req_Phase req = PhaseResponse
                  \<or> req_Phase req = PhaseFrame)
         then Inl (parse_error (req_RID req) (PhaseInvalid (req_Phase req)))
       else (case req_Release req of
         Some rel \<Rightarrow> if rel_Token rel = '''' then Inl (parse_error (req_RID req) ReleaseNoToken)
                     else Inr req
       | None \<Rightarrow>
           if http_Method (req_HTTP req) = '''' \<or> http_URI (req_HTTP req) = ''''
             then Inl (parse_error (req_RID req) HttpIncomplete)
           else (case check_store '''' (req_Store req) of
             Some e \<Rightarrow> Inl (parse_error (req_RID req) e)
           | None \<Rightarrow> (case check_store ''request_'' (req_RequestStore req) of
               Some e \<Rightarrow> Inl (parse_error (req_RID req) e)
             | None \<Rightarrow> Inr req))))"

section \<open>Facts\<close>

lemma archive_seen_Inr:
  "archive_seen seen words = Inr out \<Longrightarrow>
     set out = set seen \<union> (\<lambda>w. ToLower (TrimSpace w)) ` set words \<and>
     (\<forall>w \<in> set words. ToLower (TrimSpace w) \<in> {''allow'', ''deny''}) \<and>
     distinct (map (\<lambda>w. ToLower (TrimSpace w)) words) \<and>
     (\<forall>w \<in> set words. ToLower (TrimSpace w) \<notin> set seen)"
proof (induction words arbitrary: seen)
  case Nil
  then show ?case by simp
next
  case (Cons w ws)
  let ?n = "ToLower (TrimSpace w)"
  from Cons.prems have n: "?n \<in> {''allow'', ''deny''}" "?n \<notin> set seen"
    and rec: "archive_seen (?n # seen) ws = Inr out"
    by (auto simp: Let_def split: if_splits)
  from Cons.IH [OF rec] n show ?case by auto
qed

lemma archive_seen_ok:
  "(\<forall>w \<in> set words. ToLower (TrimSpace w) \<in> {''allow'', ''deny''}) \<Longrightarrow>
   distinct (map (\<lambda>w. ToLower (TrimSpace w)) words) \<Longrightarrow>
   (\<forall>w \<in> set words. ToLower (TrimSpace w) \<notin> set seen) \<Longrightarrow>
   \<exists>out. archive_seen seen words = Inr out"
proof (induction words arbitrary: seen)
  case Nil
  then show ?case by simp
next
  case (Cons w ws)
  let ?n = "\<lambda>w. ToLower (TrimSpace w)"
  from Cons.prems(2) have nw: "?n w \<notin> ?n ` set ws" by simp
  have "?n v \<noteq> ?n w" if "v \<in> set ws" for v
    using imageI [OF that, of ?n] nw by metis
  then have "\<forall>v \<in> set ws. ?n v \<notin> set (?n w # seen)" using Cons.prems(3) by simp
  then obtain out where "archive_seen (?n w # seen) ws = Inr out"
    using Cons.IH [of "?n w # seen"] Cons.prems(1,2) by auto
  with Cons.prems(1,3) show ?case by (simp add: Let_def)
qed

lemma well_placed_store:
  "check_store p s = None \<longleftrightarrow>
     (\<forall>l \<in> {st_Headers s, st_Args s, st_Body s}. \<forall>n. validate_locator l n = None)"
  by (auto simp: check_store_def store_locators_def validate_locator_def
      split: option.splits if_splits)

lemma valid_locator_address:
  "validate_locator (Some l) n = None \<Longrightarrow>
     (loc_Unavailable l = '''' \<and> loc_Driver l \<noteq> '''' \<and> loc_Key l \<noteq> '''') \<or>
     (loc_Driver l = '''' \<and> loc_Key l = '''')"
  by (auto simp: validate_locator_def split: if_splits)

lemma NewReply_simps [simp]:
  "rp_V (NewReply req v) = req_V req" "rp_RID (NewReply req v) = req_RID req"
  "rp_Inspector (NewReply req v) = req_Inspector req" "rp_Verdict (NewReply req v) = v"
  "rp_Score (NewReply req v) = None" "rp_Reason (NewReply req v) = None"
  "rp_Response (NewReply req v) = None" "rp_Redirect (NewReply req v) = None"
  "rp_Headers (NewReply req v) = None" "rp_Continue (NewReply req v) = None"
  "rp_Actions (NewReply req v) = []"
  by (simp_all add: NewReply_def)

lemma ErrorReply_simps [simp]:
  "rp_V (ErrorReply req c) = req_V req" "rp_RID (ErrorReply req c) = req_RID req"
  "rp_Inspector (ErrorReply req c) = req_Inspector req" "rp_Verdict (ErrorReply req c) = VerdictError"
  "rp_Score (ErrorReply req c) = None" "rp_Reason (ErrorReply req c) = reason c"
  "rp_Response (ErrorReply req c) = None" "rp_Redirect (ErrorReply req c) = None"
  "rp_Continue (ErrorReply req c) = None" "rp_Actions (ErrorReply req c) = []"
  by (simp_all add: ErrorReply_def)

lemma ShedReply_simps [simp]:
  "rp_RID (ShedReply req c) = req_RID req" "rp_Verdict (ShedReply req c) = VerdictError"
  "rp_Score (ShedReply req c) = None" "rp_Continue (ShedReply req c) = None"
  "rp_Reason (ShedReply req c) = Some \<lparr>rsn_Code = c, rsn_Class = ClassOverload\<rparr>"
  "rp_Actions (ShedReply req c) = []"
  by (simp_all add: ShedReply_def Let_def)

lemma FallbackReply_simps [simp]:
  "rp_RID (FallbackReply rid n c) = rid" "rp_Verdict (FallbackReply rid n c) = VerdictError"
  "rp_Score (FallbackReply rid n c) = None" "rp_Reason (FallbackReply rid n c) = reason c"
  "rp_Inspector (FallbackReply rid n c) = n"
  by (simp_all add: FallbackReply_def)

text \<open>A reply whose score, if any, is within the range the protocol allows.\<close>

definition score_ok :: "Reply \<Rightarrow> bool" where
  "score_ok r \<longleftrightarrow> (case rp_Score r of None \<Rightarrow> True | Some s \<Rightarrow> 0 \<le> s \<and> s \<le> 100)"

lemma WithScore_ok: "WithScore r s = Inr r' \<Longrightarrow> score_ok r' \<and> rp_Verdict r' = VerdictScore"
  by (auto simp: WithScore_def score_ok_def split: if_splits)

lemma Marshal_range: "(\<exists>s. Marshal m r = Inl (Inl (ErrScoreRange s))) \<longleftrightarrow> \<not> score_ok r"
  by (auto simp: Marshal_def score_ok_def map_sum_def split: option.splits sum.splits)

lemma rid_match_hex:
  "rid_match s = Some rid \<Longrightarrow> rid \<noteq> [] \<and> length rid \<le> 32 \<and> (\<forall>c \<in> set rid. is_hex c)"
  by (auto simp: rid_match_def Let_def split: option.splits if_splits dest: set_takeWhileD)

lemma sniffRID_hex: "length (sniffRID p) \<le> 32 \<and> (\<forall>c \<in> set (sniffRID p). is_hex c)"
  by (induction p) (auto split: option.splits dest: rid_match_hex)

lemma Parse_base:
  assumes "Parse unmarshal payload = Inr req"
  shows "unmarshal payload = Inr req \<and> req_RID req \<noteq> '''' \<and> req_V req \<noteq> 0 \<and>
    req_Inspector req \<noteq> '''' \<and> req_Phase req \<in> {PhaseRequest, PhaseResponse, PhaseFrame}"
  using assms by (auto simp: Parse_def split: sum.splits if_splits option.splits)

section \<open>Properties\<close>

text \<open>A request message with nothing stored.\<close>

definition empty_store :: Store where
  "empty_store = \<lparr>st_Headers = None, st_Args = None, st_Body = None\<rparr>"

definition sample_request :: Request where
  "sample_request = \<lparr>req_V = Version, req_RID = ''4f1a'', req_Ray = ''r1'', req_Phase = PhaseRequest,
     req_Wave = 0, req_Inspector = ''modsec'', req_DeadlineMS = 200, req_AuditSubject = Some ''waf.audit.n1'',
     req_Node = ''n1'',
     req_Conn = \<lparr>conn_ClientIP = ''192.0.2.7'', conn_ClientPort = 40000, conn_ServerIP = ''192.0.2.1'',
       conn_ServerPort = 443, conn_TLS = None\<rparr>,
     req_HTTP = \<lparr>http_Method = ''GET'', http_Scheme = ''https'', http_Host = ''example.org'', http_URI = ''/'',
       http_ArgsSize = 0, http_Version = ''HTTP/1.1''\<rparr>,
     req_Vars = [], req_Needs = [], req_Store = empty_store,
     req_Route = \<lparr>rt_ServerName = ''example.org'', rt_Location = ''/'', rt_Profile = ''default''\<rparr>, req_Score = \<lparr>sc_Total = 0, sc_DenyAt = 100\<rparr>, req_Prior = [], req_Response = None,
     req_RequestStore = empty_store, req_Resume = None, req_Release = None, req_ConnID = '''', req_Seq = 0,
     req_Stream = None\<rparr>"

text \<open>C36: a message that \<open>Parse\<close> accepts is the decoded one, carries an id, a version, an inspector
  name and one of the three phases; a release message carries its token; any other message has a
  method, an address, and locators that either name a complete address or none at all.\<close>

theorem Parse_accepts:
  assumes "Parse unmarshal payload = Inr req"
  shows "unmarshal payload = Inr req \<and> req_RID req \<noteq> '''' \<and> req_V req \<noteq> 0 \<and>
    req_Inspector req \<noteq> '''' \<and> req_Phase req \<in> {PhaseRequest, PhaseResponse, PhaseFrame} \<and>
    (case req_Release req of
       Some rel \<Rightarrow> rel_Token rel \<noteq> ''''
     | None \<Rightarrow> http_Method (req_HTTP req) \<noteq> '''' \<and> http_URI (req_HTTP req) \<noteq> '''' \<and>
         (\<forall>s \<in> {req_Store req, req_RequestStore req}. \<forall>l.
            Some l \<in> {st_Headers s, st_Args s, st_Body s} \<longrightarrow>
            Placed (Some l) \<or> (loc_Driver l = '''' \<and> loc_Key l = '''')))"
proof -
  have store: "Placed (Some l) \<or> (loc_Driver l = '''' \<and> loc_Key l = '''')"
    if "check_store p s = None" and "Some l \<in> {st_Headers s, st_Args s, st_Body s}" for p s l
  proof -
    from that have "validate_locator (Some l) '''' = None" unfolding well_placed_store by blast
    from valid_locator_address [OF this] show ?thesis by (simp add: Placed_def)
  qed
  note base = Parse_base [OF assms]
  show ?thesis
  proof (cases "req_Release req")
    case None
    with assms have "http_Method (req_HTTP req) \<noteq> ''''" "http_URI (req_HTTP req) \<noteq> ''''"
      "check_store '''' (req_Store req) = None"
      "check_store ''request_'' (req_RequestStore req) = None"
      by (auto simp: Parse_def split: sum.splits if_splits option.splits)
    then have "\<forall>s \<in> {req_Store req, req_RequestStore req}. \<forall>l.
        Some l \<in> {st_Headers s, st_Args s, st_Body s} \<longrightarrow>
        Placed (Some l) \<or> (loc_Driver l = '''' \<and> loc_Key l = '''')"
      using store by blast
    with base None \<open>http_Method (req_HTTP req) \<noteq> ''''\<close> \<open>http_URI (req_HTTP req) \<noteq> ''''\<close>
    show ?thesis by (simp only: option.case simp_thms)
  next
    case (Some rel)
    with assms base show ?thesis by (auto simp: Parse_def split: if_splits)
  qed
qed

lemma sample_request_parses: "Parse (\<lambda>_. Inr sample_request) [] = Inr sample_request"
  by (simp add: Parse_def sample_request_def check_store_def store_locators_def empty_store_def validate_locator_def)

theorem Parse_accepts_witness:
  "Parse (\<lambda>_. Inr sample_request) [] = Inr sample_request \<and> req_RID sample_request \<noteq> ''''"
  using Parse_accepts [OF sample_request_parses] sample_request_parses by simp

text \<open>\<open>CheckArchiveWhen\<close> accepts exactly the lists of the words allow and deny, in any case and
  padding, without repetition, and answers them in the fixed order allow, deny.\<close>

theorem CheckArchiveWhen_normal_form:
  "CheckArchiveWhen words = Inr out \<longleftrightarrow>
     (\<forall>w \<in> set words. ToLower (TrimSpace w) \<in> {''allow'', ''deny''}) \<and>
     distinct (map (\<lambda>w. ToLower (TrimSpace w)) words) \<and>
     out = filter (\<lambda>n. n \<in> (\<lambda>w. ToLower (TrimSpace w)) ` set words) [''allow'', ''deny'']"
  (is "?lhs \<longleftrightarrow> ?words \<and> ?distinct \<and> ?out")
proof
  assume ?lhs
  then obtain seen where "archive_seen [] words = Inr seen"
    and "out = filter (\<lambda>n. n \<in> set seen) ArchiveWhen"
    by (auto simp: CheckArchiveWhen_def split: sum.splits)
  with archive_seen_Inr [of "[]" words seen] show "?words \<and> ?distinct \<and> ?out"
    by (simp add: ArchiveWhen_def)
next
  assume rhs: "?words \<and> ?distinct \<and> ?out"
  then obtain seen where seen: "archive_seen [] words = Inr seen"
    using archive_seen_ok [of words "[]"] by auto
  with archive_seen_Inr [OF seen] rhs show ?lhs
    by (simp add: CheckArchiveWhen_def ArchiveWhen_def)
qed

theorem CheckArchiveWhen_normal_form_witness:
  "CheckArchiveWhen ['' Deny'', ''allow''] = Inr [''allow'', ''deny'']"
  unfolding CheckArchiveWhen_normal_form by code_simp

end
