(* ===== verification/Overload.thy ===== *)
theory Overload
  imports Go_Prelude
begin

text \<open>
  The overload trigger of an outcome row, \<^verbatim>\<open>internal/overload/overload.go\<close>: its threshold in
  percent of the queue, the check of a configured threshold and the decision to fire.
\<close>

abbreviation (input) AtMin :: int where "AtMin \<equiv> 25"
abbreviation (input) AtMax :: int where "AtMax \<equiv> 100"

definition At :: "int option \<Rightarrow> int" where
  "At at = (case at of None \<Rightarrow> AtMax | Some a \<Rightarrow> a)"

datatype overload_error = AtOutOfRange int

definition Check :: "int option \<Rightarrow> overload_error option" where
  "Check at = (case at of None \<Rightarrow> None
     | Some a \<Rightarrow> if a < AtMin \<or> a > AtMax then Some (AtOutOfRange a) else None)"

definition Fires :: "int \<Rightarrow> int \<Rightarrow> bool \<Rightarrow> bool" where
  "Fires at fill shed = (if shed then True else at < AtMax \<and> fill \<ge> at)"

lemma Check_At: "Check at = None \<Longrightarrow> AtMin \<le> At at \<and> At at \<le> AtMax"
  by (auto simp: Check_def At_def split: option.splits if_splits)

text \<open>A row without a threshold fires on a dropped request only.\<close>

lemma Fires_default: "Fires (At None) fill shed = shed"
  by (simp add: Fires_def At_def)

lemma Fires_mono: "Fires at fill shed \<Longrightarrow> fill \<le> fill' \<Longrightarrow> (shed \<longrightarrow> shed') \<Longrightarrow> Fires at fill' shed'"
  by (auto simp: Fires_def split: if_splits)

end
