(* ===== verification/Go_Float.thy ===== *)
theory Go_Float
  imports Complex_Main "HOL-Library.Log_Nat" Go_Prelude
begin

text \<open>
  The float64 arithmetic of the scoring code.  A float64 is the rational it denotes; every
  arithmetic operation is the exact operation followed by \<open>f64\<close>, rounding to 53 significant bits
  with ties to even (IEEE 754 binary64, the rounding Go prescribes).  Exponent overflow and
  underflow are not represented: the program's values are 0 or lie between \<open>2^-64\<close> and
  \<open>2^71\<close> in magnitude.  The lemmas bound the rounding error and say which values are exact.
\<close>

section \<open>Rounding to 53 bits\<close>

definition ilog2 :: "rat \<Rightarrow> int" where
  "ilog2 x = (let (p, q) = quotient_of x; e = bitlen p - bitlen q
     in if 2 powi e \<le> x then e else e - 1)"

definition round_even :: "rat \<Rightarrow> int" where
  "round_even y = (let f = \<lfloor>y\<rfloor>; d = y - of_int f
     in if d < 1 / 2 then f else if d > 1 / 2 then f + 1 else if even f then f else f + 1)"

definition f64 :: "rat \<Rightarrow> rat" where
  "f64 x = (if x = 0 then 0
     else let u = 2 powi (ilog2 \<bar>x\<bar> - 52) in of_int (round_even (x / u)) * u)"

text \<open>\<^verbatim>\<open>math.Round\<close> (half away from zero) and the conversion to int.  Outside the 64-bit range
  Go leaves the conversion to the implementation; the value is the one amd64 gives.\<close>

definition math_Round :: "rat \<Rightarrow> int" where
  "math_Round x = (if 0 \<le> x then \<lfloor>x + 1 / 2\<rfloor> else - \<lfloor>- x + 1 / 2\<rfloor>)"

definition int_of_f64 :: "int \<Rightarrow> int" where
  "int_of_f64 z = (if is_i64 z then z else min_i64)"

section \<open>The binary logarithm\<close>

lemma powi_less_imp: "(2 :: rat) powi a < 2 powi b \<Longrightarrow> a < b"
  by (meson linorder_not_le one_le_numeral power_int_increasing)

lemma bitlen_powi:
  assumes "0 < p"
  shows "2 powi (bitlen p - 1) \<le> (of_int p :: rat)" and "(of_int p :: rat) < 2 powi (bitlen p)"
proof -
  have b: "0 < bitlen p" using assms bitlen_eq_zero_iff [of p] bitlen_nonneg [of p] by linarith
  from bitlen_bounds [OF assms]
  have "of_int (2 ^ nat (bitlen p - 1)) \<le> (of_int p :: rat)"
    and "(of_int p :: rat) < of_int (2 ^ nat (bitlen p))"
    by (simp_all only: of_int_le_iff of_int_less_iff)
  with b show "2 powi (bitlen p - 1) \<le> (of_int p :: rat)" and "(of_int p :: rat) < 2 powi (bitlen p)"
    by (simp_all add: power_int_def)
qed

lemma ilog2_bounds:
  assumes "0 < x"
  shows "2 powi ilog2 x \<le> x" and "x < 2 powi (ilog2 x + 1)"
proof -
  obtain p q where pq: "quotient_of x = (p, q)" by fastforce
  have q: "0 < q" using quotient_of_denom_pos [OF pq] .
  have x: "x = of_int p / of_int q" using quotient_of_div [OF pq] .
  with assms q have p: "0 < p" by (simp add: zero_less_divide_iff)
  let ?e = "bitlen p - bitlen q"
  note P = bitlen_powi [OF p] and Q = bitlen_powi [OF q]
  have qpos: "0 < (of_int q :: rat)" using q by simp
  have ppos: "0 < (of_int p :: rat)" using p by simp
  have "x < 2 powi (bitlen p) / 2 powi (bitlen q - 1)"
    unfolding x using P Q ppos by (intro frac_less) auto
  then have up: "x < 2 powi (?e + 1)" by (simp add: power_int_diff power_int_add)
  have "2 powi (bitlen p - 1) / 2 powi (bitlen q) < x"
    unfolding x using P Q qpos by (intro frac_less2) auto
  then have lo: "2 powi (?e - 1) < x" by (simp add: power_int_diff power_int_add)
  show "2 powi ilog2 x \<le> x" and "x < 2 powi (ilog2 x + 1)"
    using up lo by (auto simp: ilog2_def pq Let_def)
qed

lemma ilog2_unique: "2 powi k \<le> x \<Longrightarrow> x < 2 powi (k + 1) \<Longrightarrow> ilog2 x = k"
proof -
  assume k: "2 powi k \<le> x" "x < 2 powi (k + 1)"
  then have x: "0 < x" by (meson less_le_trans zero_less_numeral zero_less_power_int)
  have "(2 :: rat) powi k < 2 powi (ilog2 x + 1)" "(2 :: rat) powi ilog2 x < 2 powi (k + 1)"
    using k ilog2_bounds [OF x] by (meson le_less_trans)+
  then have "k < ilog2 x + 1" "ilog2 x < k + 1" by (blast dest: powi_less_imp)+
  then show ?thesis by simp
qed

lemma ilog2_le:
  assumes "0 < x" and "x < 2 powi (k + 1)" shows "ilog2 x \<le> k"
proof -
  have "(2 :: rat) powi ilog2 x < 2 powi (k + 1)" using ilog2_bounds [OF assms(1)] assms(2) by linarith
  then show ?thesis using powi_less_imp by fastforce
qed

section \<open>Ties to even\<close>

lemma round_even_int [simp]: "round_even (of_int n) = n"
  by (simp add: round_even_def)

lemma round_even_err: "\<bar>of_int (round_even y) - y\<bar> \<le> 1 / 2"
  unfolding round_even_def Let_def
  using of_int_floor_le [of y] real_of_int_floor_add_one_gt [of "of_rat y"]
    floor_correct [of y]
  by (auto simp: abs_le_iff)

lemma round_even_ge: "of_int n \<le> y \<Longrightarrow> n \<le> round_even y"
proof -
  assume "of_int n \<le> y"
  then have "n \<le> \<lfloor>y\<rfloor>" by (simp add: le_floor_iff)
  then show ?thesis by (auto simp: round_even_def Let_def)
qed

lemma round_even_le: "y \<le> of_int n \<Longrightarrow> round_even y \<le> n"
proof -
  assume y: "y \<le> of_int n"
  then have f: "\<lfloor>y\<rfloor> \<le> n" by (simp add: floor_le_iff)
  show ?thesis
  proof (cases "\<lfloor>y\<rfloor> = n")
    case True
    with y have "y = of_int n" using of_int_floor_le [of y] by simp
    then show ?thesis by simp
  next
    case False
    with f show ?thesis by (auto simp: round_even_def Let_def)
  qed
qed

section \<open>Error and exactness\<close>

lemma f64_zero [simp]: "f64 0 = 0"
  by (simp add: f64_def)

lemma f64_nonzero:
  "x \<noteq> 0 \<Longrightarrow> f64 x = of_int (round_even (x / 2 powi (ilog2 \<bar>x\<bar> - 52))) * 2 powi (ilog2 \<bar>x\<bar> - 52)"
  by (simp add: f64_def Let_def)

lemma f64_error: "\<bar>f64 x - x\<bar> \<le> \<bar>x\<bar> / 2 ^ 53"
proof (cases "x = 0")
  case False
  define l where "l = ilog2 \<bar>x\<bar>"
  define u where "u = (2 :: rat) powi (l - 52)"
  have u: "0 < u" by (simp add: u_def)
  have "f64 x - x = (of_int (round_even (x / u)) - x / u) * u"
    using u f64_nonzero [OF False] by (simp add: l_def u_def field_simps)
  then have "\<bar>f64 x - x\<bar> \<le> 1 / 2 * u"
    using round_even_err [of "x / u"] u by (simp add: abs_mult mult_right_mono)
  also have "\<dots> = 2 powi l / 2 ^ 53"
    by (simp add: u_def power_int_diff)
  also have "\<dots> \<le> \<bar>x\<bar> / 2 ^ 53"
    using ilog2_bounds(1) [of "\<bar>x\<bar>"] False by (simp add: l_def divide_right_mono)
  finally show ?thesis .
qed simp

text \<open>A value of at most 53 bits is represented exactly.\<close>

lemma f64_exact:
  assumes "\<bar>m\<bar> \<le> 2 ^ 53"
  shows "f64 (of_int m * 2 powi k) = of_int m * 2 powi k"
proof (cases "m = 0")
  case False
  let ?x = "of_int m * 2 powi k :: rat"
  define l where "l = ilog2 \<bar>?x\<bar>"
  have x: "0 < \<bar>?x\<bar>" using False by simp
  have ax: "\<bar>?x\<bar> = of_int \<bar>m\<bar> * 2 powi k" by (simp add: abs_mult)
  have bound: "\<bar>?x\<bar> \<le> 2 powi (53 + k)"
  proof -
    have "of_int \<bar>m\<bar> \<le> (2 ^ 53 :: rat)"
      using assms of_int_le_iff [of "\<bar>m\<bar>" "2 ^ 53", where 'a = rat] by simp
    then have "of_int \<bar>m\<bar> * 2 powi k \<le> 2 ^ 53 * (2 :: rat) powi k" by (intro mult_right_mono) auto
    then show ?thesis unfolding ax by (simp add: power_int_add)
  qed
  have "\<exists>n. ?x / 2 powi (l - 52) = of_int n"
  proof (cases "l \<le> 52 + k")
    case True
    then obtain j where j: "k - (l - 52) = int j" by (metis add.commute diff_ge_0_iff_ge le_diff_eq
          nonneg_int_cases diff_diff_eq2)
    have "?x / 2 powi (l - 52) = of_int m * 2 powi (k - (l - 52))"
      by (simp add: power_int_diff)
    also have "\<dots> = of_int (m * 2 ^ j)" unfolding j by simp
    finally show ?thesis by blast
  next
    case False
    have "2 powi (53 + k) \<le> (2 powi l :: rat)" using False by (intro power_int_increasing) auto
    with bound ilog2_bounds(1) [OF x] have "\<bar>?x\<bar> = 2 powi l" by (simp add: l_def)
    then have "?x = 2 powi l \<or> ?x = - (2 powi l)" by linarith
    moreover have "(2 :: rat) powi l / 2 powi (l - 52) = of_int (2 ^ 52)"
      by (simp add: power_int_diff)
    ultimately show ?thesis
      by (metis minus_divide_left of_int_minus)
  qed
  then obtain n where n: "?x / 2 powi (l - 52) = of_int n" by blast
  then have "?x = of_int n * 2 powi (l - 52)" by (simp add: field_simps)
  with False show ?thesis
    unfolding f64_def Let_def l_def [symmetric] using n by simp
qed simp

lemma f64_int: "\<bar>m\<bar> \<le> 2 ^ 53 \<Longrightarrow> f64 (of_int m) = of_int m"
  using f64_exact [of m 0] by simp

text \<open>Halving a float64 is exact.\<close>

lemma f64_form: "\<exists>m k. \<bar>m\<bar> \<le> 2 ^ 53 \<and> f64 x = of_int m * 2 powi k"
proof (cases "x = 0")
  case True
  then show ?thesis by (intro exI [of _ 0]) simp
next
  case False
  define l where "l = ilog2 \<bar>x\<bar>"
  define y where "y = x / 2 powi (l - 52)"
  have "\<bar>x\<bar> < 2 powi (l + 1)" using ilog2_bounds(2) [of "\<bar>x\<bar>"] False by (simp add: l_def)
  then have "\<bar>y\<bar> < 2 powi (l + 1) / 2 powi (l - 52)"
    by (simp add: y_def abs_mult divide_strict_right_mono)
  also have "\<dots> = of_int (2 ^ 53)" by (simp add: power_int_diff power_int_add)
  finally have "y \<le> of_int (2 ^ 53)" "of_int (- (2 ^ 53)) \<le> y" by (auto simp: abs_less_iff)
  then have "\<bar>round_even y\<bar> \<le> 2 ^ 53"
    using round_even_le [of y "2 ^ 53"] round_even_ge [of "- (2 ^ 53)" y] by (simp add: abs_le_iff)
  moreover have "f64 x = of_int (round_even y) * 2 powi (l - 52)"
    using f64_nonzero [OF False] by (simp only: l_def y_def)
  ultimately show ?thesis by blast
qed

lemma f64_half: "f64 (f64 x / 2) = f64 x / 2"
proof -
  obtain m k where "\<bar>m\<bar> \<le> 2 ^ 53" and x: "f64 x = of_int m * 2 powi k" using f64_form by blast
  then have "f64 (of_int m * 2 powi (k - 1)) = of_int m * 2 powi (k - 1)" by (intro f64_exact)
  then show ?thesis unfolding x by (simp add: power_int_diff)
qed

text \<open>Rounding does not pass an integer below \<open>2^53\<close>.\<close>

lemma ulp_int: "l \<le> 52 \<Longrightarrow> \<exists>n. of_int c / (2 :: rat) powi (l - 52) = of_int n"
proof -
  assume "l \<le> 52"
  then obtain j where j: "52 - l = int j" by (metis diff_ge_0_iff_ge nonneg_int_cases)
  have "of_int c / (2 :: rat) powi (l - 52) = of_int c * 2 powi (52 - l)"
    by (simp add: power_int_diff)
  also have "\<dots> = of_int (c * 2 ^ j)" unfolding j by simp
  finally show ?thesis by blast
qed

lemma f64_ge_int:
  assumes "\<bar>x\<bar> < 2 ^ 53" and "of_int c \<le> x"
  shows "of_int c \<le> f64 x"
proof (cases "x = 0")
  case False
  define l where "l = ilog2 \<bar>x\<bar>"
  have "l \<le> 52" unfolding l_def using False assms(1) by (intro ilog2_le) auto
  then obtain n where n: "of_int c / (2 :: rat) powi (l - 52) = of_int n" using ulp_int by blast
  have "of_int n \<le> x / 2 powi (l - 52)" unfolding n [symmetric]
    using assms(2) by (intro divide_right_mono) auto
  then have "n \<le> round_even (x / 2 powi (l - 52))" by (rule round_even_ge)
  then have "of_int n * 2 powi (l - 52) \<le> of_int (round_even (x / 2 powi (l - 52))) * (2 :: rat) powi (l - 52)"
    by (intro mult_right_mono) auto
  moreover have "of_int n * (2 :: rat) powi (l - 52) = of_int c" using n by (simp add: field_simps)
  ultimately show ?thesis using f64_nonzero [OF False, folded l_def] by simp
qed (use assms in simp)

lemma f64_le_int:
  assumes "\<bar>x\<bar> < 2 ^ 53" and "x \<le> of_int c"
  shows "f64 x \<le> of_int c"
proof (cases "x = 0")
  case False
  define l where "l = ilog2 \<bar>x\<bar>"
  have "l \<le> 52" unfolding l_def using False assms(1) by (intro ilog2_le) auto
  then obtain n where n: "of_int c / (2 :: rat) powi (l - 52) = of_int n" using ulp_int by blast
  have "x / 2 powi (l - 52) \<le> of_int n" unfolding n [symmetric]
    using assms(2) by (intro divide_right_mono) auto
  then have "round_even (x / 2 powi (l - 52)) \<le> n" by (rule round_even_le)
  then have "of_int (round_even (x / 2 powi (l - 52))) * (2 :: rat) powi (l - 52) \<le> of_int n * 2 powi (l - 52)"
    by (intro mult_right_mono) auto
  moreover have "of_int n * (2 :: rat) powi (l - 52) = of_int c" using n by (simp add: field_simps)
  ultimately show ?thesis using f64_nonzero [OF False, folded l_def] by simp
qed (use assms in simp)

section \<open>Rounding to an integer\<close>

lemma math_Round_eq: "of_int k - 1 / 2 \<le> x \<Longrightarrow> x < of_int k + 1 / 2 \<Longrightarrow> 0 \<le> x \<Longrightarrow> math_Round x = k"
  by (auto simp: math_Round_def floor_eq_iff)

lemma int_of_f64_id: "is_i64 z \<Longrightarrow> int_of_f64 z = z"
  by (simp add: int_of_f64_def)

end
