(* ===== verification/Engine.thy ===== *)
theory Engine
  imports Go_Float
begin

text \<open>
  The engine interface and its driver: \<^verbatim>\<open>internal/engine/engine.go\<close>, \<^verbatim>\<open>ranges.go\<close> and \<^verbatim>\<open>apply.go\<close>.

  A transaction of the engine is an opaque state \<open>'s\<close> with the interface's methods as functions
  over it (the record \<open>Transaction\<close>); an \<open>Engine\<close> makes transactions.  \<open>begin_tx\<close>, \<open>finish_tx\<close>,
  \<open>Apply\<close>, \<open>ApplyKeep\<close>, \<open>Resume_tx\<close>, \<open>Discard\<close> and \<open>ApplyResponse_tx\<close> are the driver's
  functions: each returns the state the transaction is left in beside its result, so that what was
  called, and whether the transaction was closed, can be stated.  The locale \<open>recording\<close> is the
  interface of a transaction that remembers its calls; the driver's call sequences are proved in
  it once, and \<open>recorded\<close> (any engine with a call list beside its state) interprets it.
\<close>

section \<open>Rule identifiers and ranges\<close>

type_synonym Ranges = "(int \<times> int) list"

datatype range_error = InvalidRange string

definition cutRange :: "string \<Rightarrow> (int \<times> int) option" where
  "cutRange item = (case Cut item ''-'' of
     Some (lo, hi) \<Rightarrow>
       (case (Atoi lo, Atoi hi) of
          (Some l, Some h) \<Rightarrow> if l < 0 \<or> l > h then None else Some (l, h)
        | _ \<Rightarrow> None)
   | None \<Rightarrow> (case Atoi item of
       Some v \<Rightarrow> if v < 0 then None else Some (v, v)
     | None \<Rightarrow> None))"

definition parse_range :: "string \<Rightarrow> range_error + (int \<times> int)" where
  "parse_range item = (case cutRange (TrimSpace item) of
     None \<Rightarrow> Inl (InvalidRange item) | Some r \<Rightarrow> Inr r)"

definition ParseRanges :: "string list \<Rightarrow> range_error + Ranges" where
  "ParseRanges items = traverse parse_range items"

definition Has :: "Ranges \<Rightarrow> int \<Rightarrow> bool" where
  "Has rs i = list_ex (\<lambda>rng. i \<ge> fst rng \<and> i \<le> snd rng) rs"

lemma cutRange_ordered: "cutRange s = Some (lo, hi) \<Longrightarrow> 0 \<le> lo \<and> lo \<le> hi"
  by (auto simp: cutRange_def split: option.splits if_splits)

lemma ParseRanges_ordered: "ParseRanges items = Inr rs \<Longrightarrow> \<forall>(lo, hi) \<in> set rs. 0 \<le> lo \<and> lo \<le> hi"
  unfolding ParseRanges_def
  by (auto dest!: traverse_set simp: parse_range_def split: option.splits dest: cutRange_ordered)

subsection \<open>A printed range is read back\<close>

definition print_range :: "int \<times> int \<Rightarrow> string" where
  "print_range r = Itoa (fst r) @ ''-'' @ Itoa (snd r)"

lemma cutRange_print:
  assumes "0 \<le> lo" "lo \<le> hi" "is_i64 hi"
  shows "cutRange (TrimSpace (print_range (lo, hi))) = Some (lo, hi)"
proof -
  have i: "is_i64 lo" "is_i64 hi" using assms by (auto simp: is_i64_def)
  have d: "\<forall>c \<in> set (Itoa lo) \<union> set (Itoa hi). is_digit c"
    using assms Itoa_nonneg by (meson UnE order_trans)
  then have "TrimSpace (print_range (lo, hi)) = Itoa lo @ CHR ''-'' # Itoa hi"
    unfolding print_range_def fst_conv snd_conv
    by (subst TrimSpace_graphic) (auto simp: is_graphic_def [of "CHR ''-''"] dest: digit_graphic)
  moreover have "CHR ''-'' \<notin> set (Itoa lo)" using d digit_graphic by blast
  ultimately have "Cut (TrimSpace (print_range (lo, hi))) ''-'' = Some (Itoa lo, Itoa hi)"
    by (simp add: Cut_skip)
  then show ?thesis
    using assms i by (simp add: cutRange_def Atoi_Itoa)
qed

section \<open>Interventions, matches, inputs and outcomes\<close>

record Intervention =
  iv_Status :: int
  iv_Pause :: int
  iv_URL :: string
  iv_Log :: string
  iv_Disruptive :: bool
  iv_Action :: string
  iv_RuleID :: int

record MatchedRule =
  mr_ID :: int
  mr_Phase :: int
  mr_Severity :: string
  mr_Tags :: "string list"
  mr_Message :: string
  mr_Data :: string
  mr_Target :: string

abbreviation (input) TagMax :: nat where "TagMax \<equiv> 128"

definition Finding_rule :: "MatchedRule \<Rightarrow> bool" where
  "Finding_rule r \<longleftrightarrow> mr_Message r \<noteq> ''''"

definition Tagged :: "MatchedRule \<Rightarrow> string list \<Rightarrow> bool" where
  "Tagged r tags = list_ex (\<lambda>have'. list_ex (\<lambda>want. have' = want) tags) (mr_Tags r)"

lemma Tagged_iff: "Tagged r tags \<longleftrightarrow> set (mr_Tags r) \<inter> set tags \<noteq> {}"
  by (auto simp: Tagged_def list_ex_iff)

record Input =
  in_RID :: string
  in_ClientIP :: string
  in_ClientPort :: int
  in_ServerIP :: string
  in_ServerPort :: int
  in_Method :: string
  in_URI :: string
  in_Args :: string
  in_Version :: string
  in_Host :: string
  in_Headers :: "(string \<times> string) list"
  in_Body :: bytes
  in_BodyTruncated :: bool

record ResponseInput =
  ri_Status :: int
  ri_Proto :: string
  ri_Headers :: "(string \<times> string) list"
  ri_Body :: bytes
  ri_BodyTruncated :: bool

record EngineOutcome =
  eo_Intervention :: "Intervention option"
  eo_Matched :: "MatchedRule list"
  eo_AnomalyScore :: int
  eo_Threshold :: int
  eo_EngineMS :: rat

section \<open>The transaction interface\<close>

record 's Transaction =
  tx_ProcessConnection :: "string \<Rightarrow> int \<Rightarrow> string \<Rightarrow> int \<Rightarrow> 's \<Rightarrow> 's"
  tx_ProcessURI :: "string \<Rightarrow> string \<Rightarrow> string \<Rightarrow> 's \<Rightarrow> 's"
  tx_SetServerName :: "string \<Rightarrow> 's \<Rightarrow> 's"
  tx_AddRequestHeader :: "string \<Rightarrow> string \<Rightarrow> 's \<Rightarrow> 's"
  tx_ProcessRequestHeaders :: "'s \<Rightarrow> Intervention option \<times> 's"
  tx_WriteRequestBody :: "bytes \<Rightarrow> 's \<Rightarrow> string option \<times> 's"
  tx_ProcessRequestBody :: "'s \<Rightarrow> Intervention option \<times> string option \<times> 's"
  tx_AddResponseHeader :: "string \<Rightarrow> string \<Rightarrow> 's \<Rightarrow> 's"
  tx_ProcessResponseHeaders :: "int \<Rightarrow> string \<Rightarrow> 's \<Rightarrow> Intervention option \<times> 's"
  tx_WriteResponseBody :: "bytes \<Rightarrow> 's \<Rightarrow> string option \<times> 's"
  tx_ProcessResponseBody :: "'s \<Rightarrow> Intervention option \<times> string option \<times> 's"
  tx_Matched :: "'s \<Rightarrow> MatchedRule list"
  tx_Anomaly :: "'s \<Rightarrow> int \<times> int"
  tx_AnomalyOutbound :: "'s \<Rightarrow> int \<times> int"
  tx_ProcessLogging :: "'s \<Rightarrow> 's"
  tx_Close :: "'s \<Rightarrow> 's"

record 's Engine =
  eng_NewTransaction :: "string \<Rightarrow> string + 's"
  eng_RuleCount :: int
  eng_Tx :: "'s Transaction"

record 's Live =
  live_ops :: "'s Transaction"
  live_tx :: 's
  live_proto :: string

section \<open>The driver\<close>

definition requestTarget :: "string \<Rightarrow> string \<Rightarrow> string" where
  "requestTarget uri args = (if args = '''' then uri else uri @ ''?'' @ args)"

definition protocolVersion :: "string \<Rightarrow> string" where
  "protocolVersion v = (if v = '''' then ''1.1'' else TrimPrefix v ''HTTP/'')"

definition hostname :: "string \<Rightarrow> string" where
  "hostname host = (case LastIndexByte host (CHR '':'') of
     Some i \<Rightarrow> if \<not> Contains (drop i host) '']'' then take i host else host
   | None \<Rightarrow> host)"

definition matchedPhases :: "'s Transaction \<Rightarrow> 's \<Rightarrow> int \<Rightarrow> int \<Rightarrow> MatchedRule list" where
  "matchedPhases T s lo hi = filter (\<lambda>m. mr_Phase m \<ge> lo \<and> mr_Phase m \<le> hi) (tx_Matched T s)"

text \<open>The elapsed time is a count of microseconds given by the clock.\<close>

definition outcome_of :: "'s Transaction \<Rightarrow> 's \<Rightarrow> Intervention option \<Rightarrow> int \<Rightarrow> int \<Rightarrow>
    ('s \<Rightarrow> int \<times> int) \<Rightarrow> int \<Rightarrow> EngineOutcome" where
  "outcome_of T s it lo hi score us =
     \<lparr>eo_Intervention = it, eo_Matched = matchedPhases T s lo hi,
      eo_AnomalyScore = fst (score s), eo_Threshold = snd (score s),
      eo_EngineMS = f64 (f64 (of_int us) / 1000)\<rparr>"

text \<open>\<open>begin_tx\<close> answers the open transaction and its intervention, or the error and the state
  the transaction was left in (none if there was no transaction).\<close>

definition begin_tx :: "'s Engine \<Rightarrow> Input \<Rightarrow> (string \<times> 's option) + ('s \<times> Intervention option)" where
  "begin_tx eng inp = (case eng_NewTransaction eng (in_RID inp) of
     Inl e \<Rightarrow> Inl (e, None)
   | Inr s0 \<Rightarrow>
      (let T = eng_Tx eng;
           s1 = tx_ProcessConnection T (in_ClientIP inp) (in_ClientPort inp) (in_ServerIP inp)
                  (in_ServerPort inp) s0;
           s2 = tx_ProcessURI T (requestTarget (in_URI inp) (in_Args inp)) (in_Method inp)
                  (protocolVersion (in_Version inp)) s1;
           s3 = (if in_Host inp \<noteq> '''' then tx_SetServerName T (hostname (in_Host inp)) s2 else s2);
           s4 = fold (\<lambda>h. tx_AddRequestHeader T (fst h) (snd h)) (in_Headers inp) s3;
           (it1, s5) = tx_ProcessRequestHeaders T s4;
           (err, s6) = (if in_Body inp \<noteq> [] then tx_WriteRequestBody T (in_Body inp) s5
                        else (None, s5))
       in case err of
            Some e \<Rightarrow> Inl (e, Some (tx_Close T s6))
          | None \<Rightarrow>
             (case tx_ProcessRequestBody T s6 of
                (v, Some e, s7) \<Rightarrow> Inl (e, Some (tx_Close T s7))
              | (v, None, s7) \<Rightarrow> Inr (s7, if v \<noteq> None \<and> it1 = None then v else it1))))"

definition finish_tx :: "'s Transaction \<Rightarrow> 's \<Rightarrow> ResponseInput \<Rightarrow> string \<Rightarrow> int \<Rightarrow>
    's \<times> (string + EngineOutcome)" where
  "finish_tx T s0 rsp proto us =
     (let s1 = fold (\<lambda>h. tx_AddResponseHeader T (fst h) (snd h)) (ri_Headers rsp) s0;
          (it1, s2) = tx_ProcessResponseHeaders T (ri_Status rsp) proto s1;
          (err, s3) = (if ri_Body rsp \<noteq> [] then tx_WriteResponseBody T (ri_Body rsp) s2
                       else (None, s2))
      in case err of
           Some e \<Rightarrow> (s3, Inl e)
         | None \<Rightarrow>
            (case tx_ProcessResponseBody T s3 of
               (v, Some e, s4) \<Rightarrow> (s4, Inl e)
             | (v, None, s4) \<Rightarrow>
                (let s5 = tx_ProcessLogging T s4
                 in (s5, Inr (outcome_of T s5 (if v \<noteq> None \<and> it1 = None then v else it1) 3 4
                                (tx_AnomalyOutbound T) us)))))"

definition Apply :: "'s Engine \<Rightarrow> Input \<Rightarrow> int \<Rightarrow> 's option \<times> (string + EngineOutcome)" where
  "Apply eng inp us = (case begin_tx eng inp of
     Inl (e, s) \<Rightarrow> (s, Inl e)
   | Inr (s, it) \<Rightarrow>
      (let T = eng_Tx eng; s1 = tx_ProcessLogging T s
       in (Some (tx_Close T s1), Inr (outcome_of T s1 it 1 2 (tx_Anomaly T) us))))"

definition ApplyKeep :: "'s Engine \<Rightarrow> Input \<Rightarrow> int \<Rightarrow>
    's option \<times> (string + EngineOutcome \<times> 's Live)" where
  "ApplyKeep eng inp us = (case begin_tx eng inp of
     Inl (e, s) \<Rightarrow> (s, Inl e)
   | Inr (s, it) \<Rightarrow>
      (Some s, Inr (outcome_of (eng_Tx eng) s it 1 2 (tx_Anomaly (eng_Tx eng)) us,
         \<lparr>live_ops = eng_Tx eng, live_tx = s, live_proto = protocolVersion (in_Version inp)\<rparr>)))"

definition Resume_tx :: "'s Live \<Rightarrow> ResponseInput \<Rightarrow> int \<Rightarrow> 's \<times> (string + EngineOutcome)" where
  "Resume_tx l rsp us = (case finish_tx (live_ops l) (live_tx l) rsp (live_proto l) us of
     (s, r) \<Rightarrow> (tx_Close (live_ops l) s, r))"

definition Discard :: "'s Live \<Rightarrow> 's" where
  "Discard l = tx_Close (live_ops l) (live_tx l)"

definition ApplyResponse_tx :: "'s Engine \<Rightarrow> Input \<Rightarrow> ResponseInput \<Rightarrow> int \<Rightarrow>
    's option \<times> (string + EngineOutcome)" where
  "ApplyResponse_tx eng inp rsp us = (case begin_tx eng inp of
     Inl (e, s) \<Rightarrow> (s, Inl e)
   | Inr (s, it) \<Rightarrow>
      (case finish_tx (eng_Tx eng) s rsp (protocolVersion (in_Version inp)) us of
         (s1, r) \<Rightarrow> (Some (tx_Close (eng_Tx eng) s1), r)))"

section \<open>What the driver calls\<close>

datatype tx_call =
    CallConnection string int string int
  | CallURI string string string
  | CallServerName string
  | CallRequestHeader string string
  | CallRequestHeaders
  | CallWriteRequestBody bytes
  | CallRequestBody
  | CallResponseHeader string string
  | CallResponseHeaders int string
  | CallWriteResponseBody bytes
  | CallResponseBody
  | CallLogging
  | CallClose

locale recording =
  fixes T :: "'s Transaction" and calls :: "'s \<Rightarrow> tx_call list"
  assumes connection: "calls (tx_ProcessConnection T ip port sip sport s) = calls s @ [CallConnection ip port sip sport]"
    and uri: "calls (tx_ProcessURI T u m v s) = calls s @ [CallURI u m v]"
    and server: "calls (tx_SetServerName T n s) = calls s @ [CallServerName n]"
    and req_header: "calls (tx_AddRequestHeader T n v s) = calls s @ [CallRequestHeader n v]"
    and req_headers: "tx_ProcessRequestHeaders T s = (i, s') \<Longrightarrow> calls s' = calls s @ [CallRequestHeaders]"
    and write_req: "tx_WriteRequestBody T b s = (e, s') \<Longrightarrow> calls s' = calls s @ [CallWriteRequestBody b]"
    and req_body: "tx_ProcessRequestBody T s = (i, e, s') \<Longrightarrow> calls s' = calls s @ [CallRequestBody]"
    and rsp_header: "calls (tx_AddResponseHeader T n v s) = calls s @ [CallResponseHeader n v]"
    and rsp_headers: "tx_ProcessResponseHeaders T st p s = (i, s') \<Longrightarrow>
      calls s' = calls s @ [CallResponseHeaders st p]"
    and write_rsp: "tx_WriteResponseBody T b s = (e, s') \<Longrightarrow> calls s' = calls s @ [CallWriteResponseBody b]"
    and rsp_body: "tx_ProcessResponseBody T s = (i, e, s') \<Longrightarrow> calls s' = calls s @ [CallResponseBody]"
    and logging: "calls (tx_ProcessLogging T s) = calls s @ [CallLogging]"
    and close: "calls (tx_Close T s) = calls s @ [CallClose]"

locale recording_engine = recording "eng_Tx eng" calls
  for eng :: "'s Engine" and calls :: "'s \<Rightarrow> tx_call list" +
  assumes fresh: "eng_NewTransaction eng rid = Inr s \<Longrightarrow> calls s = []"

text \<open>The calls of phases 1 and 2 on an input, and of phases 3 and 4 on a response.\<close>

definition request_calls :: "Input \<Rightarrow> tx_call list" where
  "request_calls inp =
     [CallConnection (in_ClientIP inp) (in_ClientPort inp) (in_ServerIP inp) (in_ServerPort inp),
      CallURI (requestTarget (in_URI inp) (in_Args inp)) (in_Method inp)
        (protocolVersion (in_Version inp))]
     @ (if in_Host inp \<noteq> '''' then [CallServerName (hostname (in_Host inp))] else [])
     @ map (\<lambda>h. CallRequestHeader (fst h) (snd h)) (in_Headers inp)
     @ [CallRequestHeaders]
     @ (if in_Body inp \<noteq> [] then [CallWriteRequestBody (in_Body inp)] else [])
     @ [CallRequestBody]"

definition response_calls :: "ResponseInput \<Rightarrow> string \<Rightarrow> tx_call list" where
  "response_calls rsp proto =
     map (\<lambda>h. CallResponseHeader (fst h) (snd h)) (ri_Headers rsp)
     @ [CallResponseHeaders (ri_Status rsp) proto]
     @ (if ri_Body rsp \<noteq> [] then [CallWriteResponseBody (ri_Body rsp)] else [])
     @ [CallResponseBody]"

definition closed_once :: "tx_call list \<Rightarrow> bool" where
  "closed_once cs \<longleftrightarrow> cs \<noteq> [] \<and> last cs = CallClose \<and> CallClose \<notin> set (butlast cs)"

lemma closed_onceI: "CallClose \<notin> set before \<Longrightarrow> closed_once (before @ [CallClose])"
  by (simp add: closed_once_def)

lemma request_calls_open: "CallClose \<notin> set (request_calls inp)"
  by (auto simp: request_calls_def)

lemma response_calls_open: "CallClose \<notin> set (response_calls rsp p)"
  by (auto simp: response_calls_def)

context recording
begin

lemma fold_request_headers:
  "calls (fold (\<lambda>h. tx_AddRequestHeader T (fst h) (snd h)) hs s) =
     calls s @ map (\<lambda>h. CallRequestHeader (fst h) (snd h)) hs"
  by (induction hs arbitrary: s) (auto simp: req_header)

lemma fold_response_headers:
  "calls (fold (\<lambda>h. tx_AddResponseHeader T (fst h) (snd h)) hs s) =
     calls s @ map (\<lambda>h. CallResponseHeader (fst h) (snd h)) hs"
  by (induction hs arbitrary: s) (auto simp: rsp_header)

lemmas call_rules = connection uri server fold_request_headers fold_response_headers logging close

lemma finish_ok:
  assumes "finish_tx T s rsp proto us = (s', Inr out)"
  shows "calls s' = calls s @ response_calls rsp proto @ [CallLogging]"
  using assms
  by (auto simp: finish_tx_def Let_def call_rules response_calls_def
      split: prod.splits option.splits if_splits dest!: rsp_headers write_rsp rsp_body)

lemma finish_open:
  assumes "finish_tx T s rsp proto us = (s', r)" and "CallClose \<notin> set (calls s)"
  shows "CallClose \<notin> set (calls s')"
  using assms
  by (auto simp: finish_tx_def Let_def call_rules
      split: prod.splits option.splits if_splits dest!: rsp_headers write_rsp rsp_body)

end

context recording_engine
begin

lemma begin_ok:
  assumes "begin_tx eng inp = Inr (s, it)"
  shows "calls s = request_calls inp"
  using assms
  by (auto simp: begin_tx_def Let_def call_rules request_calls_def
      split: sum.splits prod.splits option.splits if_splits
      dest!: req_headers write_req req_body fresh)

lemma begin_err:
  assumes "begin_tx eng inp = Inl (e, Some s)"
  shows "closed_once (calls s)"
  using assms
  by (auto simp: begin_tx_def Let_def call_rules
      split: sum.splits prod.splits option.splits if_splits
      dest!: req_headers write_req req_body fresh)
    (auto simp: closed_once_def butlast_append)

lemma apply_ok:
  assumes "Apply eng inp us = (Some s, Inr out)"
  shows "calls s = request_calls inp @ [CallLogging, CallClose]"
  using assms
  by (auto simp: Apply_def Let_def call_rules split: sum.splits prod.splits dest!: begin_ok)

lemma apply_closes:
  assumes "Apply eng inp us = (Some s, r)"
  shows "closed_once (calls s)"
proof (cases r)
  case (Inl e)
  with assms show ?thesis
    by (auto simp: Apply_def Let_def split: sum.splits prod.splits intro: begin_err)
next
  case (Inr out)
  with assms have "calls s = (request_calls inp @ [CallLogging]) @ [CallClose]"
    using apply_ok by simp
  then show ?thesis
    using request_calls_open [of inp] closed_onceI [of "request_calls inp @ [CallLogging]"] by simp
qed

lemma apply_response_ok:
  assumes "ApplyResponse_tx eng inp rsp us = (Some s, Inr out)"
  shows "calls s = request_calls inp @ response_calls rsp (protocolVersion (in_Version inp))
    @ [CallLogging, CallClose]"
  using assms
  by (auto simp: ApplyResponse_tx_def call_rules split: sum.splits prod.splits
      dest!: begin_ok finish_ok)

lemma apply_response_closes:
  assumes "ApplyResponse_tx eng inp rsp us = (Some s, r)"
  shows "closed_once (calls s)"
proof (cases "begin_tx eng inp")
  case (Inl p)
  with assms show ?thesis
    by (cases p) (auto simp: ApplyResponse_tx_def intro: begin_err)
next
  case (Inr p)
  obtain s0 it where p: "p = (s0, it)" by (cases p)
  obtain s1 r1 where f: "finish_tx (eng_Tx eng) s0 rsp (protocolVersion (in_Version inp)) us = (s1, r1)"
    by fastforce
  have "CallClose \<notin> set (calls s0)"
    using begin_ok Inr p request_calls_open by metis
  then have "CallClose \<notin> set (calls s1)" using finish_open [OF f] by blast
  with assms Inr p f show ?thesis
    by (auto simp: ApplyResponse_tx_def close intro: closed_onceI)
qed

lemma keep_open:
  assumes "ApplyKeep eng inp us = (Some s, Inr (out, l))"
  shows "live_tx l = s \<and> live_ops l = eng_Tx eng \<and> calls s = request_calls inp"
  using assms by (auto simp: ApplyKeep_def split: sum.splits prod.splits dest: begin_ok)

lemma keep_err:
  assumes "ApplyKeep eng inp us = (Some s, Inl e)"
  shows "closed_once (calls s)"
  using assms by (auto simp: ApplyKeep_def split: sum.splits prod.splits intro: begin_err)

lemma resume_closes:
  assumes "live_ops l = eng_Tx eng" and "CallClose \<notin> set (calls (live_tx l))"
    and "Resume_tx l rsp us = (s, r)"
  shows "closed_once (calls s)"
  using assms finish_open
  by (auto simp: Resume_tx_def close split: prod.splits intro!: closed_onceI)

lemma discard_closes:
  assumes "live_ops l = eng_Tx eng" and "CallClose \<notin> set (calls (live_tx l))"
  shows "closed_once (calls (Discard l))"
  using assms by (auto simp: Discard_def close intro!: closed_onceI)

end

section \<open>Any engine, with its calls recorded\<close>

definition note_call :: "tx_call \<Rightarrow> ('s \<Rightarrow> 's) \<Rightarrow> 's \<times> tx_call list \<Rightarrow> 's \<times> tx_call list" where
  "note_call c f p = (f (fst p), snd p @ [c])"

definition note_result :: "tx_call \<Rightarrow> ('s \<Rightarrow> 'r \<times> 's) \<Rightarrow> 's \<times> tx_call list \<Rightarrow> 'r \<times> 's \<times> tx_call list" where
  "note_result c f p = (case f (fst p) of (r, s) \<Rightarrow> (r, s, snd p @ [c]))"

definition note_result2 ::
    "tx_call \<Rightarrow> ('s \<Rightarrow> 'q \<times> 'r \<times> 's) \<Rightarrow> 's \<times> tx_call list \<Rightarrow> 'q \<times> 'r \<times> 's \<times> tx_call list" where
  "note_result2 c f p = (case f (fst p) of (q, r, s) \<Rightarrow> (q, r, s, snd p @ [c]))"

definition recorded :: "'s Transaction \<Rightarrow> ('s \<times> tx_call list) Transaction" where
  "recorded T =
    \<lparr>tx_ProcessConnection = (\<lambda>a b c d. note_call (CallConnection a b c d) (tx_ProcessConnection T a b c d)),
     tx_ProcessURI = (\<lambda>u m v. note_call (CallURI u m v) (tx_ProcessURI T u m v)),
     tx_SetServerName = (\<lambda>n. note_call (CallServerName n) (tx_SetServerName T n)),
     tx_AddRequestHeader = (\<lambda>n v. note_call (CallRequestHeader n v) (tx_AddRequestHeader T n v)),
     tx_ProcessRequestHeaders = note_result CallRequestHeaders (tx_ProcessRequestHeaders T),
     tx_WriteRequestBody = (\<lambda>b. note_result (CallWriteRequestBody b) (tx_WriteRequestBody T b)),
     tx_ProcessRequestBody = note_result2 CallRequestBody (tx_ProcessRequestBody T),
     tx_AddResponseHeader = (\<lambda>n v. note_call (CallResponseHeader n v) (tx_AddResponseHeader T n v)),
     tx_ProcessResponseHeaders =
       (\<lambda>st p. note_result (CallResponseHeaders st p) (tx_ProcessResponseHeaders T st p)),
     tx_WriteResponseBody = (\<lambda>b. note_result (CallWriteResponseBody b) (tx_WriteResponseBody T b)),
     tx_ProcessResponseBody = note_result2 CallResponseBody (tx_ProcessResponseBody T),
     tx_Matched = (\<lambda>p. tx_Matched T (fst p)),
     tx_Anomaly = (\<lambda>p. tx_Anomaly T (fst p)),
     tx_AnomalyOutbound = (\<lambda>p. tx_AnomalyOutbound T (fst p)),
     tx_ProcessLogging = note_call CallLogging (tx_ProcessLogging T),
     tx_Close = note_call CallClose (tx_Close T)\<rparr>"

definition recorded_engine :: "'s Engine \<Rightarrow> ('s \<times> tx_call list) Engine" where
  "recorded_engine eng =
    \<lparr>eng_NewTransaction = (\<lambda>rid. map_sum id (\<lambda>s. (s, [])) (eng_NewTransaction eng rid)),
     eng_RuleCount = eng_RuleCount eng, eng_Tx = recorded (eng_Tx eng)\<rparr>"

lemmas recorded_simps = recorded_def note_call_def note_result_def note_result2_def

interpretation rec: recording "recorded T" snd for T
  by unfold_locales (auto simp: recorded_simps split: prod.splits)

lemma recorded_engine_recording: "recording_engine (recorded_engine eng) snd"
proof -
  have "recording (eng_Tx (recorded_engine eng)) snd"
    using rec.recording_axioms by (simp add: recorded_engine_def)
  moreover have "recording_engine_axioms (recorded_engine eng) snd"
    by unfold_locales (auto simp: recorded_engine_def map_sum_def split: sum.splits)
  ultimately show ?thesis by (rule recording_engine.intro)
qed

interpretation rece: recording_engine "recorded_engine eng" snd for eng
  by (rule recorded_engine_recording)

text \<open>Recording does not change what the driver does.\<close>

lemma fold_note_call:
  "fold (\<lambda>h. note_call (c h) (f h)) hs p = (fold f hs (fst p), snd p @ map c hs)"
  by (induction hs arbitrary: p) (auto simp: note_call_def)

lemma note_beta:
  "note_result c f p = (fst (f (fst p)), snd (f (fst p)), snd p @ [c])"
  "note_result2 c g p = (fst (g (fst p)), fst (snd (g (fst p))), snd (snd (g (fst p))), snd p @ [c])"
  by (simp_all add: note_result_def note_result2_def split_beta)

lemma begin_erase:
  "begin_tx eng inp =
     map_sum (map_prod id (map_option fst)) (map_prod fst id) (begin_tx (recorded_engine eng) inp)"
  by (cases "eng_NewTransaction eng (in_RID inp)"; cases "in_Body inp = []"; cases "in_Host inp = ''''")
    (auto simp: begin_tx_def recorded_engine_def recorded_def fold_note_call note_call_def
      note_beta Let_def split_beta split: option.splits)

lemma finish_erase:
  "finish_tx T (fst p) rsp proto us = map_prod fst id (finish_tx (recorded T) p rsp proto us)"
  by (cases "ri_Body rsp = []")
    (auto simp: finish_tx_def recorded_def fold_note_call note_call_def note_beta
      Let_def outcome_of_def matchedPhases_def split_beta split: option.splits)

section \<open>A small engine and input for the witnesses\<close>

definition null_tx :: "unit Transaction" where
  "null_tx =
    \<lparr>tx_ProcessConnection = (\<lambda>_ _ _ _ s. s), tx_ProcessURI = (\<lambda>_ _ _ s. s),
     tx_SetServerName = (\<lambda>_ s. s), tx_AddRequestHeader = (\<lambda>_ _ s. s),
     tx_ProcessRequestHeaders = (\<lambda>s. (None, s)), tx_WriteRequestBody = (\<lambda>_ s. (None, s)),
     tx_ProcessRequestBody = (\<lambda>s. (None, None, s)), tx_AddResponseHeader = (\<lambda>_ _ s. s),
     tx_ProcessResponseHeaders = (\<lambda>_ _ s. (None, s)), tx_WriteResponseBody = (\<lambda>_ s. (None, s)),
     tx_ProcessResponseBody = (\<lambda>s. (None, None, s)), tx_Matched = (\<lambda>_. []),
     tx_Anomaly = (\<lambda>_. (5, 5)), tx_AnomalyOutbound = (\<lambda>_. (0, 4)),
     tx_ProcessLogging = (\<lambda>s. s), tx_Close = (\<lambda>s. s)\<rparr>"

definition null_engine :: "unit Engine" where
  "null_engine = \<lparr>eng_NewTransaction = (\<lambda>_. Inr ()), eng_RuleCount = 1, eng_Tx = null_tx\<rparr>"

definition sample_input :: Input where
  "sample_input =
    \<lparr>in_RID = ''r1'', in_ClientIP = ''10.0.0.1'', in_ClientPort = 4000, in_ServerIP = ''10.0.0.2'',
     in_ServerPort = 80, in_Method = ''POST'', in_URI = ''/a'', in_Args = ''q=1'',
     in_Version = ''HTTP/1.1'', in_Host = ''h:80'', in_Headers = [(''a'', ''b'')], in_Body = ''x'',
     in_BodyTruncated = False\<rparr>"

definition sample_response :: ResponseInput where
  "sample_response =
    \<lparr>ri_Status = 200, ri_Proto = '''', ri_Headers = [(''c'', ''d'')], ri_Body = ''y'',
     ri_BodyTruncated = False\<rparr>"

lemmas sample_defs = recorded_engine_def recorded_simps null_engine_def null_tx_def
  sample_input_def sample_response_def begin_tx_def finish_tx_def outcome_of_def matchedPhases_def

section \<open>Properties\<close>

text \<open>\<open>ParseRanges\<close> reads back every list of ranges printed as \<open>lo-hi\<close>.\<close>

theorem ParseRanges_roundtrip:
  assumes "\<forall>(lo, hi) \<in> set rs. 0 \<le> lo \<and> lo \<le> hi \<and> hi < 2 ^ 63"
  shows "ParseRanges (map print_range rs) = Inr rs"
proof -
  have "parse_range (print_range r) = Inr r" if "r \<in> set rs" for r
  proof (cases r)
    case (Pair lo hi)
    with that assms show ?thesis
      using cutRange_print [of lo hi] by (auto simp: parse_range_def is_i64_def)
  qed
  then show ?thesis
    unfolding ParseRanges_def by (induction rs) auto
qed

theorem ParseRanges_roundtrip_witness:
  "ParseRanges (map print_range [(942000, 942999), (0, 7)]) = Inr [(942000, 942999), (0, 7)]"
  by (rule ParseRanges_roundtrip) simp

text \<open>On every path of \<open>Apply\<close>, errors included, a transaction that was created is closed exactly
  once and nothing is called on it afterwards; on success the calls are those of phases 1 and 2 in
  order, then logging and close.\<close>

theorem Apply_closes_once:
  assumes "Apply (recorded_engine eng) inp us = (Some s, r)"
  shows "closed_once (snd s) \<and>
     (case r of Inl _ \<Rightarrow> True
      | Inr _ \<Rightarrow> snd s = request_calls inp @ [CallLogging, CallClose])"
  using rece.apply_closes [OF assms] rece.apply_ok [of eng inp us s] assms
  by (simp split: sum.split)

theorem Apply_closes_once_witness:
  "\<exists>s out. Apply (recorded_engine null_engine) sample_input 0 = (Some s, Inr out) \<and>
     closed_once (snd s) \<and> snd s = request_calls sample_input @ [CallLogging, CallClose]"
proof -
  obtain s out where "Apply (recorded_engine null_engine) sample_input 0 = (Some s, Inr out)"
    by (simp add: Apply_def sample_defs)
  with Apply_closes_once [OF this] show ?thesis by auto
qed

text \<open>On every path of \<open>ApplyResponse\<close>, errors included, a transaction that was created is closed
  exactly once and nothing is called on it afterwards; on success the calls are those of phases 1
  and 2, then those of phases 3 and 4, then logging and close.\<close>

theorem ApplyResponse_closes_once:
  assumes "ApplyResponse_tx (recorded_engine eng) inp rsp us = (Some s, r)"
  shows "closed_once (snd s) \<and>
     (case r of Inl _ \<Rightarrow> True
      | Inr _ \<Rightarrow> snd s = request_calls inp
          @ response_calls rsp (protocolVersion (in_Version inp)) @ [CallLogging, CallClose])"
  using rece.apply_response_closes [OF assms] rece.apply_response_ok [of eng inp rsp us s] assms
  by (simp split: sum.split)

theorem ApplyResponse_closes_once_witness:
  "\<exists>s out. ApplyResponse_tx (recorded_engine null_engine) sample_input sample_response 0 =
      (Some s, Inr out) \<and> closed_once (snd s)"
proof -
  obtain s out where
    "ApplyResponse_tx (recorded_engine null_engine) sample_input sample_response 0 = (Some s, Inr out)"
    by (simp add: ApplyResponse_tx_def sample_defs)
  with ApplyResponse_closes_once [OF this] show ?thesis by auto
qed

text \<open>A transaction kept for the response phase is still open, with exactly the calls of phases
  1 and 2, and both ways to end it, resuming and discarding, close it exactly once.\<close>

theorem kept_transaction_ends_once:
  assumes "ApplyKeep (recorded_engine eng) inp us = (Some s, Inr (out, l))"
  shows "snd (live_tx l) = request_calls inp \<and> closed_once (snd (Discard l)) \<and>
    closed_once (snd (fst (Resume_tx l rsp us')))"
proof -
  from rece.keep_open [OF assms]
  have l: "live_ops l = eng_Tx (recorded_engine eng)" "snd (live_tx l) = request_calls inp"
    by auto
  then have op: "CallClose \<notin> set (snd (live_tx l))" by (simp add: request_calls_open)
  obtain s' r where "Resume_tx l rsp us' = (s', r)" by fastforce
  with l(2) rece.discard_closes [OF l(1) op] rece.resume_closes [OF l(1) op] show ?thesis by simp
qed

theorem kept_transaction_ends_once_witness:
  "\<exists>s out l. ApplyKeep (recorded_engine null_engine) sample_input 0 = (Some s, Inr (out, l)) \<and>
     closed_once (snd (Discard l)) \<and> closed_once (snd (fst (Resume_tx l sample_response 0)))"
proof -
  obtain s out l where
    "ApplyKeep (recorded_engine null_engine) sample_input 0 = (Some s, Inr (out, l))"
    by (simp add: ApplyKeep_def sample_defs)
  with kept_transaction_ends_once [OF this, of sample_response 0] show ?thesis by blast
qed

text \<open>C35: resuming a kept transaction gives exactly what rebuilding the transaction from the same
  request input gives: the same final state and the same outcome or error.\<close>

theorem resume_equals_rebuild:
  assumes "ApplyKeep eng inp us = (Some s, Inr (out, l))"
  shows "ApplyResponse_tx eng inp rsp us' = map_prod Some id (Resume_tx l rsp us')"
  using assms
  by (auto simp: ApplyKeep_def ApplyResponse_tx_def Resume_tx_def split: sum.splits prod.splits)

theorem resume_equals_rebuild_witness:
  "\<exists>s out l. ApplyKeep null_engine sample_input 0 = (Some s, Inr (out, l)) \<and>
     ApplyResponse_tx null_engine sample_input sample_response 0 =
       map_prod Some id (Resume_tx l sample_response 0)"
proof -
  obtain s out l where "ApplyKeep null_engine sample_input 0 = (Some s, Inr (out, l))"
    by (simp add: ApplyKeep_def sample_defs)
  with resume_equals_rebuild [OF this, of sample_response 0] show ?thesis by blast
qed

text \<open>Recording the calls of an engine changes no result: the driver gives the same state and
  the same answer on the engine itself.\<close>

theorem recording_is_faithful:
  "Apply eng inp us = map_prod (map_option fst) id (Apply (recorded_engine eng) inp us) \<and>
   ApplyResponse_tx eng inp rsp us =
     map_prod (map_option fst) id (ApplyResponse_tx (recorded_engine eng) inp rsp us)"
proof
  have T: "eng_Tx (recorded_engine eng) = recorded (eng_Tx eng)" by (simp add: recorded_engine_def)
  show "Apply eng inp us = map_prod (map_option fst) id (Apply (recorded_engine eng) inp us)"
    unfolding Apply_def begin_erase [of eng] T
    by (auto simp: Let_def recorded_def note_call_def outcome_of_def matchedPhases_def
        split: sum.splits prod.splits)
  show "ApplyResponse_tx eng inp rsp us =
     map_prod (map_option fst) id (ApplyResponse_tx (recorded_engine eng) inp rsp us)"
    unfolding ApplyResponse_tx_def begin_erase [of eng] T
    by (simp add: finish_erase split_beta recorded_def note_call_def split: sum.split)
qed

end
