(* ===== verification/Coraza.thy ===== *)
theory Coraza
  imports Engine
begin

text \<open>
  The adapter over the Coraza library, \<^verbatim>\<open>internal/engine/coraza/coraza.go\<close>.  The library is a
  parameter: \<open>coraza_lib\<close> lists the methods of its transaction the adapter calls, over an opaque
  state \<open>'c\<close>, and \<open>Interruption\<close>, \<open>MatchData\<close> and \<open>RuleMatch\<close> the values they return.
  \<open>coraza_transaction\<close> is the adapter's implementation of the engine's interface.
\<close>

section \<open>Values of the library\<close>

record Interruption =
  ir_RuleID :: int
  ir_Action :: string
  ir_Status :: int
  ir_Data :: string

record MatchData =
  md_Variable :: string
  md_Key :: string

record RuleMatch =
  rm_ID :: int
  rm_Phase :: int
  rm_Severity :: string
  rm_Tags :: "string list"
  rm_Message :: string
  rm_Data :: string
  rm_MatchedDatas :: "MatchData list"

record 'c coraza_lib =
  cz_ProcessConnection :: "string \<Rightarrow> int \<Rightarrow> string \<Rightarrow> int \<Rightarrow> 'c \<Rightarrow> 'c"
  cz_ProcessURI :: "string \<Rightarrow> string \<Rightarrow> string \<Rightarrow> 'c \<Rightarrow> 'c"
  cz_SetServerName :: "string \<Rightarrow> 'c \<Rightarrow> 'c"
  cz_AddRequestHeader :: "string \<Rightarrow> string \<Rightarrow> 'c \<Rightarrow> 'c"
  cz_ProcessRequestHeaders :: "'c \<Rightarrow> Interruption option \<times> 'c"
  cz_WriteRequestBody :: "bytes \<Rightarrow> 'c \<Rightarrow> (Interruption option \<times> int \<times> string option) \<times> 'c"
  cz_ProcessRequestBody :: "'c \<Rightarrow> (Interruption option \<times> string option) \<times> 'c"
  cz_AddResponseHeader :: "string \<Rightarrow> string \<Rightarrow> 'c \<Rightarrow> 'c"
  cz_ProcessResponseHeaders :: "int \<Rightarrow> string \<Rightarrow> 'c \<Rightarrow> Interruption option \<times> 'c"
  cz_WriteResponseBody :: "bytes \<Rightarrow> 'c \<Rightarrow> (Interruption option \<times> int \<times> string option) \<times> 'c"
  cz_ProcessResponseBody :: "'c \<Rightarrow> (Interruption option \<times> string option) \<times> 'c"
  cz_MatchedRules :: "'c \<Rightarrow> RuleMatch list"
  cz_TX :: "'c \<Rightarrow> (string \<Rightarrow> string list) option"
  cz_ProcessLogging :: "'c \<Rightarrow> 'c"
  cz_Close :: "'c \<Rightarrow> 'c"

section \<open>The adapter\<close>

definition convert :: "Interruption option \<Rightarrow> Intervention option" where
  "convert it = (case it of None \<Rightarrow> None
     | Some it \<Rightarrow> Some
         \<lparr>iv_Status = ir_Status it, iv_Pause = 0,
          iv_URL = (if ir_Action it = ''redirect'' then ir_Data it else ''''), iv_Log = '''',
          iv_Disruptive = (ir_Action it \<noteq> '''' \<and> ir_Action it \<noteq> ''pass'' \<and> ir_Action it \<noteq> ''allow''),
          iv_Action = ir_Action it, iv_RuleID = ir_RuleID it\<rparr>)"

text \<open>The key of a header or cookie is lower-cased as \<open>ToLower\<close> does: exact for ASCII, which names of headers and
  cookies are.\<close>

fun target :: "MatchData list \<Rightarrow> string" where
  "target [] = ''''"
| "target (d # ds) =
     (let name = md_Variable d; key = ToLower (md_Key d)
      in if name \<in> {''REQUEST_HEADERS'', ''REQUEST_HEADERS_NAMES''}
           then (if key = '''' then '''' else ''header:'' @ key)
         else if name \<in> {''REQUEST_COOKIES'', ''REQUEST_COOKIES_NAMES''}
           then (if key = '''' then '''' else ''cookie:'' @ key)
         else if name \<in> {''ARGS'', ''ARGS_GET'', ''ARGS_GET_NAMES'', ''ARGS_NAMES'', ''QUERY_STRING''}
           then ''args''
         else if name \<in> {''ARGS_POST'', ''ARGS_POST_NAMES'', ''REQUEST_BODY'', ''FILES'', ''FILES_NAMES'',
             ''MULTIPART_PART_HEADERS'', ''JSON'', ''XML''}
           then ''body''
         else if name \<in> {''REQUEST_URI'', ''REQUEST_URI_RAW'', ''REQUEST_FILENAME'',
             ''REQUEST_BASENAME'', ''REQUEST_LINE''}
           then ''uri''
         else target ds)"

definition matched_rule :: "RuleMatch \<Rightarrow> MatchedRule" where
  "matched_rule m =
     \<lparr>mr_ID = rm_ID m, mr_Phase = rm_Phase m, mr_Severity = rm_Severity m, mr_Tags = rm_Tags m,
      mr_Message = rm_Message m, mr_Data = rm_Data m, mr_Target = target (rm_MatchedDatas m)\<rparr>"

definition anomalyVars :: "string list" where
  "anomalyVars = [''blocking_inbound_anomaly_score'', ''inbound_anomaly_score'',
     ''detection_inbound_anomaly_score'']"

definition anomalyOutVars :: "string list" where
  "anomalyOutVars = [''blocking_outbound_anomaly_score'', ''outbound_anomaly_score'',
     ''detection_outbound_anomaly_score'']"

definition firstInt :: "string list \<Rightarrow> int option" where
  "firstInt values = (case values of [] \<Rightarrow> None | v # _ \<Rightarrow> Atoi v)"

fun first_score :: "(string \<Rightarrow> string list) \<Rightarrow> string list \<Rightarrow> int" where
  "first_score tx [] = 0"
| "first_score tx (name # names) = (case firstInt (tx name) of
     Some v \<Rightarrow> v | None \<Rightarrow> first_score tx names)"

definition anomaly :: "'c coraza_lib \<Rightarrow> string list \<Rightarrow> string \<Rightarrow> 'c \<Rightarrow> int \<times> int" where
  "anomaly lib names threshold s = (case cz_TX lib s of
     None \<Rightarrow> (0, 0)
   | Some tx \<Rightarrow> (first_score tx names,
       case firstInt (tx threshold) of Some v \<Rightarrow> v | None \<Rightarrow> 0))"

definition coraza_transaction :: "'c coraza_lib \<Rightarrow> 'c Transaction" where
  "coraza_transaction lib =
    \<lparr>tx_ProcessConnection = cz_ProcessConnection lib,
     tx_ProcessURI = cz_ProcessURI lib,
     tx_SetServerName = cz_SetServerName lib,
     tx_AddRequestHeader = cz_AddRequestHeader lib,
     tx_ProcessRequestHeaders = (\<lambda>s. map_prod convert id (cz_ProcessRequestHeaders lib s)),
     tx_WriteRequestBody =
       (\<lambda>b s. case cz_WriteRequestBody lib b s of ((_, _, err), s') \<Rightarrow> (err, s')),
     tx_ProcessRequestBody =
       (\<lambda>s. case cz_ProcessRequestBody lib s of ((it, err), s') \<Rightarrow> (convert it, err, s')),
     tx_AddResponseHeader = cz_AddResponseHeader lib,
     tx_ProcessResponseHeaders =
       (\<lambda>st p s. map_prod convert id (cz_ProcessResponseHeaders lib st p s)),
     tx_WriteResponseBody =
       (\<lambda>b s. case cz_WriteResponseBody lib b s of ((_, _, err), s') \<Rightarrow> (err, s')),
     tx_ProcessResponseBody =
       (\<lambda>s. case cz_ProcessResponseBody lib s of ((it, err), s') \<Rightarrow> (convert it, err, s')),
     tx_Matched = (\<lambda>s. map matched_rule (cz_MatchedRules lib s)),
     tx_Anomaly = anomaly lib anomalyVars ''inbound_anomaly_score_threshold'',
     tx_AnomalyOutbound = anomaly lib anomalyOutVars ''outbound_anomaly_score_threshold'',
     tx_ProcessLogging = cz_ProcessLogging lib,
     tx_Close = cz_Close lib\<rparr>"

datatype engine_error = NoRuleFiles | WafError string

text \<open>\<open>New_coraza\<close> compiles the rule files: \<open>newWAF\<close> is the library's constructor; it gives the
  rule count when the library reports one, and the maker of transactions.\<close>

definition New_coraza :: "'c coraza_lib \<Rightarrow> (string list \<Rightarrow> string + (int option \<times> (string \<Rightarrow> 'c))) \<Rightarrow>
    string list \<Rightarrow> engine_error + 'c Engine" where
  "New_coraza lib newWAF files =
     (if files = [] then Inl NoRuleFiles
      else (case newWAF files of
        Inl e \<Rightarrow> Inl (WafError e)
      | Inr (count, newTx) \<Rightarrow> Inr
          \<lparr>eng_NewTransaction = (\<lambda>rid. Inr (newTx rid)),
           eng_RuleCount = (case count of Some n \<Rightarrow> n | None \<Rightarrow> 0),
           eng_Tx = coraza_transaction lib\<rparr>))"

section \<open>Facts\<close>

lemma convert_disruptive:
  "convert (Some it) = Some iv \<Longrightarrow>
     iv_Action iv = ir_Action it \<and> iv_Status iv = ir_Status it \<and>
     (iv_Disruptive iv \<longleftrightarrow> ir_Action it \<notin> {'''', ''pass'', ''allow''}) \<and>
     (iv_URL iv \<noteq> '''' \<longrightarrow> ir_Action it = ''redirect'')"
  by (auto simp: convert_def split: if_splits)

text \<open>The score is the value of the first variable of the list that holds a number.\<close>

lemma first_score_eq:
  "first_score tx names = (case List.find (\<lambda>n. firstInt (tx n) \<noteq> None) names of
     Some n \<Rightarrow> the (firstInt (tx n)) | None \<Rightarrow> 0)"
  by (induction names) (auto split: option.splits)

lemma target_shape:
  "target ds \<in> {'''', ''args'', ''body'', ''uri''} \<or>
   (\<exists>key. key \<noteq> '''' \<and> target ds \<in> {''header:'' @ key, ''cookie:'' @ key})"
  by (induction ds) (auto simp: Let_def)

end
