(* ===== verification/Prior.thy ===== *)
theory Prior
  imports Protocol
begin

text \<open>
  The neighbours' requests, \<^verbatim>\<open>internal/prior/prior.go\<close>: which of the actions delivered with a request
  the profile applies (\<open>Rule\<close>, \<open>validate\<close>, \<open>Evaluate\<close>).  The rows the profile fires itself and the
  loading of the policy file are in \<open>Outcome_Rows\<close>.
\<close>

section \<open>Rules for the neighbours' requests\<close>

abbreviation AnyInspector :: string where "AnyInspector \<equiv> ''*''"

record Rule =
  ru_From :: string
  ru_Accept :: "string list"
  ru_Apply :: "string list"
  ru_Codes :: "string list"

definition Accepts :: "Rule \<Rightarrow> string \<Rightarrow> bool" where
  "Accepts r verb = list_ex (\<lambda>v. v = verb) (ru_Accept r)"

definition WantsAxis :: "Rule \<Rightarrow> string \<Rightarrow> bool" where
  "WantsAxis r axis = (if ru_Apply r = [] then True else list_ex (\<lambda>a. a = axis) (ru_Apply r))"

definition WantsCode :: "Rule \<Rightarrow> string \<Rightarrow> bool" where
  "WantsCode r code = (if ru_Codes r = [] then True else list_ex (\<lambda>c. c = code) (ru_Codes r))"

datatype rule_error =
    FromEmpty | AcceptRequired | NotOursToApply string | UnknownVerb string
  | AxisNeverOccurs string | UnknownAxis string | NeedsNamedSender

definition check_verb :: "string \<Rightarrow> rule_error option" where
  "check_verb verb =
     (if verb \<in> {DoThreshold, DoSkip} then None
      else if verb \<in> {DoChallenge, DoReauth, DoNote} then Some (NotOursToApply verb)
      else Some (UnknownVerb verb))"

definition check_axis :: "string \<Rightarrow> rule_error option" where
  "check_axis axis =
     (if axis = ApplyRequest then None
      else if axis \<in> {ApplyIP, ApplyASN, ApplySession} then Some (AxisNeverOccurs axis)
      else Some (UnknownAxis axis))"

definition validate :: "Rule \<Rightarrow> rule_error option" where
  "validate r =
     (if ru_From r = '''' then Some FromEmpty
      else if ru_Accept r = [] then Some AcceptRequired
      else (case first_error check_verb (ru_Accept r) of
        Some e \<Rightarrow> Some e
      | None \<Rightarrow> (case first_error check_axis (ru_Apply r) of
          Some e \<Rightarrow> Some e
        | None \<Rightarrow> if ru_From r = AnyInspector then Some NeedsNamedSender else None)))"

section \<open>Delivering the requests\<close>

record ActionOutcome =
  ao_From :: string
  ao_Do :: string
  ao_Apply :: string
  ao_Code :: string
  ao_Delta :: int
  ao_Value :: int
  ao_Took :: int
  ao_Outcome :: string

record Ask =
  ask_Skip :: bool
  ask_Percent :: int
  ask_Outcomes :: "ActionOutcome list"

abbreviation OutcomeApplied :: string where "OutcomeApplied \<equiv> ''applied''"
abbreviation OutcomeNoRule :: string where "OutcomeNoRule \<equiv> ''no_rule''"

abbreviation (input) PercentMin :: int where "PercentMin \<equiv> -100"
abbreviation (input) PercentMax :: int where "PercentMax \<equiv> 900"

definition apply_outcome :: "int \<Rightarrow> ActionOutcome \<Rightarrow> ActionOutcome" where
  "apply_outcome took o' = o'\<lparr>ao_Outcome := OutcomeApplied, ao_Took := i64 (ao_Took o' + took)\<rparr>"

definition take_action :: "Action \<Rightarrow> Ask \<times> ActionOutcome \<Rightarrow> Ask \<times> ActionOutcome" where
  "take_action act p = (case p of (a, out) \<Rightarrow>
     if act_Do act = DoSkip then (a\<lparr>ask_Skip := True\<rparr>, apply_outcome 0 out)
     else if act_Do act = DoThreshold
       then (a\<lparr>ask_Percent := i64 (ask_Percent a + act_Delta act)\<rparr>, apply_outcome (act_Delta act) out)
     else (a, out))"

definition rule_matches :: "string \<Rightarrow> Action \<Rightarrow> Rule \<Rightarrow> bool" where
  "rule_matches from act r \<longleftrightarrow>
     \<not> (ru_From r \<noteq> from) \<and>
     \<not> (\<not> Accepts r (act_Do act) \<or> \<not> WantsAxis r (Scope act) \<or> \<not> WantsCode r (act_Code act))"

definition deliver :: "Rule list \<Rightarrow> string \<Rightarrow> Action \<Rightarrow> Ask \<Rightarrow> Ask" where
  "deliver rules from act a =
     (let out = \<lparr>ao_From = from, ao_Do = act_Do act, ao_Apply = Scope act, ao_Code = act_Code act,
                 ao_Delta = act_Delta act, ao_Value = act_Value act, ao_Took = 0,
                 ao_Outcome = OutcomeNoRule\<rparr>;
          (a', out') = fold (\<lambda>r p. if rule_matches from act r then take_action act p else p) rules (a, out)
      in a'\<lparr>ask_Outcomes := ask_Outcomes a' @ [out']\<rparr>)"

definition clamp_percent :: "int \<Rightarrow> int" where
  "clamp_percent p = (let p1 = (if p < PercentMin then PercentMin else p)
     in if p1 > PercentMax then PercentMax else p1)"

definition Evaluate :: "PriorVerdict list \<Rightarrow> Rule list \<Rightarrow> Ask" where
  "Evaluate entries rules =
     (let a = fold (\<lambda>v a. fold (\<lambda>act a. deliver rules (pv_Inspector v) act a) (pv_Actions v) a) entries
                \<lparr>ask_Skip = False, ask_Percent = 0, ask_Outcomes = []\<rparr>
      in a\<lparr>ask_Percent := clamp_percent (ask_Percent a)\<rparr>)"

section \<open>What the neighbours' requests amount to\<close>

text \<open>The pairs of a sender and one of its actions, in the order they were delivered.\<close>

definition deliveries :: "PriorVerdict list \<Rightarrow> (string \<times> Action) list" where
  "deliveries entries = concat (map (\<lambda>v. map (Pair (pv_Inspector v)) (pv_Actions v)) entries)"

text \<open>The number of rules that take an action, and what is reported of it.\<close>

definition takers :: "Rule list \<Rightarrow> string \<times> Action \<Rightarrow> nat" where
  "takers rules = (\<lambda>(from, act).
     if act_Do act \<in> {DoSkip, DoThreshold} then length (filter (rule_matches from act) rules) else 0)"

definition change :: "Rule list \<Rightarrow> string \<times> Action \<Rightarrow> int" where
  "change rules p = (if act_Do (snd p) = DoThreshold then int (takers rules p) * act_Delta (snd p) else 0)"

definition report :: "Rule list \<Rightarrow> string \<times> Action \<Rightarrow> ActionOutcome" where
  "report rules p = (case p of (from, act) \<Rightarrow>
     \<lparr>ao_From = from, ao_Do = act_Do act, ao_Apply = Scope act, ao_Code = act_Code act,
      ao_Delta = act_Delta act, ao_Value = act_Value act, ao_Took = i64 (change rules p),
      ao_Outcome = (if takers rules p = 0 then OutcomeNoRule else OutcomeApplied)\<rparr>)"

lemma taken_by_rules:
  assumes "is_i64 (ask_Percent a)" "is_i64 (ao_Took out)"
  shows "fold (\<lambda>r p. if rule_matches from act r then take_action act p else p) rules (a, out) =
    (a\<lparr>ask_Skip := ask_Skip a \<or> act_Do act = DoSkip \<and> takers rules (from, act) > 0,
       ask_Percent := i64 (ask_Percent a + change rules (from, act))\<rparr>,
     out\<lparr>ao_Took := i64 (ao_Took out + change rules (from, act)),
         ao_Outcome := (if takers rules (from, act) = 0 then ao_Outcome out else OutcomeApplied)\<rparr>)"
  using assms
proof (induction rules arbitrary: a out)
  case Nil
  then show ?case by (auto simp: takers_def change_def i64_id)
next
  case (Cons r rules)
  then show ?case
    by (auto simp: takers_def change_def take_action_def apply_outcome_def algebra_simps)
qed

lemma deliver_eq:
  assumes "is_i64 (ask_Percent a)"
  shows "deliver rules from act a =
    a\<lparr>ask_Skip := ask_Skip a \<or> act_Do act = DoSkip \<and> takers rules (from, act) > 0,
      ask_Percent := i64 (ask_Percent a + change rules (from, act)),
      ask_Outcomes := ask_Outcomes a @ [report rules (from, act)]\<rparr>"
  using assms by (simp add: deliver_def taken_by_rules report_def is_i64_def)

lemma deliver_all:
  assumes "is_i64 (ask_Percent a)"
  shows "fold (\<lambda>(from, act). deliver rules from act) ds a =
    a\<lparr>ask_Skip := ask_Skip a \<or> (\<exists>p \<in> set ds. act_Do (snd p) = DoSkip \<and> takers rules p > 0),
      ask_Percent := i64 (ask_Percent a + sum_list (map (change rules) ds)),
      ask_Outcomes := ask_Outcomes a @ map (report rules) ds\<rparr>"
  using assms
proof (induction ds arbitrary: a)
  case Nil
  then show ?case by (simp add: i64_id)
next
  case (Cons d ds)
  obtain who act where d: "d = (who, act)" by fastforce
  show ?case using Cons by (simp add: d deliver_eq algebra_simps)
qed

lemma fold_deliveries:
  "fold (\<lambda>v a. fold (\<lambda>act a. deliver rules (pv_Inspector v) act a) (pv_Actions v) a) entries a =
   fold (\<lambda>(from, act). deliver rules from act) (deliveries entries) a"
  by (induction entries arbitrary: a) (simp_all add: deliveries_def fold_map comp_def)

lemma clamp_percent_range: "PercentMin \<le> clamp_percent p" "clamp_percent p \<le> PercentMax"
  by (simp_all add: clamp_percent_def Let_def)

lemma clamp_percent_eq: "clamp_percent p = max (- 100) (min 900 p)"
  by (simp add: clamp_percent_def Let_def max_def min_def)

lemma Evaluate_eq:
  "Evaluate entries rules =
     \<lparr>ask_Skip = (\<exists>p \<in> set (deliveries entries). act_Do (snd p) = DoSkip \<and> takers rules p > 0),
      ask_Percent = max (- 100) (min 900 (i64 (sum_list (map (change rules) (deliveries entries))))),
      ask_Outcomes = map (report rules) (deliveries entries)\<rparr>"
  by (simp add: Evaluate_def Let_def fold_deliveries deliver_all is_i64_def clamp_percent_eq)

text \<open>
  C30: what the requests delivered with a message amount to under the rules of a profile: the skip is
  granted exactly when a rule takes a skip, the percent is the sum of the deltas, once for every rule
  that takes them, in 64-bit arithmetic and clamped to -100..900, and every delivered action is
  reported once, in order, as applied exactly when a rule took it.
\<close>

theorem Evaluate_amounts_to:
  "Evaluate entries rules =
     \<lparr>ask_Skip = (\<exists>p \<in> set (deliveries entries). act_Do (snd p) = DoSkip \<and> takers rules p > 0),
      ask_Percent = max (- 100) (min 900 (i64 (sum_list (map (change rules) (deliveries entries))))),
      ask_Outcomes = map (report rules) (deliveries entries)\<rparr>"
  by (rule Evaluate_eq)

section \<open>Rules that passed validation\<close>

lemma check_verb_None: "check_verb v = None \<longleftrightarrow> v \<in> {DoThreshold, DoSkip}"
  by (simp add: check_verb_def)

lemma check_axis_None: "check_axis x = None \<longleftrightarrow> x = ApplyRequest"
  by (simp add: check_axis_def)

lemma validate_None:
  "validate r = None \<longleftrightarrow> ru_From r \<noteq> '''' \<and> ru_From r \<noteq> AnyInspector \<and> ru_Accept r \<noteq> [] \<and>
     set (ru_Accept r) \<subseteq> {DoThreshold, DoSkip} \<and> set (ru_Apply r) \<subseteq> {ApplyRequest}"
proof -
  have "first_error check_verb (ru_Accept r) = None \<longleftrightarrow> set (ru_Accept r) \<subseteq> {DoThreshold, DoSkip}"
    by (simp add: first_error_None check_verb_None subset_eq)
  moreover have "first_error check_axis (ru_Apply r) = None \<longleftrightarrow> set (ru_Apply r) \<subseteq> {ApplyRequest}"
    by (simp add: first_error_None check_axis_None subset_eq)
  ultimately show ?thesis
    by (cases "first_error check_verb (ru_Accept r)"; cases "first_error check_axis (ru_Apply r)")
      (simp_all add: validate_def)
qed

lemma validate_matches:
  assumes "validate r = None"
  shows "rule_matches from act r \<longleftrightarrow> from = ru_From r \<and> act_Do act \<in> set (ru_Accept r) \<and>
    (ru_Apply r = [] \<or> Scope act = ApplyRequest) \<and> (ru_Codes r = [] \<or> act_Code act \<in> set (ru_Codes r))"
  using assms
  by (cases "ru_Apply r")
    (auto simp: validate_None rule_matches_def Accepts_def WantsAxis_def WantsCode_def list_ex_iff)

text \<open>
  A sender no rule names cannot influence the inspection: with rules that passed validation, the
  requests of senders that are named by no rule leave the skip and the percent as if they had not
  been delivered, and the wildcard names nobody.
\<close>

theorem Evaluate_ignores_strangers:
  assumes "list_all (\<lambda>r. validate r = None) rules"
  shows "ask_Skip (Evaluate entries rules) =
           ask_Skip (Evaluate (filter (\<lambda>v. pv_Inspector v \<in> ru_From ` set rules) entries) rules) \<and>
         ask_Percent (Evaluate entries rules) =
           ask_Percent (Evaluate (filter (\<lambda>v. pv_Inspector v \<in> ru_From ` set rules) entries) rules) \<and>
         AnyInspector \<notin> ru_From ` set rules"
proof -
  let ?known = "filter (\<lambda>v. pv_Inspector v \<in> ru_From ` set rules) entries"
  have strangers: "takers rules (who, act) = 0" if "who \<notin> ru_From ` set rules" for who act
    using that by (auto simp: takers_def rule_matches_def filter_empty_conv)
  have "(\<Sum>p \<leftarrow> deliveries entries. change rules p) = (\<Sum>p \<leftarrow> deliveries ?known. change rules p)"
  proof (induction entries)
    case (Cons v entries)
    have "change rules (pv_Inspector v, act) = 0" if "pv_Inspector v \<notin> ru_From ` set rules" for act
      using strangers [OF that, of act] by (simp add: change_def)
    with Cons show ?case by (auto simp: deliveries_def comp_def)
  qed (simp add: deliveries_def)
  moreover have "(\<exists>p \<in> set (deliveries entries). act_Do (snd p) = DoSkip \<and> takers rules p > 0) \<longleftrightarrow>
      (\<exists>p \<in> set (deliveries ?known). act_Do (snd p) = DoSkip \<and> takers rules p > 0)"
    using strangers by (fastforce simp: deliveries_def)
  moreover have "AnyInspector \<notin> ru_From ` set rules"
    using assms by (auto simp: validate_None list_all_iff)
  ultimately show ?thesis by (simp add: Evaluate_eq)
qed

text \<open>The zero value of an action, and a message with requests of a named and of an unknown sender.\<close>

definition zero_action :: Action where
  "zero_action = \<lparr>act_To = '''', act_Do = '''', act_Apply = '''', act_Phase = '''', act_Code = '''',
     act_Delta = 0, act_Value = 0, act_Counter = '''', act_Marker = '''', act_Group = '''', act_Set = '''',
     act_TTL = None, act_When = [], act_Headers = None, act_Args = None, act_Body = None\<rparr>"

definition sample_rules :: "Rule list" where
  "sample_rules = [\<lparr>ru_From = ''geo'', ru_Accept = [DoThreshold], ru_Apply = [], ru_Codes = []\<rparr>]"

definition sample_entries :: "PriorVerdict list" where
  "sample_entries = map (\<lambda>(who, act). \<lparr>pv_Phase = PhaseRequest, pv_Inspector = who, pv_Verdict = VerdictAllow,
       pv_Score = 0, pv_Actions = [act]\<rparr>)
     [(''geo'', zero_action\<lparr>act_Do := DoThreshold, act_Delta := 40\<rparr>),
      (''eve'', zero_action\<lparr>act_Do := DoSkip\<rparr>), (''eve'', zero_action\<lparr>act_Do := DoThreshold, act_Delta := 7\<rparr>)]"

theorem Evaluate_ignores_strangers_witness:
  "list_all (\<lambda>r. validate r = None) sample_rules \<and>
   \<not> ask_Skip (Evaluate sample_entries sample_rules) \<and> ask_Percent (Evaluate sample_entries sample_rules) = 40"
proof -
  have ok: "list_all (\<lambda>r. validate r = None) sample_rules" by code_simp
  have "\<not> ask_Skip (Evaluate (filter (\<lambda>v. pv_Inspector v \<in> ru_From ` set sample_rules) sample_entries) sample_rules)"
    and "ask_Percent (Evaluate (filter (\<lambda>v. pv_Inspector v \<in> ru_From ` set sample_rules) sample_entries) sample_rules) = 40"
    by code_simp+
  with ok Evaluate_ignores_strangers [OF ok, of sample_entries] show ?thesis by simp
qed

end
