(* ===== verification/Outcome_Rows.thy ===== *)
theory Outcome_Rows
  imports Prior Overload Engine
begin

text \<open>
  The rows a profile fires on its own answer, \<^verbatim>\<open>internal/prior/outcome.go\<close> (\<open>Outcome\<close>, \<open>Fire\<close>,
  \<open>FireOverload\<close>, \<open>validateOutcome\<close>), and the loading of a policy file of \<^verbatim>\<open>internal/prior/prior.go\<close>
  (\<open>loadFile\<close>).  Reading the file and decoding its YAML are the arguments \<open>readFile\<close> and
  \<open>unmarshal\<close> of \<open>loadFile\<close>.
\<close>

section \<open>Outcome rows\<close>

abbreviation OnDeny :: string where "OnDeny \<equiv> ''deny''"
abbreviation OnAllow :: string where "OnAllow \<equiv> ''allow''"
abbreviation OnScore :: string where "OnScore \<equiv> ''score''"
abbreviation OnRule :: string where "OnRule \<equiv> ''rule''"
abbreviation OnOverload :: string where "OnOverload \<equiv> ''overload''"

abbreviation WriteAddr :: string where "WriteAddr \<equiv> ''addr''"
abbreviation WriteNet :: string where "WriteNet \<equiv> ''net''"
abbreviation WriteNetAll :: string where "WriteNetAll \<equiv> ''net_all''"
abbreviation WriteASN :: string where "WriteASN \<equiv> ''asn''"

definition outcomeVerbs :: "string \<Rightarrow> string list option" where
  "outcomeVerbs = map_of
     [(DoChallenge, [ApplyRequest]), (DoThreshold, [ApplyRequest]), (DoSkip, [ApplyRequest]),
      (DoMutate, [ApplyRequest]), (DoReauth, [ApplySession]),
      (DoNote, [ApplyRequest, ApplyIP, ApplyASN, ApplySession]),
      (DoActive, [ApplyRequest, ApplyConn]), (DoPassive, [ApplyRequest, ApplyConn]),
      (DoOff, [ApplyRequest, ApplyConn]), (DoVote, [ApplyRequest, ApplyConn]),
      (DoAudit, [ApplyRequest, ApplyResponse]), (DoArchive, [ApplyRequest, ApplyResponse]),
      (DoMark, [ApplyRequest]), (DoScore, [ApplyRequest])]"

definition auditVerb :: "string \<Rightarrow> bool" where
  "auditVerb do' \<longleftrightarrow> do' = DoAudit \<or> do' = DoArchive"

definition recordVerb :: "string \<Rightarrow> bool" where
  "recordVerb do' \<longleftrightarrow> auditVerb do' \<or> do' = DoMark \<or> do' = DoScore"

definition controlVerb :: "string \<Rightarrow> bool" where
  "controlVerb do' \<longleftrightarrow> do' = DoActive \<or> do' = DoPassive \<or> do' = DoOff \<or> do' = DoVote"

record Outcome =
  oc_On :: string
  oc_At :: "int option"
  oc_Below :: bool
  oc_Eq :: bool
  oc_Rules :: "string list"
  oc_Tags :: "string list"
  oc_ranges :: Ranges
  oc_To :: string
  oc_Do :: string
  oc_Apply :: string
  oc_Phase :: string
  oc_Delta :: "int option"
  oc_Value :: "int option"
  oc_Counter :: string
  oc_Group :: string
  oc_Set :: string
  oc_Headers :: "ObjectSpec option"
  oc_Args :: "ObjectSpec option"
  oc_Body :: "ObjectSpec option"
  oc_When :: "string list"
  oc_Marker :: string
  oc_List :: string
  oc_Write :: string
  oc_TTL :: string
  oc_Code :: string

definition Asks :: "Outcome \<Rightarrow> bool" where
  "Asks o' \<longleftrightarrow> oc_Do o' \<noteq> ''''"

definition Subject :: "Outcome \<Rightarrow> string" where
  "Subject o' = (if oc_Write o' = '''' then WriteAddr else oc_Write o')"

definition Axis :: "Outcome \<Rightarrow> string" where
  "Axis o' = (if oc_Apply o' \<noteq> '''' then oc_Apply o'
     else (case outcomeVerbs (oc_Do o') of
       Some axes \<Rightarrow> if length axes = 1 \<or> auditVerb (oc_Do o') then hd axes else ''''
     | None \<Rightarrow> ''''))"

datatype ttl_error = BadTTL string

definition parseTTL :: "string \<Rightarrow> ttl_error + int" where
  "parseTTL raw0 =
     (let raw = TrimSpace (ToLower raw0)
      in if raw = '''' then Inr 0
         else
          (let (mult, body) =
             (if HasSuffix raw ''s'' then (1, TrimSuffix raw ''s'')
              else if HasSuffix raw ''m'' then (60, TrimSuffix raw ''m'')
              else if HasSuffix raw ''h'' then (3600, TrimSuffix raw ''h'')
              else if HasSuffix raw ''d'' then (86400, TrimSuffix raw ''d'')
              else (1, raw))
           in case Atoi (TrimSpace body) of
                None \<Rightarrow> Inl (BadTTL body)
              | Some n \<Rightarrow> if n < 0 then Inl (BadTTL body) else Inr (i64 (n * mult))))"

text \<open>The value of \<^verbatim>\<open>n, _ := parseTTL(raw)\<close>: 0 on an error.\<close>

definition ttl_or_zero :: "string \<Rightarrow> int" where
  "ttl_or_zero raw = (case parseTTL raw of Inl _ \<Rightarrow> 0 | Inr n \<Rightarrow> n)"

definition Seconds :: "Outcome \<Rightarrow> int" where
  "Seconds o' = ttl_or_zero (oc_TTL o')"

definition Matches :: "Outcome \<Rightarrow> string \<Rightarrow> int \<Rightarrow> bool" where
  "Matches o' verdict score =
     (if oc_On o' = OnAllow then verdict = VerdictAllow
      else if oc_On o' = OnDeny then verdict = VerdictDeny \<or> verdict = VerdictRedirect
      else if oc_On o' = OnScore then
        (case oc_At o' of
           None \<Rightarrow> False
         | Some bound \<Rightarrow>
             if verdict \<noteq> VerdictScore then False
             else if oc_Eq o' then score = bound
             else if oc_Below o' then score < bound
             else score \<ge> bound)
      else False)"

section \<open>Checking the rows\<close>

datatype outcome_error =
    AtOnlyScoreOverload | BelowEqOnlyScore | OverloadAt overload_error | ScoreNeedsAt | AtNegative
  | BelowAndEq | UnknownOn string | RulesTagsOnlyRule | RuleNeedsFilter | RangeError range_error
  | BadTag string | BadCode string | DoAndList | NeitherDoNorList | BadDataset string
  | BadWrite string | TTLError ttl_error | ListNeedsTTL
  | DenyEndsPhase | UnknownOutcomeVerb string | ApplyNotTaken string string | NeedsApply string
  | DeltaRange int | ValueRange int | ThresholdNeedsDelta | NoteNeedsValue | TakesNoTo string
  | ScoreNeedsValue | ControlNeedsTo string | PhaseOnlyControl | PhaseUnknown string
  | ConnNeedsFrame | CounterOnlyNote | BadCounter string | MutateNeedsGroup | BadGroup string
  | MutateNeedsSet string | GroupOnlyMutate | Marker protocol_error | MarkerOnlyMark
  | RecordNeedsSet string string | OnlySetOn | OnlyArchive | WhenError protocol_error
  | ArgsNotResponse | SpecError protocol_error | OnlyAuditArchive | SetOnly

definition nameRe :: "string \<Rightarrow> bool" where
  "nameRe s \<longleftrightarrow> (case s of [] \<Rightarrow> False
     | c # r \<Rightarrow> is_alnum c \<and> list_all (\<lambda>c. is_alnum c \<or> c \<in> set ''._-'') r)"

definition codeRe :: "string \<Rightarrow> bool" where
  "codeRe s \<longleftrightarrow> (case s of [] \<Rightarrow> False
     | c # r \<Rightarrow> is_upper c \<and> length r \<le> 63 \<and>
         list_all (\<lambda>c. is_upper c \<or> is_digit c \<or> c = CHR ''_'') r)"

definition hasString :: "string list \<Rightarrow> string \<Rightarrow> bool" where
  "hasString list want = list_ex (\<lambda>v. v = want) list"

text \<open>\<open>check bad e\<close> is the statement \<^verbatim>\<open>if bad { return e }\<close>; \<open>checks\<close> is a sequence of them.\<close>

abbreviation (input) check :: "bool \<Rightarrow> 'e \<Rightarrow> 'e option" where
  "check bad e \<equiv> (if bad then Some e else None)"

definition checks :: "'e option list \<Rightarrow> 'e option" where
  "checks es = first_error id es"

lemma checks_None [go_error]: "checks es = None \<longleftrightarrow> (\<forall>e \<in> set es. e = None)"
  by (simp add: checks_def first_error_None)

lemma checks_simps [simp]:
  "checks [] = None" "checks (None # es) = checks es" "checks (Some e # es) = Some e"
  by (simp_all add: checks_def)

definition checkPhaseAsk :: "string \<Rightarrow> string \<Rightarrow> string \<Rightarrow> outcome_error option" where
  "checkPhaseAsk do' phase apply' =
     (if phase = '''' then None
      else if \<not> controlVerb do' then Some PhaseOnlyControl
      else if phase \<notin> {PhaseRequest, PhaseResponse, PhaseFrame} then Some (PhaseUnknown phase)
      else if apply' = ApplyConn \<and> phase \<noteq> PhaseFrame then Some ConnNeedsFrame
      else None)"

definition badTag :: "string \<Rightarrow> bool" where
  "badTag tag \<longleftrightarrow> tag = '''' \<or> length tag > TagMax \<or> TrimSpace tag \<noteq> tag \<or> list_ex is_control tag"

definition checkRuleFilter :: "Outcome \<Rightarrow> outcome_error option" where
  "checkRuleFilter o' =
     (if oc_On o' \<noteq> OnRule
        then (if oc_Rules o' \<noteq> [] \<or> oc_Tags o' \<noteq> [] then Some RulesTagsOnlyRule else None)
      else if oc_Rules o' = [] \<and> oc_Tags o' = [] then Some RuleNeedsFilter
      else (case ParseRanges (oc_Rules o') of
        Inl e \<Rightarrow> Some (RangeError e)
      | Inr _ \<Rightarrow> first_error (\<lambda>tag. check (badTag tag) (BadTag tag)) (oc_Tags o')))"

text \<open>An option holding a value that satisfies the predicate.\<close>

abbreviation (input) holds :: "('a \<Rightarrow> bool) \<Rightarrow> 'a option \<Rightarrow> bool" where
  "holds P v \<equiv> (case v of None \<Rightarrow> False | Some x \<Rightarrow> P x)"

abbreviation (input) unset :: "int option \<Rightarrow> bool" where
  "unset v \<equiv> v = None \<or> v = Some 0"

text \<open>The statements of \<open>validateOutcomeAsk\<close> after the verb was found, in the order of the code.\<close>

definition ask_checks :: "Outcome \<Rightarrow> string list \<Rightarrow> outcome_error option list" where
  "ask_checks o' axes =
     (let do' = oc_Do o'; ttl = ttl_or_zero (oc_TTL o');
          addressed = (oc_To o' \<noteq> '''' \<and> oc_To o' \<noteq> ''*'');
          objects = (oc_Headers o' \<noteq> None \<or> oc_Args o' \<noteq> None \<or> oc_Body o' \<noteq> None)
      in [check (oc_Apply o' \<noteq> '''' \<and> \<not> hasString axes (oc_Apply o')) (ApplyNotTaken do' (oc_Apply o')),
         check (oc_Apply o' = '''' \<and> length axes \<noteq> 1 \<and> \<not> auditVerb do') (NeedsApply do'),
         check (holds (\<lambda>d. d < -100 \<or> d > 900) (oc_Delta o')) (DeltaRange (the (oc_Delta o'))),
         check (holds (\<lambda>v. v < -100 \<or> v > 100) (oc_Value o')) (ValueRange (the (oc_Value o'))),
         check (do' = DoThreshold \<and> unset (oc_Delta o')) ThresholdNeedsDelta,
         check (do' = DoNote \<and> unset (oc_Value o')) NoteNeedsValue,
         check (do' = DoScore \<and> addressed) (TakesNoTo do'),
         check (do' = DoScore \<and> unset (oc_Value o')) ScoreNeedsValue,
         check (controlVerb do' \<and> \<not> addressed) (ControlNeedsTo do'),
         checkPhaseAsk do' (oc_Phase o') (Axis o'),
         check (oc_Counter o' \<noteq> '''' \<and> do' \<noteq> DoNote) CounterOnlyNote,
         check (oc_Counter o' \<noteq> '''' \<and> \<not> nameRe (oc_Counter o')) (BadCounter (oc_Counter o')),
         check (do' = DoMutate \<and> oc_Group o' = '''') MutateNeedsGroup,
         check (do' = DoMutate \<and> \<not> nameRe (oc_Group o')) (BadGroup (oc_Group o')),
         check (do' = DoMutate \<and> oc_Set o' \<noteq> ''on'' \<and> oc_Set o' \<noteq> ''off'') (MutateNeedsSet (oc_Set o')),
         check (do' \<noteq> DoMutate \<and> oc_Group o' \<noteq> '''') GroupOnlyMutate,
         check (do' = DoMark \<and> addressed) (TakesNoTo do'),
         (if do' = DoMark then map_option Marker (CheckMarker (oc_Marker o')) else None),
         check (do' \<noteq> DoMark \<and> oc_Marker o' \<noteq> '''') MarkerOnlyMark,
         (if auditVerb do' then checks
           [check addressed (TakesNoTo do'),
            check (oc_Set o' \<noteq> ''on'' \<and> oc_Set o' \<noteq> ''off'') (RecordNeedsSet do' (oc_Set o')),
            check (oc_Set o' = ''off'' \<and> (ttl \<noteq> 0 \<or> oc_When o' \<noteq> [] \<or> objects)) OnlySetOn,
            check (do' = DoAudit \<and> (ttl \<noteq> 0 \<or> oc_When o' \<noteq> [])) OnlyArchive,
            (case CheckArchiveWhen (oc_When o') of Inl e \<Rightarrow> Some (WhenError e) | Inr _ \<Rightarrow> None),
            check (oc_Apply o' = ApplyResponse \<and> oc_Args o' \<noteq> None) ArgsNotResponse,
            first_error (\<lambda>(name, spec). map_option SpecError (CheckObjectSpec name spec (do' = DoAudit)))
              [(''headers'', oc_Headers o'), (''args'', oc_Args o'), (''body'', oc_Body o')]]
          else None),
         check (\<not> auditVerb do' \<and> (oc_When o' \<noteq> [] \<or> objects)) OnlyAuditArchive,
         check (\<not> auditVerb do' \<and> do' \<noteq> DoMutate \<and> oc_Set o' \<noteq> '''') SetOnly])"

definition validateOutcomeAsk :: "Outcome \<Rightarrow> outcome_error option" where
  "validateOutcomeAsk o' =
     (if oc_On o' = OnDeny \<and> \<not> recordVerb (oc_Do o') then Some DenyEndsPhase
      else (case outcomeVerbs (oc_Do o') of
        None \<Rightarrow> Some (UnknownOutcomeVerb (oc_Do o'))
      | Some axes \<Rightarrow> checks (ask_checks o' axes)))"

definition check_on :: "Outcome \<Rightarrow> outcome_error option" where
  "check_on o' =
     (if oc_On o' \<in> {OnDeny, OnAllow, OnRule} then checks
        [check (oc_At o' \<noteq> None) AtOnlyScoreOverload,
         check (oc_Below o' \<or> oc_Eq o') BelowEqOnlyScore]
      else if oc_On o' = OnOverload then checks
        [map_option OverloadAt (Check (oc_At o')),
         check (oc_Below o' \<or> oc_Eq o') BelowEqOnlyScore]
      else if oc_On o' = OnScore then checks
        [check (oc_At o' = None) ScoreNeedsAt,
         check (holds (\<lambda>bound. bound < 0) (oc_At o')) AtNegative,
         check (oc_Below o' \<and> oc_Eq o') BelowAndEq]
      else Some (UnknownOn (oc_On o')))"

definition validateOutcome :: "Outcome \<Rightarrow> outcome_error option" where
  "validateOutcome o' =
     (case check_on o' of
        Some e \<Rightarrow> Some e
      | None \<Rightarrow>
         (case checkRuleFilter o' of
            Some e \<Rightarrow> Some e
          | None \<Rightarrow>
              if oc_Code o' \<noteq> '''' \<and> \<not> codeRe (oc_Code o') then Some (BadCode (oc_Code o'))
              else if Asks o' \<and> oc_List o' \<noteq> '''' then Some DoAndList
              else if Asks o' then validateOutcomeAsk o'
              else if oc_List o' = '''' then Some NeitherDoNorList
              else if \<not> nameRe (oc_List o') then Some (BadDataset (oc_List o'))
              else if Subject o' \<notin> {WriteAddr, WriteNet, WriteNetAll, WriteASN}
                then Some (BadWrite (oc_Write o'))
              else (case parseTTL (oc_TTL o') of
                Inl e \<Rightarrow> Some (TTLError e)
              | Inr ttl \<Rightarrow> if ttl \<le> 0 then Some ListNeedsTTL else None)))"

definition compile :: "Outcome \<Rightarrow> Outcome" where
  "compile o' = o'\<lparr>oc_ranges := (case ParseRanges (oc_Rules o') of Inl _ \<Rightarrow> [] | Inr rs \<Rightarrow> rs)\<rparr>"

section \<open>Loading a policy file\<close>

abbreviation FileName :: string where "FileName \<equiv> ''policy.yaml''"

record Policy =
  pol_Rules :: "Rule list"
  pol_Outcomes :: "Outcome list"

datatype io_error = NotExist | IOError string

datatype policy_error =
    ReadError io_error | YamlError string | RuleError nat rule_error | RowError nat outcome_error

definition index_errors :: "('a \<Rightarrow> 'e option) \<Rightarrow> 'a list \<Rightarrow> (nat \<times> 'e) option" where
  "index_errors f xs = first_error (\<lambda>(i, x). map_option (Pair i) (f x)) (enumerate 0 xs)"

definition loadFile :: "(string \<Rightarrow> io_error + bytes) \<Rightarrow> (bytes \<Rightarrow> string + Rule list \<times> Outcome list) \<Rightarrow>
    string \<Rightarrow> policy_error + Policy \<times> bool" where
  "loadFile readFile unmarshal path = (case readFile path of
     Inl NotExist \<Rightarrow> Inr (\<lparr>pol_Rules = [], pol_Outcomes = []\<rparr>, False)
   | Inl e \<Rightarrow> Inl (ReadError e)
   | Inr raw \<Rightarrow> (case unmarshal raw of
       Inl e \<Rightarrow> Inl (YamlError e)
     | Inr (rules, outcomes) \<Rightarrow> (case index_errors validate rules of
         Some (i, e) \<Rightarrow> Inl (RuleError i e)
       | None \<Rightarrow> (case index_errors validateOutcome outcomes of
           Some (i, e) \<Rightarrow> Inl (RowError i e)
         | None \<Rightarrow> Inr (\<lparr>pol_Rules = rules, pol_Outcomes = map compile outcomes\<rparr>, True)))))"

definition LoadDir :: "(string \<Rightarrow> string \<Rightarrow> string) \<Rightarrow> (string \<Rightarrow> io_error + bytes) \<Rightarrow>
    (bytes \<Rightarrow> string + Rule list \<times> Outcome list) \<Rightarrow> string \<Rightarrow> policy_error + Policy" where
  "LoadDir join readFile unmarshal dir = map_sum id fst (loadFile readFile unmarshal (join dir FileName))"

definition Load_policy :: "(string \<Rightarrow> io_error + bytes) \<Rightarrow>
    (bytes \<Rightarrow> string + Rule list \<times> Outcome list) \<Rightarrow> string \<Rightarrow> policy_error + Policy" where
  "Load_policy readFile unmarshal path = map_sum id fst (loadFile readFile unmarshal path)"

section \<open>Firing the rows\<close>

definition hit :: "Outcome \<Rightarrow> MatchedRule list \<Rightarrow> MatchedRule option" where
  "hit o' matched = find (\<lambda>r. Finding_rule r \<and> \<not> (oc_Rules o' \<noteq> [] \<and> \<not> Has (oc_ranges o') (mr_ID r))
     \<and> \<not> (oc_Tags o' \<noteq> [] \<and> \<not> Tagged r (oc_Tags o'))) matched"

definition ruleCode :: "int \<Rightarrow> string" where
  "ruleCode i = ''CRS_RULE_'' @ Itoa i"

record Ban =
  ban_Dataset :: string
  ban_Write :: string
  ban_Addr :: string
  ban_TTL :: int
  ban_Reason :: string

record Fired =
  fi_Actions :: "Action list"
  fi_Bans :: "Ban list"
  fi_Names :: "string list"

definition reasonOf :: "Outcome \<Rightarrow> string \<Rightarrow> string" where
  "reasonOf o' code = (if oc_Code o' \<noteq> '''' then oc_Code o' else code)"

definition outcomeName :: "Outcome \<Rightarrow> string" where
  "outcomeName o' = (if Asks o' then oc_Do o' else oc_List o')"

definition ask :: "Outcome \<Rightarrow> string \<Rightarrow> Action" where
  "ask o' code =
     (let kept = (oc_Do o' = DoArchive \<and> oc_Set o' = ''on''); n = ttl_or_zero (oc_TTL o')
      in \<lparr>act_To = oc_To o', act_Do = oc_Do o', act_Apply = Axis o', act_Phase = oc_Phase o',
          act_Code = reasonOf o' code,
          act_Delta = (case oc_Delta o' of Some d \<Rightarrow> d | None \<Rightarrow> 0),
          act_Value = (case oc_Value o' of Some v \<Rightarrow> v | None \<Rightarrow> 0),
          act_Counter = oc_Counter o', act_Marker = oc_Marker o', act_Group = oc_Group o',
          act_Set = oc_Set o',
          act_TTL = (if kept \<and> n > 0 then Some n else None),
          act_When = (if kept \<and> oc_When o' \<noteq> []
            then (case CheckArchiveWhen (oc_When o') of Inl _ \<Rightarrow> [] | Inr w \<Rightarrow> w) else []),
          act_Headers = oc_Headers o', act_Args = oc_Args o', act_Body = oc_Body o'\<rparr>)"

definition ban_of :: "Outcome \<Rightarrow> string \<Rightarrow> string \<Rightarrow> Ban" where
  "ban_of o' addr code =
     \<lparr>ban_Dataset = oc_List o', ban_Write = Subject o', ban_Addr = addr, ban_TTL = Seconds o',
      ban_Reason = reasonOf o' code\<rparr>"

definition fire_row :: "(Outcome \<Rightarrow> string \<times> bool) \<Rightarrow> string \<Rightarrow> Outcome \<Rightarrow> Fired \<Rightarrow> Fired" where
  "fire_row match addr o' out = (case match o' of (code, ok) \<Rightarrow>
     if \<not> ok then out
     else if Asks o' then
       out\<lparr>fi_Actions := fi_Actions out @ [ask o' code], fi_Names := fi_Names out @ [outcomeName o']\<rparr>
     else if addr = '''' then out
     else out\<lparr>fi_Bans := fi_Bans out @ [ban_of o' addr code],
              fi_Names := fi_Names out @ [outcomeName o']\<rparr>)"

definition fire :: "Outcome list \<Rightarrow> (Outcome \<Rightarrow> string \<times> bool) \<Rightarrow> string \<Rightarrow> Fired" where
  "fire outcomes match addr =
     fold (fire_row match addr) outcomes \<lparr>fi_Actions = [], fi_Bans = [], fi_Names = []\<rparr>"

definition match_verdict :: "string \<Rightarrow> int \<Rightarrow> MatchedRule list \<Rightarrow> string \<Rightarrow> Outcome \<Rightarrow> string \<times> bool" where
  "match_verdict verdict score matched code o' =
     (if oc_On o' = OnRule
        then (case hit o' matched of
                Some r \<Rightarrow> (ruleCode (mr_ID r), True)
              | None \<Rightarrow> (ruleCode 0, False))
      else (code, Matches o' verdict score))"

definition Fire :: "Outcome list \<Rightarrow> string \<Rightarrow> int \<Rightarrow> MatchedRule list \<Rightarrow> string \<Rightarrow> string \<Rightarrow> Fired" where
  "Fire outcomes verdict score matched addr code =
     fire outcomes (match_verdict verdict score matched code) addr"

definition match_overload :: "int \<Rightarrow> bool \<Rightarrow> string \<Rightarrow> Outcome \<Rightarrow> string \<times> bool" where
  "match_overload fill shed code o' = (code, oc_On o' = OnOverload \<and> Fires (At (oc_At o')) fill shed)"

definition FireOverload :: "Outcome list \<Rightarrow> int \<Rightarrow> bool \<Rightarrow> string \<Rightarrow> string \<Rightarrow> Fired" where
  "FireOverload outcomes fill shed addr code = fire outcomes (match_overload fill shed code) addr"

section \<open>What fires\<close>

lemma fire_from:
  "fold (fire_row match addr) outcomes out =
     \<lparr>fi_Actions = fi_Actions out @ map (\<lambda>o'. ask o' (fst (match o'))) (filter (\<lambda>o'. snd (match o') \<and> Asks o') outcomes),
      fi_Bans = fi_Bans out @ (if addr = '''' then []
        else map (\<lambda>o'. ban_of o' addr (fst (match o'))) (filter (\<lambda>o'. snd (match o') \<and> \<not> Asks o') outcomes)),
      fi_Names = fi_Names out @ map outcomeName (filter (\<lambda>o'. snd (match o') \<and> (Asks o' \<or> addr \<noteq> '''')) outcomes)\<rparr>"
  by (induction outcomes arbitrary: out) (simp_all add: fire_row_def split_beta)

lemma fire_eq:
  "fire outcomes match addr =
     \<lparr>fi_Actions = map (\<lambda>o'. ask o' (fst (match o'))) (filter (\<lambda>o'. snd (match o') \<and> Asks o') outcomes),
      fi_Bans = (if addr = '''' then []
        else map (\<lambda>o'. ban_of o' addr (fst (match o'))) (filter (\<lambda>o'. snd (match o') \<and> \<not> Asks o') outcomes)),
      fi_Names = map outcomeName (filter (\<lambda>o'. snd (match o') \<and> (Asks o' \<or> addr \<noteq> '''')) outcomes)\<rparr>"
  by (simp add: fire_def fire_from)

lemma validateOutcome_ask:
  assumes "validateOutcome o' = None" "Asks o'"
  shows "validateOutcomeAsk o' = None" "oc_List o' = ''''"
  using assms by (auto simp: validateOutcome_def split: option.splits if_splits)

lemma validateOutcome_list:
  assumes "validateOutcome o' = None" "\<not> Asks o'"
  shows "nameRe (oc_List o')" "Subject o' \<in> {WriteAddr, WriteNet, WriteNetAll, WriteASN}" "Seconds o' > 0"
  using assms
  by (auto simp: validateOutcome_def Seconds_def ttl_or_zero_def split: option.splits if_splits sum.splits)

lemma outcomeVerbs_nonempty: "outcomeVerbs do' = Some axes \<Longrightarrow> axes \<noteq> []"
  using map_of_SomeD unfolding outcomeVerbs_def by fastforce

lemma checks_head: "checks (e # es) = None \<Longrightarrow> e = None"
  and checks_tail: "checks (e # es) = None \<Longrightarrow> checks es = None"
  by (simp_all add: checks_None)

lemma check_None: "check bad e = None \<Longrightarrow> \<not> bad"
  by (simp split: if_splits)

text \<open>What a request row that passed validation asks for.\<close>

lemma validateOutcomeAsk_checks:
  assumes "validateOutcomeAsk o' = None"
  shows "oc_On o' = OnDeny \<longrightarrow> recordVerb (oc_Do o')"
    and "\<exists>axes. outcomeVerbs (oc_Do o') = Some axes \<and> Axis o' \<in> set axes"
    and "\<not> holds (\<lambda>d. d < -100 \<or> d > 900) (oc_Delta o')"
    and "\<not> holds (\<lambda>v. v < -100 \<or> v > 100) (oc_Value o')"
proof -
  from assms obtain axes where deny: "oc_On o' = OnDeny \<longrightarrow> recordVerb (oc_Do o')"
    and axes: "outcomeVerbs (oc_Do o') = Some axes" and c: "checks (ask_checks o' axes) = None"
    by (auto simp: validateOutcomeAsk_def split: if_splits option.splits)
  show "oc_On o' = OnDeny \<longrightarrow> recordVerb (oc_Do o')" by (rule deny)
  note c1 = c [unfolded ask_checks_def Let_def]
  note c2 = checks_tail [OF c1]
  note c3 = checks_tail [OF c2]
  note c4 = checks_tail [OF c3]
  show "\<not> holds (\<lambda>d. d < -100 \<or> d > 900) (oc_Delta o')" by (rule check_None [OF checks_head [OF c3]])
  show "\<not> holds (\<lambda>v. v < -100 \<or> v > 100) (oc_Value o')" by (rule check_None [OF checks_head [OF c4]])
  have "Axis o' \<in> set axes"
    using check_None [OF checks_head [OF c1]] check_None [OF checks_head [OF c2]] axes
      outcomeVerbs_nonempty [OF axes]
    by (auto simp: Axis_def hasString_def list_ex_iff)
  with axes show "\<exists>axes. outcomeVerbs (oc_Do o') = Some axes \<and> Axis o' \<in> set axes" by blast
qed

section \<open>Lifetimes\<close>

definition ttl_units :: "(string \<times> int) list" where
  "ttl_units = [('''', 1), (''s'', 1), (''m'', 60), (''h'', 3600), (''d'', 86400)]"

lemma parseTTL_unit:
  assumes "0 \<le> n" "is_i64 n" "(u, k) \<in> set ttl_units"
  shows "parseTTL (Itoa n @ u) = Inr (i64 (n * k))"
proof -
  have digits: "is_digit c" if "c \<in> set (Itoa n)" for c
    using that assms(1) by (auto simp: Itoa_def dest: nat_digits_digit)
  have u: "is_lower c" if "c \<in> set u" for c using assms(3) that by (auto simp: ttl_units_def is_lower_def)
  have "ToLower (Itoa n @ u) = Itoa n @ u" using digits u by (auto intro!: ToLower_plain)
  moreover have plain: "TrimSpace (Itoa n @ u) = Itoa n @ u" "TrimSpace (Itoa n) = Itoa n"
    using digits u by (auto simp: is_alnum_def intro!: TrimSpace_plain)
  ultimately have low: "TrimSpace (ToLower (Itoa n @ u)) = Itoa n @ u" by simp
  have "Itoa n \<noteq> []" using assms(1) by (simp add: Itoa_def)
  then obtain ds d where d: "Itoa n = ds @ [d]" by (metis rev_exhaust)
  have "\<not> HasSuffix (Itoa n) [c]" if "is_lower c" for c
    using digits [of d] that by (auto simp: d HasSuffix_append is_digit_def is_lower_def)
  then have none: "\<not> HasSuffix (Itoa n) ''s''" "\<not> HasSuffix (Itoa n) ''m''" "\<not> HasSuffix (Itoa n) ''h''"
    "\<not> HasSuffix (Itoa n) ''d''" by (simp_all add: is_lower_def)
  have at: "Atoi (Itoa n) = Some n" using assms(2) by (rule Atoi_Itoa)
  consider "u = ''''" "k = 1" | "u = ''s''" "k = 1" | "u = ''m''" "k = 60" | "u = ''h''" "k = 3600"
    | "u = ''d''" "k = 86400"
    using assms(3) by (auto simp: ttl_units_def)
  then show ?thesis
    by cases (use plain low none at \<open>Itoa n \<noteq> []\<close> assms(1) in \<open>simp_all add: parseTTL_def Let_def HasSuffix_append TrimSuffix_def\<close>)
qed

section \<open>Policies\<close>

lemma index_errors_None: "index_errors f xs = None \<longleftrightarrow> (\<forall>x \<in> set xs. f x = None)"
proof -
  have "index_errors f xs = None \<longleftrightarrow> (\<forall>p \<in> set (enumerate 0 xs). f (snd p) = None)"
    by (simp add: index_errors_def first_error_None split_beta)
  also have "\<dots> \<longleftrightarrow> (\<forall>x \<in> snd ` set (enumerate 0 xs). f x = None)" by simp
  also have "snd ` set (enumerate 0 xs) = set xs" by (metis list.set_map map_snd_enumerate)
  finally show ?thesis .
qed

lemma loadFile_Inr:
  assumes "loadFile readFile unmarshal path = Inr (p, found)"
  obtains "readFile path = Inl NotExist" "p = \<lparr>pol_Rules = [], pol_Outcomes = []\<rparr>" "\<not> found"
  | raw rules outcomes where "found" "readFile path = Inr raw" "unmarshal raw = Inr (rules, outcomes)"
      "\<forall>r \<in> set rules. validate r = None" "\<forall>o' \<in> set outcomes. validateOutcome o' = None"
      "p = \<lparr>pol_Rules = rules, pol_Outcomes = map compile outcomes\<rparr>"
  using assms
  by (auto simp: loadFile_def index_errors_None [symmetric]
      split: sum.splits io_error.splits prod.splits option.splits)

lemma loaded_row:
  assumes "loadFile readFile unmarshal path = Inr (p, found)" "o' \<in> set (pol_Outcomes p)"
  shows "\<exists>o1. o' = compile o1 \<and> validateOutcome o1 = None"
  using assms(1) by (rule loadFile_Inr) (use assms(2) in auto)

lemma compile_keeps [simp]:
  "oc_On (compile o') = oc_On o'" "oc_Do (compile o') = oc_Do o'" "Axis (compile o') = Axis o'"
  "oc_Delta (compile o') = oc_Delta o'" "oc_Value (compile o') = oc_Value o'"
  "oc_List (compile o') = oc_List o'" "Subject (compile o') = Subject o'" "Seconds (compile o') = Seconds o'"
  "Asks (compile o') = Asks o'"
  by (simp_all add: compile_def Axis_def Subject_def Seconds_def Asks_def split: option.split)

definition well_formed_ask :: "Action \<Rightarrow> bool" where
  "well_formed_ask a \<longleftrightarrow> (case outcomeVerbs (act_Do a) of None \<Rightarrow> False | Some axes \<Rightarrow> act_Apply a \<in> set axes) \<and>
     -100 \<le> act_Delta a \<and> act_Delta a \<le> 900 \<and> -100 \<le> act_Value a \<and> act_Value a \<le> 100"

definition well_formed_ban :: "Ban \<Rightarrow> bool" where
  "well_formed_ban b \<longleftrightarrow> nameRe (ban_Dataset b) \<and>
     ban_Write b \<in> {WriteAddr, WriteNet, WriteNetAll, WriteASN} \<and> ban_Addr b \<noteq> '''' \<and> ban_TTL b > 0"

lemma ask_well_formed:
  assumes "validateOutcome o' = None" "Asks o'"
  shows "well_formed_ask (ask (compile o') code)"
  using validateOutcomeAsk_checks [OF validateOutcome_ask(1) [OF assms]]
  by (auto simp: well_formed_ask_def ask_def Let_def split: option.splits)

lemma ban_well_formed:
  assumes "validateOutcome o' = None" "\<not> Asks o'" "addr \<noteq> ''''"
  shows "well_formed_ban (ban_of (compile o') addr code)"
  using validateOutcome_list [OF assms(1,2)] assms(3) by (simp add: well_formed_ban_def ban_of_def)

lemma loaded_fires_well_formed:
  assumes "loadFile readFile unmarshal path = Inr (p, found)"
  shows "list_all well_formed_ask (fi_Actions (fire (pol_Outcomes p) match addr)) \<and>
    list_all well_formed_ban (fi_Bans (fire (pol_Outcomes p) match addr))"
  using assms
  by (rule loadFile_Inr) (auto simp: fire_eq list_all_iff intro: ask_well_formed ban_well_formed)

text \<open>
  C32: whatever a loaded policy fires is well formed: every request carries a verb of the protocol with
  an axis that verb takes and a delta and a value in range, and every ban names a dataset by a legal
  name, a known way of writing, an address and a positive lifetime, for any answer of the inspection.
\<close>

theorem loaded_policy_fires_well_formed:
  assumes "loadFile readFile unmarshal path = Inr (p, found)"
  shows "list_all well_formed_ask (fi_Actions (Fire (pol_Outcomes p) verdict score matched addr code)) \<and>
         list_all well_formed_ban (fi_Bans (Fire (pol_Outcomes p) verdict score matched addr code)) \<and>
         list_all well_formed_ask (fi_Actions (FireOverload (pol_Outcomes p) fill shed addr code)) \<and>
         list_all well_formed_ban (fi_Bans (FireOverload (pol_Outcomes p) fill shed addr code))"
  using loaded_fires_well_formed [OF assms] by (simp add: Fire_def FireOverload_def)

text \<open>
  A refused request ends its phase, so the rows a loaded policy keeps for a refusal ask for nothing
  but records: when the answer is a deny or a redirect, every request fired by a row that looks at the
  verdict or at the score is an audit, an archive, a mark or a score.
\<close>

theorem deny_asks_only_records:
  assumes "loadFile readFile unmarshal path = Inr (p, found)"
    and "verdict = VerdictDeny \<or> verdict = VerdictRedirect"
    and "\<forall>o' \<in> set (pol_Outcomes p). oc_On o' \<noteq> OnRule"
  shows "list_all (\<lambda>a. recordVerb (act_Do a)) (fi_Actions (Fire (pol_Outcomes p) verdict score matched addr code))"
proof -
  have "recordVerb (oc_Do o')"
    if row: "o' \<in> set (pol_Outcomes p)" "Asks o'" "Matches o' verdict score" for o'
  proof -
    have "oc_On o' = OnDeny" using row(3) assms(2) by (auto simp: Matches_def split: if_splits option.splits)
    moreover obtain o1 where "o' = compile o1" "validateOutcome o1 = None"
      using loaded_row [OF assms(1) row(1)] by blast
    ultimately show ?thesis using validateOutcomeAsk_checks(1) [OF validateOutcome_ask(1), of o1] row(2) by simp
  qed
  then show ?thesis using assms(3)
    by (auto simp: Fire_def fire_eq match_verdict_def list_all_iff ask_def Let_def split: if_splits)
qed

text \<open>The zero value of a row, and a policy with rows for the verdict, the score, a rule and a list.\<close>

definition zero_outcome :: Outcome where
  "zero_outcome = \<lparr>oc_On = '''', oc_At = None, oc_Below = False, oc_Eq = False, oc_Rules = [], oc_Tags = [],
     oc_ranges = [], oc_To = '''', oc_Do = '''', oc_Apply = '''', oc_Phase = '''', oc_Delta = None,
     oc_Value = None, oc_Counter = '''', oc_Group = '''', oc_Set = '''', oc_Headers = None, oc_Args = None,
     oc_Body = None, oc_When = [], oc_Marker = '''', oc_List = '''', oc_Write = '''', oc_TTL = '''', oc_Code = ''''\<rparr>"

definition sample_rows :: "Outcome list" where
  "sample_rows =
     [zero_outcome\<lparr>oc_On := OnDeny, oc_List := ''bans'', oc_TTL := ''10m''\<rparr>,
      zero_outcome\<lparr>oc_On := OnDeny, oc_Do := DoAudit, oc_Set := ''on''\<rparr>,
      zero_outcome\<lparr>oc_On := OnScore, oc_At := Some 50, oc_Do := DoThreshold, oc_To := ''geo'', oc_Delta := Some 20\<rparr>]"

definition sample_policy :: Policy where
  "sample_policy = \<lparr>pol_Rules = sample_rules, pol_Outcomes = map compile sample_rows\<rparr>"

lemma sample_policy_loads:
  "loadFile (\<lambda>_. Inr []) (\<lambda>_. Inr (sample_rules, sample_rows)) FileName = Inr (sample_policy, True)"
  by code_simp

lemma sample_policy_denies:
  "fi_Actions (Fire (pol_Outcomes sample_policy) VerdictDeny 0 [] ''192.0.2.7'' ''CRS'') =
     [zero_action\<lparr>act_Do := DoAudit, act_Apply := ApplyRequest, act_Code := ''CRS'', act_Set := ''on''\<rparr>]"
  "fi_Bans (Fire (pol_Outcomes sample_policy) VerdictDeny 0 [] ''192.0.2.7'' ''CRS'') =
     [\<lparr>ban_Dataset = ''bans'', ban_Write = WriteAddr, ban_Addr = ''192.0.2.7'', ban_TTL = 600, ban_Reason = ''CRS''\<rparr>]"
  by code_simp+

theorem loaded_policy_fires_well_formed_witness:
  "loadFile (\<lambda>_. Inr []) (\<lambda>_. Inr (sample_rules, sample_rows)) FileName = Inr (sample_policy, True) \<and>
   list_all well_formed_ban
     [\<lparr>ban_Dataset = ''bans'', ban_Write = WriteAddr, ban_Addr = ''192.0.2.7'', ban_TTL = 600, ban_Reason = ''CRS''\<rparr>]"
  using loaded_policy_fires_well_formed [OF sample_policy_loads, of VerdictDeny 0 "[]" "''192.0.2.7''" "''CRS''"]
    sample_policy_loads sample_policy_denies by simp

theorem deny_asks_only_records_witness:
  "list_all (\<lambda>o'. oc_On o' \<noteq> OnRule) (pol_Outcomes sample_policy) \<and>
   list_all (\<lambda>a. recordVerb (act_Do a))
     (fi_Actions (Fire (pol_Outcomes sample_policy) VerdictDeny 0 [] ''192.0.2.7'' ''CRS''))"
proof -
  have rows: "\<forall>o' \<in> set (pol_Outcomes sample_policy). oc_On o' \<noteq> OnRule" by code_simp
  have "list_all (\<lambda>a. recordVerb (act_Do a))
      (fi_Actions (Fire (pol_Outcomes sample_policy) VerdictDeny 0 [] ''192.0.2.7'' ''CRS''))"
    by (rule deny_asks_only_records [OF sample_policy_loads _ rows]) simp
  then show ?thesis using rows by (simp add: list_all_iff)
qed

section \<open>Which rows fire, and what they ask for\<close>

text \<open>
  The rows in the words of the documentation: when one fires, the reason it gives, and the request or the
  ban it amounts to.
\<close>

definition names_rule :: "Outcome \<Rightarrow> MatchedRule \<Rightarrow> bool" where
  "names_rule o' r \<longleftrightarrow> mr_Message r \<noteq> '''' \<and>
     (oc_Rules o' = [] \<or> (\<exists>rs lo hi. ParseRanges (oc_Rules o') = Inr rs \<and> (lo, hi) \<in> set rs \<and> lo \<le> mr_ID r \<and> mr_ID r \<le> hi)) \<and>
     (oc_Tags o' = [] \<or> set (mr_Tags r) \<inter> set (oc_Tags o') \<noteq> {})"

definition row_fires :: "string \<Rightarrow> int \<Rightarrow> MatchedRule list \<Rightarrow> Outcome \<Rightarrow> bool" where
  "row_fires verdict score matched o' \<longleftrightarrow>
     oc_On o' = OnAllow \<and> verdict = VerdictAllow \<or>
     oc_On o' = OnDeny \<and> (verdict = VerdictDeny \<or> verdict = VerdictRedirect) \<or>
     oc_On o' = OnScore \<and> verdict = VerdictScore \<and>
       (\<exists>bound. oc_At o' = Some bound \<and>
          (oc_Eq o' \<and> score = bound \<or> \<not> oc_Eq o' \<and> oc_Below o' \<and> score < bound \<or> \<not> oc_Eq o' \<and> \<not> oc_Below o' \<and> bound \<le> score)) \<or>
     oc_On o' = OnRule \<and> (\<exists>r \<in> set matched. names_rule o' r)"

definition row_reason :: "MatchedRule list \<Rightarrow> string \<Rightarrow> Outcome \<Rightarrow> string" where
  "row_reason matched code o' =
     (if oc_Code o' \<noteq> '''' then oc_Code o'
      else if oc_On o' = OnRule then ''CRS_RULE_'' @ Itoa (mr_ID (hd (filter (names_rule o') matched)))
      else code)"

definition asks_for :: "string \<Rightarrow> Outcome \<Rightarrow> Action \<Rightarrow> bool" where
  "asks_for why o' a \<longleftrightarrow> act_To a = oc_To o' \<and> act_Do a = oc_Do o' \<and> act_Phase a = oc_Phase o' \<and> act_Code a = why \<and>
     (oc_Apply o' \<noteq> '''' \<longrightarrow> act_Apply a = oc_Apply o') \<and>
     (oc_Apply o' = '''' \<and> map_option length (outcomeVerbs (oc_Do o')) = Some 1 \<longrightarrow> outcomeVerbs (oc_Do o') = Some [act_Apply a]) \<and>
     (oc_Apply o' = '''' \<and> oc_Do o' \<in> {DoAudit, DoArchive} \<longrightarrow> act_Apply a = ApplyRequest) \<and>
     oc_Delta o' \<in> {None, Some (act_Delta a)} \<and> (oc_Delta o' = None \<longrightarrow> act_Delta a = 0) \<and>
     oc_Value o' \<in> {None, Some (act_Value a)} \<and> (oc_Value o' = None \<longrightarrow> act_Value a = 0) \<and>
     act_Counter a = oc_Counter o' \<and> act_Marker a = oc_Marker o' \<and> act_Group a = oc_Group o' \<and> act_Set a = oc_Set o' \<and>
     act_Headers a = oc_Headers o' \<and> act_Args a = oc_Args o' \<and> act_Body a = oc_Body o' \<and>
     (act_TTL a \<noteq> None \<longleftrightarrow> oc_Do o' = DoArchive \<and> oc_Set o' = ''on'' \<and> (\<exists>n > 0. parseTTL (oc_TTL o') = Inr n)) \<and>
     (\<forall>n. act_TTL a = Some n \<longrightarrow> parseTTL (oc_TTL o') = Inr n) \<and>
     (act_When a \<noteq> [] \<longrightarrow> oc_Do o' = DoArchive \<and> oc_Set o' = ''on'' \<and> CheckArchiveWhen (oc_When o') = Inr (act_When a))"

definition bans_with :: "string \<Rightarrow> string \<Rightarrow> Outcome \<Rightarrow> Ban \<Rightarrow> bool" where
  "bans_with addr why o' b \<longleftrightarrow> ban_Dataset b = oc_List o' \<and> ban_Addr b = addr \<and> ban_Reason b = why \<and>
     ban_Write b = (if oc_Write o' = '''' then WriteAddr else oc_Write o') \<and>
     0 < ban_TTL b \<and> parseTTL (oc_TTL o') = Inr (ban_TTL b)"

text \<open>A row of a loaded policy: its ranges are those its rules were written as.\<close>

lemma loaded_ranges:
  assumes "loadFile readFile unmarshal path = Inr (p, found)" "o' \<in> set (pol_Outcomes p)"
  shows "oc_On o' = OnRule \<Longrightarrow> ParseRanges (oc_Rules o') = Inr (oc_ranges o')"
    and "\<not> Asks o' \<Longrightarrow> 0 < Seconds o' \<and> parseTTL (oc_TTL o') = Inr (Seconds o')"
proof -
  obtain o1 where o1: "o' = compile o1" "validateOutcome o1 = None" using loaded_row [OF assms] by blast
  show "ParseRanges (oc_Rules o') = Inr (oc_ranges o')" if "oc_On o' = OnRule"
    using o1 that by (auto simp: compile_def validateOutcome_def checkRuleFilter_def split: option.splits if_splits sum.splits)
  show "0 < Seconds o' \<and> parseTTL (oc_TTL o') = Inr (Seconds o')" if "\<not> Asks o'"
    using validateOutcome_list(3) [OF o1(2)] that o1(1) by (auto simp: compile_def Asks_def Seconds_def ttl_or_zero_def split: sum.splits)
qed

lemma hit_first: "hit o' matched = (case filter (\<lambda>r. Finding_rule r \<and> (oc_Rules o' = [] \<or> Has (oc_ranges o') (mr_ID r)) \<and>
    (oc_Tags o' = [] \<or> Tagged r (oc_Tags o'))) matched of [] \<Rightarrow> None | r # _ \<Rightarrow> Some r)"
  by (induction matched) (auto simp: hit_def)

lemma loaded_names_rule:
  assumes "ParseRanges (oc_Rules o') = Inr (oc_ranges o')"
  shows "hit o' matched = (case filter (names_rule o') matched of [] \<Rightarrow> None | r # _ \<Rightarrow> Some r)"
proof -
  have "Has rs i \<longleftrightarrow> (\<exists>lo hi. (lo, hi) \<in> set rs \<and> lo \<le> i \<and> i \<le> hi)" for rs i by (force simp: Has_def list_ex_iff)
  then have "names_rule o' = (\<lambda>r. Finding_rule r \<and> (oc_Rules o' = [] \<or> Has (oc_ranges o') (mr_ID r)) \<and> (oc_Tags o' = [] \<or> Tagged r (oc_Tags o')))"
    using assms by (simp add: names_rule_def Finding_rule_def Tagged_iff fun_eq_iff)
  then show ?thesis by (simp add: hit_first)
qed

lemma loaded_match:
  assumes "loadFile readFile unmarshal path = Inr (p, found)" "o' \<in> set (pol_Outcomes p)"
  shows "snd (match_verdict verdict score matched code o') \<longleftrightarrow> row_fires verdict score matched o'"
    and "row_fires verdict score matched o' \<Longrightarrow> reasonOf o' (fst (match_verdict verdict score matched code o')) = row_reason matched code o'"
proof -
  note hit = loaded_names_rule [OF loaded_ranges(1) [OF assms]]
  show fires: "snd (match_verdict verdict score matched code o') \<longleftrightarrow> row_fires verdict score matched o'"
  proof (cases "oc_On o' = OnRule")
    case True
    have "(filter (names_rule o') matched = []) = (\<forall>r \<in> set matched. \<not> names_rule o' r)" by (simp add: filter_empty_conv)
    then show ?thesis using hit [OF True, of matched] True
      by (auto simp: match_verdict_def row_fires_def split: list.splits)
  next
    case False
    then show ?thesis by (auto simp: match_verdict_def row_fires_def Matches_def split: option.split)
  qed
  show "reasonOf o' (fst (match_verdict verdict score matched code o')) = row_reason matched code o'" if "row_fires verdict score matched o'"
    using that fires hit [of matched]
    by (auto simp: match_verdict_def reasonOf_def row_reason_def ruleCode_def split: option.splits list.splits)
qed

lemma ask_asks: "reasonOf o' code = why \<Longrightarrow> asks_for why o' (ask o' code)"
  by (auto simp: asks_for_def ask_def Let_def Axis_def auditVerb_def ttl_or_zero_def outcomeVerbs_def
    split: option.splits sum.splits if_splits)



text \<open>
  A lifetime written as a number of seconds, minutes, hours or days, or with no unit, is read as
  that many seconds, in 64-bit arithmetic.
\<close>

theorem parseTTL_reads_units:
  assumes "0 \<le> n" "is_i64 n" "(u, k) \<in> set ttl_units"
  shows "parseTTL (Itoa n @ u) = Inr (i64 (n * k))"
  using assms by (rule parseTTL_unit)

theorem parseTTL_reads_units_witness:
  "0 \<le> (15::int) \<and> parseTTL (Itoa 15 @ ''m'') = Inr 900"
  using parseTTL_reads_units [of 15 "''m''" 60] by (simp add: is_i64_def ttl_units_def i64_id)

text \<open>
  C37: the lifetime of a row is not guarded against overflow: a ban written for 213503982334602 days
  passes validation and is fired with a lifetime of less than a day.
\<close>

theorem parseTTL_wraps:
  "(let row = zero_outcome\<lparr>oc_On := OnDeny, oc_List := ''bans'', oc_TTL := Itoa 213503982334602 @ ''d''\<rparr>
    in validateOutcome row = None \<and> Seconds row = 61184)"
proof -
  have "i64 (213503982334602 * 86400) = 61184" by code_simp
  then have ttl: "parseTTL (Itoa 213503982334602 @ ''d'') = Inr 61184"
    using parseTTL_unit [of 213503982334602 "''d''" 86400] by (simp add: is_i64_def ttl_units_def)
  then show ?thesis
    by (simp add: validateOutcome_def check_on_def checkRuleFilter_def Asks_def Subject_def Seconds_def
        ttl_or_zero_def zero_outcome_def nameRe_def is_alnum_def char_class_defs)
qed

text \<open>
  The lifetime of a request row is never checked: an archive row whose ttl cannot be read passes
  validation and is fired without a lifetime, while a list row with the same ttl is refused.
\<close>

theorem archive_ttl_unchecked:
  "(let row = zero_outcome\<lparr>oc_On := OnAllow, oc_Do := DoArchive, oc_Set := ''on'', oc_TTL := ''soon''\<rparr>;
        ban = zero_outcome\<lparr>oc_On := OnAllow, oc_List := ''bans'', oc_TTL := ''soon''\<rparr>
    in parseTTL ''soon'' = Inl (BadTTL ''soon'') \<and> validateOutcome row = None \<and> act_TTL (ask row '''') = None \<and>
       validateOutcome ban = Some (TTLError (BadTTL ''soon'')))"
  by code_simp

end
