(* ===== verification/Audit_Log.thy ===== *)
theory Audit_Log
  imports Complex_Main Prior
begin

text \<open>
  The audit trail, \<^verbatim>\<open>internal/audit/audit.go\<close> (\<open>Event\<close>, \<open>Build\<close>) and \<^verbatim>\<open>sink.go\<close> (\<open>Sink\<close>).  An event is
  appended to the pending list under the mutex; the loop goroutine takes at most 256 items at a time
  under the same mutex and publishes them outside it, one envelope per subject.  The critical sections
  \<open>Add_item\<close> and \<open>take_batch\<close> are the atomic steps; \<open>sink_run\<close> lets them interleave.  The clock, the
  JSON encoder and the NATS connection are parameters.
\<close>

section \<open>Events\<close>

abbreviation (input) Version :: int where "Version \<equiv> 1"
abbreviation Kind :: string where "Kind \<equiv> ''inspector''"
abbreviation KindBatch :: string where "KindBatch \<equiv> ''batch''"

abbreviation SeverityInfo :: string where "SeverityInfo \<equiv> ''info''"
abbreviation SeverityLow :: string where "SeverityLow \<equiv> ''low''"
abbreviation SeverityMedium :: string where "SeverityMedium \<equiv> ''medium''"
abbreviation SeverityHigh :: string where "SeverityHigh \<equiv> ''high''"
abbreviation SeverityCritical :: string where "SeverityCritical \<equiv> ''critical''"

abbreviation TargetURI :: string where "TargetURI \<equiv> ''uri''"

record Finding =
  fg_Code :: string
  fg_Severity :: string
  fg_Target :: string
  fg_Offset :: "int option"
  fg_Length :: "int option"
  fg_Rule :: string
  fg_Confidence :: "rat option"
  fg_Evidence :: string
  fg_Message :: string
  fg_Tags :: "string list"

text \<open>The values the program stores in an event's map of engine data (a \<^verbatim>\<open>map[string]any\<close>).\<close>

datatype anyval =
    AInt int | AU64 u64 | ABool bool | AStr string | AFloat rat | AStrings "string list"
  | AActions "ActionOutcome list"

type_synonym engine_data = "string \<rightharpoonup> anyval"

record Details =
  dt_EngineMS :: rat
  dt_Findings :: "Finding list"
  dt_Engine :: engine_data

definition no_details :: Details where
  "no_details = \<lparr>dt_EngineMS = 0, dt_Findings = [], dt_Engine = Map.empty\<rparr>"

text \<open>Details with engine data only.\<close>

abbreviation (input) engine_details :: "engine_data \<Rightarrow> Details" where
  "engine_details m \<equiv> no_details\<lparr>dt_Engine := m\<rparr>"

abbreviation (input) put :: "string \<Rightarrow> anyval \<Rightarrow> Details \<Rightarrow> Details" where
  "put k v det \<equiv> det\<lparr>dt_Engine := (dt_Engine det)(k \<mapsto> v)\<rparr>"

record FrameRef =
  fr_Direction :: string
  fr_Seq :: u64

record Event =
  ev_V :: int
  ev_Kind :: string
  ev_TS :: string
  ev_Ray :: string
  ev_Node :: string
  ev_Phase :: string
  ev_Inspector :: string
  ev_Profile :: string
  ev_Verdict :: string
  ev_Score :: "int option"
  ev_EngineMS :: rat
  ev_Findings :: "Finding list"
  ev_Engine :: engine_data
  ev_Frame :: "FrameRef option"

definition event_request :: "Request \<Rightarrow> Event \<Rightarrow> Event" where
  "event_request req ev =
     ev\<lparr>ev_Ray := req_Ray req, ev_Node := req_Node req, ev_Phase := req_Phase req,
        ev_Inspector := req_Inspector req, ev_Profile := rt_Profile (req_Route req),
        ev_Frame := (case req_Stream req of
            Some st \<Rightarrow> if sm_Direction st \<noteq> '''' then Some \<lparr>fr_Direction = sm_Direction st, fr_Seq = req_Seq req\<rparr>
                      else ev_Frame ev
          | None \<Rightarrow> ev_Frame ev)\<rparr>"

definition event_reply :: "Reply \<Rightarrow> Event \<Rightarrow> Event" where
  "event_reply reply ev =
     ev\<lparr>ev_Verdict := rp_Verdict reply, ev_Score := rp_Score reply,
        ev_Inspector := (if ev_Inspector ev = '''' then rp_Inspector reply else ev_Inspector ev)\<rparr>"

definition Build :: "string \<Rightarrow> Request option \<Rightarrow> Reply option \<Rightarrow> Details \<Rightarrow> Event" where
  "Build now req reply det =
     (let ev = \<lparr>ev_V = Version, ev_Kind = Kind, ev_TS = now, ev_Ray = '''', ev_Node = '''', ev_Phase = '''',
                ev_Inspector = '''', ev_Profile = '''', ev_Verdict = '''', ev_Score = None,
                ev_EngineMS = dt_EngineMS det, ev_Findings = dt_Findings det, ev_Engine = dt_Engine det,
                ev_Frame = None\<rparr>;
          ev1 = (case req of Some r \<Rightarrow> event_request r ev | None \<Rightarrow> ev)
      in case reply of Some r \<Rightarrow> event_reply r ev1 | None \<Rightarrow> ev1)"

section \<open>The sink\<close>

abbreviation (input) maxItems :: nat where "maxItems \<equiv> 256"
abbreviation (input) maxSize :: int where "maxSize \<equiv> 512 * 1024"
abbreviation (input) maxPending :: nat where "maxPending \<equiv> 50000"

record item =
  it_subject :: string
  it_body :: bytes

record envelope =
  en_V :: int
  en_Kind :: string
  en_Items :: "bytes list"

text \<open>A sink without a connection (\<open>sk_nc\<close> false) also stands for a nil sink: both accept nothing.\<close>

record Sink =
  sk_nc :: bool
  sk_pending :: "item list"
  sk_size :: int
  sk_dropped :: u64
  sk_wake :: bool

definition NewSink :: "bool \<Rightarrow> Sink" where
  "NewSink nc = \<lparr>sk_nc = nc, sk_pending = [], sk_size = 0, sk_dropped = 0, sk_wake = False\<rparr>"

definition sizeOf :: "item list \<Rightarrow> int" where
  "sizeOf items = fold (\<lambda>it n. n + (int (length (it_body it)) + 2)) items 0"

definition kick :: "Sink \<Rightarrow> Sink" where
  "kick s = s\<lparr>sk_wake := True\<rparr>"

text \<open>The critical section of \<open>Add\<close>, and the wake-up after it.\<close>

definition append_item :: "item \<Rightarrow> Sink \<Rightarrow> Sink" where
  "append_item it s =
     s\<lparr>sk_pending := sk_pending s @ [it], sk_size := sk_size s + (int (length (it_body it)) + 2)\<rparr>"

definition drop_oldest :: "Sink \<Rightarrow> Sink" where
  "drop_oldest s =
     (if length (sk_pending s) > maxPending
      then (let cut = length (sk_pending s) - maxPending; rest = drop cut (sk_pending s)
            in s\<lparr>sk_dropped := sk_dropped s + of_nat cut, sk_pending := rest, sk_size := sizeOf rest\<rparr>)
      else s)"

definition Add_item :: "item \<Rightarrow> Sink \<Rightarrow> Sink" where
  "Add_item it s =
     (let s' = drop_oldest (append_item it s)
      in if length (sk_pending s') \<ge> maxItems \<or> sk_size s' \<ge> maxSize then kick s' else s')"

definition Add :: "(Event \<Rightarrow> string + bytes) \<Rightarrow> string \<Rightarrow> Request option \<Rightarrow> Reply option \<Rightarrow> Details \<Rightarrow>
    Sink \<Rightarrow> string option \<times> Sink" where
  "Add marshal now req reply det s =
     (case (req, reply) of
        (Some rq, Some rp) \<Rightarrow>
          if \<not> sk_nc s then (None, s)
          else (case req_AuditSubject rq of
            None \<Rightarrow> (None, s)
          | Some subject \<Rightarrow>
              if subject = '''' then (None, s)
              else (case marshal (Build now req reply det) of
                Inl err \<Rightarrow> (Some err, s)
              | Inr body \<Rightarrow> (None, Add_item \<lparr>it_subject = subject, it_body = body\<rparr> s)))
      | _ \<Rightarrow> (None, s))"

section \<open>Publishing\<close>

text \<open>The critical section of \<open>flush\<close>: nothing when the list is empty, else at most \<open>maxItems\<close> of it.\<close>

definition take_batch :: "Sink \<Rightarrow> (item list \<times> Sink) option" where
  "take_batch s =
     (if sk_pending s = [] then None
      else let n = min (length (sk_pending s)) maxItems; rest = drop n (sk_pending s)
           in Some (take n (sk_pending s), s\<lparr>sk_pending := rest, sk_size := sizeOf rest\<rparr>))"

definition groupBySubject :: "item list \<Rightarrow> string list \<times> (string \<rightharpoonup> item list)" where
  "groupBySubject items = fold (\<lambda>it (order, bySubject).
     (if bySubject (it_subject it) = None then order @ [it_subject it] else order,
      bySubject(it_subject it \<mapsto> (case bySubject (it_subject it) of None \<Rightarrow> [] | Some xs \<Rightarrow> xs) @ [it])))
     items ([], Map.empty)"

text \<open>The calls of \<open>send\<close>: a subject and the items of its envelope.\<close>

definition publish :: "item list \<Rightarrow> (string \<times> item list) list" where
  "publish items =
     (if length items = 1 then [(it_subject (hd items), items)]
      else (case groupBySubject items of (order, bySubject) \<Rightarrow>
        map (\<lambda>subject. (subject, case bySubject subject of None \<Rightarrow> [] | Some xs \<Rightarrow> xs)) order))"

definition pack :: "(envelope \<Rightarrow> string + bytes) \<Rightarrow> item list \<Rightarrow> string + bytes" where
  "pack marshal items = marshal \<lparr>en_V = Version, en_Kind = KindBatch, en_Items = map it_body items\<rparr>"

text \<open>What goes out on the connection; a failure is only logged.\<close>

definition send_items :: "(envelope \<Rightarrow> string + bytes) \<Rightarrow> string \<times> item list \<Rightarrow> (string \<times> bytes) list" where
  "send_items marshal call = (case call of (subject, items) \<Rightarrow>
     (case pack marshal items of Inl _ \<Rightarrow> [] | Inr body \<Rightarrow> [(subject, body)]))"

text \<open>\<open>flush\<close> when nothing is added meanwhile: all calls of \<open>send\<close> and the sink left behind.\<close>

function flush :: "Sink \<Rightarrow> (string \<times> item list) list \<times> Sink" where
  "flush s = (case take_batch s of None \<Rightarrow> ([], s)
     | Some (batch, s') \<Rightarrow> (let (calls, s'') = flush s' in (publish batch @ calls, s'')))"
  by pat_completeness auto
termination
  by (relation "measure (\<lambda>s. length (sk_pending s))")
    (auto simp: take_batch_def Let_def split: if_splits)

declare flush.simps [simp del]

text \<open>The loop goroutine: a tick or a wake-up flushes, the stop flushes and ends the loop.\<close>

datatype loop_event = Stop | Wake | Tick

definition loop_step :: "loop_event \<Rightarrow> Sink \<Rightarrow> (string \<times> item list) list \<times> Sink \<times> bool" where
  "loop_step e s = (case e of
     Stop \<Rightarrow> (let (calls, s') = flush s in (calls, s', True))
   | Wake \<Rightarrow> (let (calls, s') = flush (s\<lparr>sk_wake := False\<rparr>) in (calls, s', False))
   | Tick \<Rightarrow> (let (calls, s') = flush s in (calls, s', False)))"

text \<open>
  \<open>Close\<close> closes \<^verbatim>\<open>stop\<close> once and waits for the end of the loop, which \<open>Stopping\<close> leads to; it does nothing when
  it is called again, and nothing stops a caller of \<open>Add\<close> after it.
\<close>

datatype loop_state = Looping | Stopping | Ended

definition Close_sink :: "loop_state \<Rightarrow> loop_state" where
  "Close_sink l = (if l = Looping then Stopping else l)"

section \<open>The stream\<close>

text \<open>\<open>Ensure\<close> creates the stream of audit events; that it exists already is no error.\<close>

abbreviation MaxBytes :: int where "MaxBytes \<equiv> 256 * 2 ^ 20"
abbreviation MaxAge :: duration where "MaxAge \<equiv> 24 * 3600 * Second"

record StreamConfig =
  stc_Name :: string
  stc_Subjects :: "string list"
  stc_Storage :: string
  stc_Retention :: string
  stc_MaxAge :: duration
  stc_MaxBytes :: int
  stc_Discard :: string
  stc_Duplicates :: duration

definition audit_stream :: StreamConfig where
  "audit_stream = \<lparr>stc_Name = ''WAF_AUDIT'', stc_Subjects = [''waf.audit.>''], stc_Storage = ''file'', stc_Retention = ''limits'',
     stc_MaxAge = MaxAge, stc_MaxBytes = MaxBytes, stc_Discard = ''old'', stc_Duplicates = 120 * Second\<rparr>"

datatype stream_error = NilConnection | NameAlreadyInUse | StreamFailed string

text \<open>\<open>js\<close> is the JetStream context of the connection, if there is a connection, and what it answers to \<^verbatim>\<open>AddStream\<close>.\<close>

definition Ensure :: "(string + (StreamConfig \<Rightarrow> stream_error option)) option \<Rightarrow> stream_error option" where
  "Ensure nc = (case nc of
     None \<Rightarrow> Some NilConnection
   | Some (Inl e) \<Rightarrow> Some (StreamFailed e)
   | Some (Inr addStream) \<Rightarrow>
       (let err = addStream audit_stream in if err = None \<or> err = Some NameAlreadyInUse then None else err))"

lemma Ensure_ok: "Ensure nc = None \<longleftrightarrow>
    (\<exists>addStream. nc = Some (Inr addStream) \<and> addStream audit_stream \<in> {None, Some NameAlreadyInUse})"
  by (auto simp: Ensure_def Let_def split: option.splits sum.splits)

section \<open>One envelope per subject\<close>

abbreviation for_subject :: "string \<Rightarrow> item list \<Rightarrow> item list" where
  "for_subject subject \<equiv> filter (\<lambda>it. it_subject it = subject)"

lemma groupBySubject_snoc:
  "groupBySubject (items @ [it]) = (case groupBySubject items of (order, bySubject) \<Rightarrow>
     (if bySubject (it_subject it) = None then order @ [it_subject it] else order,
      bySubject(it_subject it \<mapsto> (case bySubject (it_subject it) of None \<Rightarrow> [] | Some xs \<Rightarrow> xs) @ [it])))"
  by (simp add: groupBySubject_def)

lemma groupBySubject_spec:
  "distinct (fst (groupBySubject items)) \<and> set (fst (groupBySubject items)) = it_subject ` set items \<and>
   snd (groupBySubject items) subject =
     (if for_subject subject items = [] then None else Some (for_subject subject items))"
proof (induction items arbitrary: subject rule: rev_induct)
  case Nil
  then show ?case by (simp add: groupBySubject_def)
next
  case (snoc it items)
  obtain order by_subject where g: "groupBySubject items = (order, by_subject)" by fastforce
  have IH: "distinct order" "set order = it_subject ` set items"
    "\<And>s. by_subject s = (if for_subject s items = [] then None else Some (for_subject s items))"
    using snoc by (auto simp: g)
  have "for_subject (it_subject it) items = [] \<longleftrightarrow> it_subject it \<notin> set order"
    by (auto simp: IH(2) filter_empty_conv image_iff)
  then show ?case using IH by (auto simp: groupBySubject_snoc g)
qed

lemma publish_calls:
  assumes "items \<noteq> []"
  shows "distinct (map fst (publish items))" (is ?distinct)
    and "set (map fst (publish items)) = it_subject ` set items" (is ?subjects)
    and "\<And>call. call \<in> set (publish items) \<Longrightarrow> snd call = for_subject (fst call) items" (is "PROP ?items")
proof -
  consider it where "items = [it]" | "length items \<noteq> 1"
    by (cases items rule: remdups_adj.cases) auto
  then have "?distinct \<and> ?subjects \<and> (\<forall>call \<in> set (publish items). snd call = for_subject (fst call) items)"
  proof cases
    case 1
    then show ?thesis by (simp add: publish_def)
  next
    case 2
    obtain order by_subject where g: "groupBySubject items = (order, by_subject)" by fastforce
    have spec: "distinct order" "set order = it_subject ` set items"
      "\<And>s. by_subject s = (if for_subject s items = [] then None else Some (for_subject s items))"
      using groupBySubject_spec [of items] by (auto simp: g)
    have "publish items = map (\<lambda>s. (s, for_subject s items)) order"
      using 2 by (auto simp: publish_def g spec)
    then show ?thesis using spec(1,2) by (simp add: comp_def)
  qed
  then show ?distinct ?subjects "PROP ?items" by blast+
qed

text \<open>The items sent to a subject, in the order they go out.\<close>

definition sent_to :: "string \<Rightarrow> (string \<times> item list) list \<Rightarrow> item list" where
  "sent_to subject calls = concat (map snd (filter (\<lambda>call. fst call = subject) calls))"

lemma sent_to_append [simp]: "sent_to subject (xs @ ys) = sent_to subject xs @ sent_to subject ys"
  by (simp add: sent_to_def)

lemma sent_to_publish: "items \<noteq> [] \<Longrightarrow> sent_to subject (publish items) = for_subject subject items"
proof -
  assume ne: "items \<noteq> []"
  note calls = publish_calls [OF ne]
  show ?thesis
  proof (cases "subject \<in> it_subject ` set items")
    case True
    then obtain xs where "(subject, xs) \<in> set (publish items)" using calls(2) by force
    then obtain as bs where split: "publish items = as @ (subject, xs) # bs" by (meson split_list)
    then have "subject \<notin> fst ` set as" "subject \<notin> fst ` set bs" using calls(1) by auto
    then have "filter (\<lambda>call. fst call = subject) as = []" "filter (\<lambda>call. fst call = subject) bs = []"
      by (auto simp: filter_empty_conv)
    then have "filter (\<lambda>call. fst call = subject) (publish items) = [(subject, xs)]" by (simp add: split)
    moreover have "xs = for_subject subject items" using calls(3) [of "(subject, xs)"] split by simp
    ultimately show ?thesis by (simp add: sent_to_def)
  next
    case False
    then have "filter (\<lambda>call. fst call = subject) (publish items) = []" "for_subject subject items = []"
      using calls(2) by (auto simp: filter_empty_conv)
    then show ?thesis by (simp add: sent_to_def)
  qed
qed

lemma publish_batch:
  assumes "items \<noteq> []" "call \<in> set (publish items)"
  shows "snd call \<noteq> []" "length (snd call) \<le> length items" "\<forall>it \<in> set (snd call). it_subject it = fst call"
proof -
  have "fst call \<in> it_subject ` set items" using assms publish_calls(2) [OF assms(1)] by force
  then show "snd call \<noteq> []" "length (snd call) \<le> length items" "\<forall>it \<in> set (snd call). it_subject it = fst call"
    using publish_calls(3) [OF assms] by (auto simp: filter_empty_conv)
qed

section \<open>Runs of the sink\<close>

lemma sizeOf_acc: "fold (\<lambda>it n. n + (int (length (it_body it)) + 2)) items n =
    n + (\<Sum>it \<leftarrow> items. int (length (it_body it)) + 2)"
  by (induction items arbitrary: n) simp_all

lemma sizeOf_eq: "sizeOf items = (\<Sum>it \<leftarrow> items. int (length (it_body it)) + 2)"
  by (simp add: sizeOf_def sizeOf_acc)

definition sink_ok :: "Sink \<Rightarrow> bool" where
  "sink_ok s \<longleftrightarrow> length (sk_pending s) \<le> maxPending \<and> sk_size s = sizeOf (sk_pending s)"

text \<open>The number of items an addition drops from the front.\<close>

abbreviation overflowing :: "Sink \<Rightarrow> nat" where
  "overflowing s \<equiv> Suc (length (sk_pending s)) - maxPending"

lemma Add_item_effect:
  assumes "sink_ok s"
  shows "sink_ok (Add_item it s)"
    and "sk_pending (Add_item it s) = drop (overflowing s) (sk_pending s @ [it])"
    and "sk_dropped (Add_item it s) = sk_dropped s + of_nat (overflowing s)"
  using assms
  by (auto simp: Add_item_def drop_oldest_def append_item_def kick_def sink_ok_def sizeOf_eq Let_def)

lemma take_batch_Some:
  assumes "take_batch s = Some (batch, s')"
  shows "sk_pending s = batch @ sk_pending s'" and "batch \<noteq> []" and "length batch \<le> maxItems"
    and "sink_ok s \<Longrightarrow> sink_ok s'" and "sk_dropped s' = sk_dropped s"
  using assms by (auto simp: take_batch_def Let_def sink_ok_def min_def split: if_splits)

datatype fate = Dropped | Published

text \<open>
  Runs of a sink, with everything added so far, everything that left the pending list with its fate,
  and the calls of \<open>send\<close>.  Additions come from the handlers in any order, batches from the loop.
\<close>

inductive sink_run :: "Sink \<Rightarrow> item list \<Rightarrow> (fate \<times> item) list \<Rightarrow> (string \<times> item list) list \<Rightarrow> bool" where
  start: "sink_run (NewSink True) [] [] []"
| add: "sink_run s added gone calls \<Longrightarrow>
    sink_run (Add_item it s) (added @ [it])
      (gone @ map (Pair Dropped) (take (overflowing s) (sk_pending s @ [it]))) calls"
| wake: "sink_run s added gone calls \<Longrightarrow> sink_run (s\<lparr>sk_wake := False\<rparr>) added gone calls"
| batch: "sink_run s added gone calls \<Longrightarrow> take_batch s = Some (items, s') \<Longrightarrow>
    sink_run s' added (gone @ map (Pair Published) items) (calls @ publish items)"

abbreviation published :: "(fate \<times> item) list \<Rightarrow> item list" where
  "published gone \<equiv> map snd (filter (\<lambda>g. fst g = Published) gone)"

lemma sink_run_ok: "sink_run s added gone calls \<Longrightarrow> sink_ok s"
proof (induction rule: sink_run.induct)
  case (batch s added gone calls items s')
  then show ?case using take_batch_Some(4) by blast
qed (simp_all add: Add_item_effect(1), simp_all add: sink_ok_def NewSink_def sizeOf_def)

lemma sink_run_conserves: "sink_run s added gone calls \<Longrightarrow> map snd gone @ sk_pending s = added"
proof (induction rule: sink_run.induct)
  case (add s added gone calls it)
  then show ?case using Add_item_effect(2) [OF sink_run_ok [OF add.hyps]]
    by (metis append_assoc append_take_drop_id list.map_comp map_append map_idI snd_conv comp_apply)
next
  case (batch s added gone calls items s')
  then show ?case using take_batch_Some(1) by (auto simp: comp_def)
qed (simp_all add: NewSink_def)

lemma sink_run_sent:
  "sink_run s added gone calls \<Longrightarrow> sent_to subject calls = for_subject subject (published gone)"
proof (induction rule: sink_run.induct)
  case (batch s added gone calls items s')
  then show ?case using take_batch_Some(2) [OF batch.hyps(2)]
    by (simp add: sent_to_publish filter_map comp_def)
qed (simp_all add: sent_to_def filter_map comp_def)

lemma sink_run_dropped:
  "sink_run s added gone calls \<Longrightarrow> sk_dropped s = of_nat (length (filter (\<lambda>g. fst g = Dropped) gone))"
proof (induction rule: sink_run.induct)
  case (add s added gone calls it)
  have "length (take (overflowing s) (sk_pending s @ [it])) = overflowing s" by simp
  with add show ?case using Add_item_effect(3) [OF sink_run_ok [OF add.hyps]]
    by (simp add: filter_map comp_def)
next
  case (batch s added gone calls items s')
  then show ?case using take_batch_Some(5) [OF batch.hyps(2)] by (simp add: filter_map comp_def)
qed (simp_all add: NewSink_def)

lemma sink_run_batches:
  "sink_run s added gone calls \<Longrightarrow> call \<in> set calls \<Longrightarrow>
     snd call \<noteq> [] \<and> length (snd call) \<le> maxItems \<and> (\<forall>it \<in> set (snd call). it_subject it = fst call)"
proof (induction rule: sink_run.induct)
  case (batch s added gone calls items s')
  show ?case
  proof (cases "call \<in> set calls")
    case False
    then have "call \<in> set (publish items)" using batch.prems by simp
    then show ?thesis using publish_batch [of items call] take_batch_Some(2,3) [OF batch.hyps(2)] by simp
  qed (use batch in simp)
qed simp_all

text \<open>
  C33: nothing the audit sink accepted is lost silently, duplicated or reordered: in every interleaving
  of additions and batches, what was added is what left the pending list, in order, followed by what is
  pending; the pending list never exceeds 50000 items and its recorded size is right; the drop counter
  counts the dropped items; each subject received exactly its published items in the order they were
  added, in envelopes of 1 to 256 items of that subject.
\<close>

theorem sink_conserves_events:
  assumes "sink_run s added gone calls"
  shows "map snd gone @ sk_pending s = added \<and>
         length (sk_pending s) \<le> maxPending \<and> sk_size s = sizeOf (sk_pending s) \<and>
         sk_dropped s = of_nat (length (filter (\<lambda>g. fst g = Dropped) gone)) \<and>
         sent_to subject calls = for_subject subject (published gone) \<and>
         list_all (\<lambda>(sb, items). items \<noteq> [] \<and> length items \<le> maxItems \<and>
           list_all (\<lambda>it. it_subject it = sb) items) calls"
  using sink_run_conserves [OF assms] sink_run_ok [OF assms] sink_run_dropped [OF assms]
    sink_run_sent [OF assms, of subject] sink_run_batches [OF assms]
  by (fastforce simp: sink_ok_def list_all_iff)

lemma one_item: "sk_pending (Add_item it (NewSink True)) = [it]"
  by (simp add: Add_item_effect sink_ok_def NewSink_def sizeOf_def)

theorem sink_conserves_events_witness:
  "let it = \<lparr>it_subject = ''waf.audit.a'', it_body = ''{}''\<rparr>; s = Add_item it (NewSink True)
   in sent_to ''waf.audit.a'' (publish [it]) = [it] \<and>
      sink_run (s\<lparr>sk_pending := [], sk_size := 0\<rparr>) [it] [(Published, it)] (publish [it])"
proof -
  define it where "it = \<lparr>it_subject = ''waf.audit.a'', it_body = ''{}''\<rparr>"
  define s where "s = Add_item it (NewSink True)"
  have "sink_run s [it] [] []" using sink_run.add [OF sink_run.start, of it] by (simp add: s_def NewSink_def)
  moreover have "take_batch s = Some ([it], s\<lparr>sk_pending := [], sk_size := 0\<rparr>)"
    by (simp add: s_def it_def one_item take_batch_def sizeOf_def)
  ultimately have run: "sink_run (s\<lparr>sk_pending := [], sk_size := 0\<rparr>) [it] [(Published, it)] (publish [it])"
    using sink_run.batch by fastforce
  show ?thesis
    using sink_conserves_events [OF run, of "''waf.audit.a''"] run by (simp add: Let_def s_def it_def)
qed

lemma flush_runs:
  "sink_run s added gone calls \<Longrightarrow> flush s = (final, s') \<Longrightarrow>
     sink_run s' added (gone @ map (Pair Published) (sk_pending s)) (calls @ final) \<and> sk_pending s' = []"
proof (induction s arbitrary: gone calls final s' rule: flush.induct)
  case (1 s)
  show ?case
  proof (cases "take_batch s")
    case None
    then have "sk_pending s = []" by (auto simp: take_batch_def Let_def split: if_splits)
    then show ?thesis using 1 None by (simp add: flush.simps [of s])
  next
    case (Some p)
    obtain items s1 where p: "p = (items, s1)" by fastforce
    obtain rest s2 where f: "flush s1 = (rest, s2)" by fastforce
    have "final = publish items @ rest" "s' = s2" using 1(3) Some p f by (auto simp: flush.simps [of s])
    moreover have run1: "sink_run s1 added (gone @ map (Pair Published) items) (calls @ publish items)"
      using sink_run.batch [OF 1(2)] Some p by simp
    moreover note 1(1) [OF Some p [symmetric] run1 f]
    moreover have "sk_pending s = items @ sk_pending s1" using take_batch_Some(1) Some p by blast
    ultimately show ?thesis by simp
  qed
qed

text \<open>
  Stopping the sink delivers the rest: when the loop stops, every pending item is published to its
  subject, in order, and nothing stays behind, so that every item ever added was published or dropped.
\<close>

theorem stop_publishes_pending:
  assumes "sink_run s added gone calls"
  shows "case loop_step Stop s of (final, s', stopped) \<Rightarrow> stopped \<and> sk_pending s' = [] \<and>
    sent_to subject final = for_subject subject (sk_pending s) \<and>
    sink_run s' added (gone @ map (Pair Published) (sk_pending s)) (calls @ final) \<and>
    added = map snd gone @ sk_pending s"
proof -
  obtain final s' where f: "flush s = (final, s')" by fastforce
  note run = flush_runs [OF assms f]
  have "sent_to subject (calls @ final) = for_subject subject (published gone @ sk_pending s)"
    using sink_run_sent [OF conjunct1 [OF run], of subject] by (simp add: filter_map comp_def)
  then have "sent_to subject final = for_subject subject (sk_pending s)"
    using sink_run_sent [OF assms, of subject] by simp
  then show ?thesis using run sink_run_conserves [OF assms] by (simp add: loop_step_def f)
qed

theorem stop_publishes_pending_witness:
  "let it = \<lparr>it_subject = ''waf.audit.a'', it_body = ''{}''\<rparr>; s = Add_item it (NewSink True)
   in sink_run s [it] [] [] \<and> sent_to ''waf.audit.a'' (fst (loop_step Stop s)) = [it]"
proof -
  define it where "it = \<lparr>it_subject = ''waf.audit.a'', it_body = ''{}''\<rparr>"
  define s where "s = Add_item it (NewSink True)"
  have run: "sink_run s [it] [] []" using sink_run.add [OF sink_run.start, of it] by (simp add: s_def NewSink_def)
  have "sk_pending s = [it]" by (simp add: s_def it_def one_item)
  with stop_publishes_pending [OF run, of "''waf.audit.a''"]
  have "sent_to ''waf.audit.a'' (fst (loop_step Stop s)) = [it]" by (simp add: split_beta it_def)
  with run show ?thesis by (simp add: Let_def s_def it_def)
qed

end
