(* ===== verification/Verdict.thy ===== *)
theory Verdict
  imports Audit_Log Engine Go_Float
begin

text \<open>
  From the engine's outcome to the answer, \<^verbatim>\<open>internal/verdict/verdict.go\<close> and \<^verbatim>\<open>statusmap.go\<close>: the
  classification \<open>From\<close>, the scores \<open>Calibrate\<close> and \<open>ScaleScore\<close> in float64 arithmetic, the audit
  details \<open>Detail\<close> and the table of response names.
\<close>

section \<open>Names of responses\<close>

abbreviation DefaultResponseName :: string where "DefaultResponseName \<equiv> ''blocked''"

record StatusMap =
  stm_byStatus :: "int \<rightharpoonup> string"
  stm_fallback :: string

definition BuiltinStatusMap :: StatusMap where
  "BuiltinStatusMap = \<lparr>stm_byStatus = [403 \<mapsto> ''blocked'', 406 \<mapsto> ''blocked'', 400 \<mapsto> ''malformed''],
     stm_fallback = DefaultResponseName\<rparr>"

definition Name :: "StatusMap \<Rightarrow> int \<Rightarrow> string" where
  "Name m status = (case stm_byStatus m status of Some name \<Rightarrow> name | None \<Rightarrow> stm_fallback m)"

definition Trim :: "string \<Rightarrow> string \<Rightarrow> string" where
  "Trim s cs = rev (dropWhile (\<lambda>c. c \<in> set cs) (rev (dropWhile (\<lambda>c. c \<in> set cs) s)))"

datatype status_error = NoColon nat | EmptyName nat | BadStatus nat

definition status_line :: "nat \<times> string \<Rightarrow> StatusMap \<Rightarrow> status_error + StatusMap" where
  "status_line p m = (case p of (i, raw) \<Rightarrow>
     let line = TrimSpace raw
     in if line = '''' \<or> HasPrefix line ''#'' then Inr m
        else (case Cut line '':'' of
          None \<Rightarrow> Inl (NoColon (i + 1))
        | Some (key0, value0) \<Rightarrow>
            let key = TrimSpace key0; value = Trim (TrimSpace value0) [CHR 0x22, CHR 0x27]
            in if value = '''' then Inl (EmptyName (i + 1))
               else if key = ''default'' then Inr (m\<lparr>stm_fallback := value\<rparr>)
               else (case Atoi key of
                 None \<Rightarrow> Inl (BadStatus (i + 1))
               | Some status \<Rightarrow> Inr (m\<lparr>stm_byStatus := (stm_byStatus m)(status \<mapsto> value)\<rparr>))))"

fun status_lines :: "(nat \<times> string) list \<Rightarrow> StatusMap \<Rightarrow> status_error + StatusMap" where
  "status_lines [] m = Inr m"
| "status_lines (p # ps) m = (case status_line p m of Inl e \<Rightarrow> Inl e | Inr m' \<Rightarrow> status_lines ps m')"

text \<open>A missing file gives no map (the nil pointer); the file is the result of reading the path.\<close>

datatype read_error = Missing | Unreadable string

definition LoadStatusMap :: "read_error + bytes \<Rightarrow> (string + status_error) + StatusMap option" where
  "LoadStatusMap file = (case file of
     Inl Missing \<Rightarrow> Inr None
   | Inl (Unreadable e) \<Rightarrow> Inl (Inl e)
   | Inr raw \<Rightarrow>
      (case status_lines (enumerate 0 (Split raw (CHR 0x0A))) \<lparr>stm_byStatus = Map.empty, stm_fallback = DefaultResponseName\<rparr> of
         Inl e \<Rightarrow> Inl (Inr e) | Inr m \<Rightarrow> Inr (Some m)))"

section \<open>Scores\<close>

abbreviation CodeAnomaly :: string where "CodeAnomaly \<equiv> ''CRS_ANOMALY''"
abbreviation CodeRuleMatched :: string where "CodeRuleMatched \<equiv> ''CRS_RULE''"
abbreviation CodeRedirect :: string where "CodeRedirect \<equiv> ''CRS_REDIRECT''"
abbreviation CodeScoreRange :: string where "CodeScoreRange \<equiv> ''MODSEC_SCORE_RANGE''"

abbreviation (input) DefaultCRSThreshold :: int where "DefaultCRSThreshold \<equiv> 5"

definition ScaleScore :: "int \<Rightarrow> int \<Rightarrow> int" where
  "ScaleScore score percent =
     (if percent = 0 \<or> score \<le> 0 then max score 0
      else (let scaled = int_of_f64 (math_Round
                  (f64 (f64 (of_int score) * f64 (1 + f64 (f64 (of_int percent) / 100)))));
                scaled' = (if scaled < 0 then 0 else scaled)
            in min scaled' 100))"

definition Calibrate :: "int \<Rightarrow> int \<Rightarrow> int" where
  "Calibrate anomaly threshold0 =
     (if anomaly \<le> 0 then 0
      else (let threshold = (if threshold0 \<le> 0 then DefaultCRSThreshold else threshold0);
                score = int_of_f64 (math_Round
                  (f64 (f64 (f64 (100 * f64 (of_int anomaly)) / f64 (of_int threshold)) / 2)))
            in min score 100))"

section \<open>The answer\<close>

record Decisive =
  dc_Ranges :: Ranges
  dc_Tags :: "string list"

definition Decisive_match :: "Decisive \<Rightarrow> MatchedRule \<Rightarrow> bool" where
  "Decisive_match d r = (if Has (dc_Ranges d) (mr_ID r) then True
     else list_ex (\<lambda>tag. tag \<in> set (dc_Tags d)) (mr_Tags r))"

definition Decisive_empty :: "Decisive \<Rightarrow> bool" where
  "Decisive_empty d \<longleftrightarrow> dc_Ranges d = [] \<and> dc_Tags d = []"

record Options =
  op_StatusMap :: "StatusMap option"
  op_Decisive :: Decisive
  op_ScalePercent :: int

definition statusName :: "Options \<Rightarrow> int \<Rightarrow> string" where
  "statusName o' status = Name (case op_StatusMap o' of None \<Rightarrow> BuiltinStatusMap | Some m \<Rightarrow> m) status"

definition decisive :: "MatchedRule list \<Rightarrow> Decisive \<Rightarrow> MatchedRule option" where
  "decisive matched d = (if Decisive_empty d then None else find (Decisive_match d) matched)"

definition fromIntervention :: "Reply \<Rightarrow> Intervention \<Rightarrow> Options \<Rightarrow> Reply" where
  "fromIntervention reply iv opt =
     (if iv_Action iv = ''redirect'' then
        (if iv_URL iv = '''' then reply
         else reply\<lparr>rp_Verdict := VerdictRedirect, rp_Redirect := Some \<lparr>rd_URL = iv_URL iv, rd_Status = 0\<rparr>,
                    rp_Reason := reason CodeRedirect\<rparr>)
      else if iv_Action iv \<in> {''deny'', ''block'', ''drop''} then
        reply\<lparr>rp_Verdict := VerdictDeny, rp_Response := Some \<lparr>rr_Name = statusName opt (iv_Status iv)\<rparr>,
              rp_Reason := reason CodeRuleMatched\<rparr>
      else reply)"

definition disruptive :: "EngineOutcome \<Rightarrow> Intervention option" where
  "disruptive out = (case eo_Intervention out of
     Some iv \<Rightarrow> if iv_Disruptive iv then Some iv else None | None \<Rightarrow> None)"

definition From :: "Request \<Rightarrow> EngineOutcome \<Rightarrow> Options \<Rightarrow> Reply" where
  "From req out opt =
     (let reply = NewReply req VerdictAllow
      in case disruptive out of
        Some iv \<Rightarrow> fromIntervention reply iv opt
      | None \<Rightarrow>
          if decisive (eo_Matched out) (op_Decisive opt) \<noteq> None then
            reply\<lparr>rp_Verdict := VerdictDeny, rp_Reason := reason CodeRuleMatched,
                  rp_Response := Some \<lparr>rr_Name = statusName opt 0\<rparr>\<rparr>
          else if eo_AnomalyScore out > 0 then
            (let score = ScaleScore (Calibrate (eo_AnomalyScore out) (eo_Threshold out)) (op_ScalePercent opt)
             in case WithScore reply score of
                  Inl _ \<Rightarrow> reply\<lparr>rp_Verdict := VerdictAllow, rp_Reason := reason CodeScoreRange\<rparr>
                | Inr reply' \<Rightarrow> reply'\<lparr>rp_Reason := reason CodeAnomaly\<rparr>)
          else reply)"

definition Deny :: "Request \<Rightarrow> string \<Rightarrow> Options \<Rightarrow> Reply" where
  "Deny req code opt = (NewReply req VerdictDeny)
     \<lparr>rp_Reason := reason code, rp_Response := Some \<lparr>rr_Name = statusName opt 0\<rparr>\<rparr>"

section \<open>The audit details\<close>

abbreviation (input) evidenceMax :: nat where "evidenceMax \<equiv> 256"
abbreviation (input) tagsMax :: nat where "tagsMax \<equiv> 32"

definition ruleID :: "int \<Rightarrow> string" where
  "ruleID i = (if i = 0 then '''' else Itoa i)"

definition RuneStart :: "char \<Rightarrow> bool" where
  "RuneStart c \<longleftrightarrow> \<not> (128 \<le> (of_char c :: nat) \<and> (of_char c :: nat) < 192)"

fun rune_cut :: "string \<Rightarrow> nat \<Rightarrow> nat" where
  "rune_cut s 0 = 0"
| "rune_cut s (Suc k) = (if \<not> RuneStart (s ! Suc k) then rune_cut s k else Suc k)"

definition clip :: "string \<Rightarrow> nat \<Rightarrow> string" where
  "clip s limit = (if length s \<le> limit then s else take (rune_cut s limit) s)"

fun tags_from :: "string list \<Rightarrow> string list \<Rightarrow> string list" where
  "tags_from out [] = out"
| "tags_from out (tag # rest) =
     (if length out = tagsMax then out
      else tags_from (if tag \<noteq> '''' then out @ [clip tag TagMax] else out) rest)"

definition tags :: "string list \<Rightarrow> string list" where
  "tags src = tags_from [] src"

definition severity :: "string \<Rightarrow> string" where
  "severity s =
     (if s \<in> {''emergency'', ''alert''} then SeverityCritical
      else if s = ''critical'' then SeverityHigh
      else if s \<in> {''error'', ''warning''} then SeverityMedium
      else if s = ''notice'' then SeverityLow
      else SeverityInfo)"

definition finding :: "MatchedRule \<Rightarrow> Finding" where
  "finding r = \<lparr>fg_Code = ''crs-'' @ ruleID (mr_ID r), fg_Severity = severity (mr_Severity r),
     fg_Target = (if mr_Target r = '''' then TargetURI else mr_Target r), fg_Offset = None, fg_Length = None,
     fg_Rule = ruleID (mr_ID r), fg_Confidence = None, fg_Evidence = clip (mr_Data r) evidenceMax,
     fg_Message = clip (mr_Message r) evidenceMax, fg_Tags = tags (mr_Tags r)\<rparr>"

definition Detail :: "EngineOutcome \<Rightarrow> Details" where
  "Detail out =
     (let engineData = [''crs_anomaly_score'' \<mapsto> AInt (eo_AnomalyScore out), ''crs_threshold'' \<mapsto> AInt (eo_Threshold out)];
          engineData' = (if eo_Threshold out > 0 \<and> eo_AnomalyScore out \<ge> eo_Threshold out
            then engineData(''crs_would_block'' \<mapsto> ABool True) else engineData)
      in \<lparr>dt_EngineMS = eo_EngineMS out, dt_Findings = map finding (filter Finding_rule (eo_Matched out)),
          dt_Engine = engineData'\<rparr>)"

section \<open>The scores are exact\<close>

lemma half_round_half_up:
  fixes y :: rat
  assumes "of_int (2 * k - 1) \<le> y" "y < of_int (2 * k + 1)" "0 \<le> y"
  shows "math_Round (y / 2) = k"
  using assms by (intro math_Round_eq) auto

text \<open>Dividing two integers in float64 does not reach the next integer from below.\<close>

lemma quotient_below_int:
  fixes n t c :: int
  assumes "0 \<le> n" "n < 2 ^ 53" "0 < t" "n < c * t"
  shows "f64 (of_int n / of_int t) < of_int c"
proof -
  let ?x = "of_int n / of_int t :: rat"
  have t: "(0 :: rat) < of_int t" using assms(3) by simp
  have "n \<le> c * t - 1" using assms(4) by simp
  then have "(of_int n :: rat) \<le> of_int (c * t - 1)" by (rule of_int_le_iff [THEN iffD2])
  then have "?x \<le> of_int c - 1 / of_int t" using t by (simp add: field_simps)
  moreover have "(of_int n :: rat) < of_int (2 ^ 53)" using assms(2) by (rule of_int_less_iff [THEN iffD2])
  then have "?x / 2 ^ 53 < 1 / of_int t" using t by (simp add: field_simps)
  moreover have "f64 ?x \<le> ?x + ?x / 2 ^ 53"
  proof -
    have "0 \<le> ?x" using assms(1) t by simp
    then have "\<bar>f64 ?x - ?x\<bar> \<le> ?x / 2 ^ 53" using f64_error [of ?x] by (simp only: abs_of_nonneg)
    then show ?thesis by linarith
  qed
  ultimately show ?thesis by linarith
qed

lemma quotient_rounds:
  fixes n t :: int
  assumes "0 \<le> n" "n < 2 ^ 53" "0 < t" "t \<le> 2 ^ 53"
  shows "math_Round (f64 (f64 (of_int n / of_int t) / 2)) = (n + t) div (2 * t)"
proof -
  define k where "k = (n + t) div (2 * t)"
  define x where "x = (of_int n / of_int t :: rat)"
  have t: "(0 :: rat) < of_int t" using assms(3) by simp
  have "0 \<le> (n + t) mod (2 * t)" "(n + t) mod (2 * t) < 2 * t" "2 * t * k + (n + t) mod (2 * t) = n + t"
    using assms(3) unfolding k_def by (simp_all only: mult_div_mod_eq, simp_all)
  then have k: "2 * t * k \<le> n + t" "n + t < 2 * t * (k + 1)" by (simp_all add: algebra_simps)
  have "(2 * k - 1) * t \<le> n" "n < (2 * k + 1) * t" using k by (simp_all add: algebra_simps)
  then have le: "of_int (2 * k - 1) \<le> x"
    unfolding x_def using t by (simp only: pos_le_divide_eq of_int_mult [symmetric] of_int_le_iff)
  have "x \<le> of_int n" unfolding x_def using assms t by (simp add: field_simps mult_le_cancel_left1)
  moreover have "(of_int n :: rat) < of_int (2 ^ 53)" using assms(2) by (rule of_int_less_iff [THEN iffD2])
  moreover have "0 \<le> x" unfolding x_def using assms(1) t by simp
  ultimately have range: "\<bar>x\<bar> < 2 ^ 53" by simp
  have "of_int (2 * k - 1) \<le> f64 x" using f64_ge_int [OF range le] .
  moreover have "f64 x < of_int (2 * k + 1)"
    unfolding x_def using assms \<open>n < (2 * k + 1) * t\<close> by (intro quotient_below_int) auto
  moreover have "0 \<le> f64 x" using f64_ge_int [OF range, of 0] \<open>0 \<le> x\<close> by simp
  ultimately show ?thesis unfolding f64_half x_def [symmetric] k_def [symmetric]
    by (intro half_round_half_up)
qed

lemma Calibrate_rounds:
  assumes "0 < a" "100 * a < 2 ^ 53" "t \<le> 2 ^ 53"
  shows "Calibrate a t = min 100 ((100 * a + (if t \<le> 0 then 5 else t)) div (2 * (if t \<le> 0 then 5 else t)))"
proof -
  define t' where "t' = (if t \<le> 0 then 5 else t)"
  have t': "0 < t'" "t' \<le> 2 ^ 53" using assms(3) by (auto simp: t'_def)
  have fa: "f64 (of_int a) = of_int a" using assms by (intro f64_int) auto
  have "f64 (100 * of_int a) = of_int (100 * a)" using f64_int [of "100 * a"] assms by simp
  moreover have "f64 (of_int t') = of_int t'" using t' by (intro f64_int) auto
  moreover have q: "math_Round (f64 (f64 (of_int (100 * a) / of_int t') / 2)) = (100 * a + t') div (2 * t')"
    using assms t' by (intro quotient_rounds) auto
  moreover have "is_i64 ((100 * a + t') div (2 * t'))"
  proof -
    have "0 \<le> (100 * a + t') div (2 * t')" using assms t' by (simp add: pos_imp_zdiv_nonneg_iff)
    moreover have "(100 * a + t') div (2 * t') \<le> 100 * a + t'" using int_div_less_self [of "100 * a + t'" "2 * t'"] assms t' by linarith
    ultimately show ?thesis using assms t' by (simp add: is_i64_def)
  qed
  ultimately show ?thesis using assms(1)
    unfolding Calibrate_def Let_def t'_def [symmetric] fa by (simp add: int_of_f64_id min.commute)
qed

text \<open>The float64 product of a score and its factor lies within 1/200 of the exact one.\<close>

lemma f64_within: "\<bar>x\<bar> \<le> b \<Longrightarrow> \<bar>f64 x - x\<bar> \<le> b / 2 ^ 53"
  using f64_error [of x] by (simp add: order_trans divide_right_mono)

lemma scaled_close:
  assumes "0 \<le> s" "s \<le> 100" "-100 \<le> p" "p \<le> 900"
  shows "\<bar>f64 (of_int s * f64 (1 + f64 (of_int p / 100))) - of_int (s * (100 + p)) / 100\<bar> < 1 / 200"
    and "0 \<le> f64 (of_int s * f64 (1 + f64 (of_int p / 100)))"
proof -
  define q where "q = f64 (of_int p / 100)"
  define r where "r = f64 (1 + q)"
  define v where "v = f64 (of_int s * r)"
  have sr: "0 \<le> (of_int s :: rat)" "(of_int s :: rat) \<le> 100" "- 100 \<le> (of_int p :: rat)" "(of_int p :: rat) \<le> 900"
    using assms by simp_all
  have q: "\<bar>q - of_int p / 100\<bar> \<le> 9 / 2 ^ 53" unfolding q_def using sr by (intro f64_within) (simp add: abs_le_iff)
  have "of_int (- 1) \<le> q" unfolding q_def using sr by (intro f64_ge_int) (simp_all add: abs_less_iff)
  then have q0: "0 \<le> 1 + q" by simp
  have "\<bar>q - of_int p / 100\<bar> \<le> 1" using q by (rule order_trans) simp
  with q0 sr(4) have q1: "\<bar>1 + q\<bar> \<le> 11" by linarith
  have r: "\<bar>r - (1 + q)\<bar> \<le> 11 / 2 ^ 53" unfolding r_def using q1 by (rule f64_within)
  have r0: "0 \<le> r" using f64_ge_int [of "1 + q" 0] q0 q1 unfolding r_def by simp
  have "\<bar>r - (1 + of_int p / 100)\<bar> \<le> 20 / 2 ^ 53" using q r by linarith
  then have "of_int s * \<bar>r - (1 + of_int p / 100)\<bar> \<le> 100 * (20 / 2 ^ 53)"
    using sr by (intro mult_mono) auto
  moreover have "of_int s * \<bar>r - (1 + of_int p / 100)\<bar> = \<bar>of_int s * (r - (1 + of_int p / 100))\<bar>"
    using sr(1) by (simp only: abs_mult abs_of_nonneg)
  moreover have "of_int s * (r - (1 + of_int p / 100)) = of_int s * r - of_int (s * (100 + p)) / 100"
    by (simp add: field_simps)
  ultimately have e1: "\<bar>of_int s * r - of_int (s * (100 + p)) / 100\<bar> \<le> 2000 / 2 ^ 53" by simp
  have "\<bar>r - (1 + q)\<bar> \<le> 1" using r by (rule order_trans) simp
  with q1 have "r \<le> 12" by linarith
  then have "of_int s * r \<le> 100 * 12" using sr r0 by (intro mult_mono) auto
  moreover have sr0: "0 \<le> of_int s * r" using sr r0 by simp
  ultimately have b: "\<bar>of_int s * r\<bar> \<le> 1200" by simp
  then have "\<bar>v - of_int s * r\<bar> \<le> 1200 / 2 ^ 53" unfolding v_def by (rule f64_within)
  with e1 have "\<bar>v - of_int (s * (100 + p)) / 100\<bar> \<le> 3200 / 2 ^ 53" by linarith
  also have "\<dots> < (1 / 200 :: rat)" by simp
  finally show "\<bar>f64 (of_int s * f64 (1 + f64 (of_int p / 100))) - of_int (s * (100 + p)) / 100\<bar> < 1 / 200"
    unfolding v_def r_def q_def .
  show "0 \<le> f64 (of_int s * f64 (1 + f64 (of_int p / 100)))"
    using f64_ge_int [of "of_int s * r" 0] sr0 b unfolding r_def q_def by simp
qed

lemma ScaleScore_close:
  assumes "0 \<le> s" "s \<le> 100" "-100 \<le> p" "p \<le> 900"
  defines "n \<equiv> s * (100 + p)"
  shows "ScaleScore s p = min 100 ((n + 50) div 100) \<or>
    n mod 100 = 50 \<and> ScaleScore s p = min 100 ((n + 50) div 100 - 1)"
proof (cases "p = 0 \<or> s = 0")
  case True
  then show ?thesis using assms by (auto simp: ScaleScore_def)
next
  case False
  define v where "v = f64 (of_int s * f64 (1 + f64 (of_int p / 100)))"
  define k where "k = (n + 50) div 100"
  have close: "\<bar>v - of_int n / 100\<bar> < 1 / 200" and v0: "0 \<le> v"
    using scaled_close [OF assms(1-4)] by (simp_all only: v_def n_def)
  have n: "0 \<le> n" "n \<le> 100000" using assms(1-4) mult_mono [of s 100 "100 + p" 1000] by (simp_all add: n_def)
  have k: "100 * k \<le> n + 50" "n + 50 < 100 * k + 100" "0 \<le> k" "k \<le> 1000" using n unfolding k_def by linarith+
  then have "(of_int n :: rat) \<le> of_int (100 * k + 49)" by (subst of_int_le_iff) simp
  then have "of_int n / 100 \<le> (of_int k + 49 / 100 :: rat)" by simp
  with close have hi: "v < of_int k + 1 / 2" by linarith
  have float: "ScaleScore s p = min 100 (max 0 (int_of_f64 (math_Round v)))"
    using False assms f64_int [of s] f64_int [of p]
    unfolding ScaleScore_def v_def by (simp add: Let_def max_def min.commute)
  show ?thesis
  proof (cases "of_int k - 1 / 2 \<le> v")
    case True
    then have "math_Round v = k" using hi v0 by (intro math_Round_eq)
    then show ?thesis using float k by (simp add: k_def [symmetric] int_of_f64_id is_i64_def)
  next
    case low: False
    have "\<not> 100 * k - 49 \<le> n"
    proof
      assume "100 * k - 49 \<le> n"
      then have "of_int (100 * k - 49) \<le> (of_int n :: rat)" by (subst of_int_le_iff)
      then have "of_int k - 49 / 100 \<le> (of_int n / 100 :: rat)" by simp
      with close low show False by linarith
    qed
    then have tie: "n = 100 * k - 50" using k by simp
    then have "(of_int n :: rat) / 100 = of_int k - 1 / 2" by simp
    with close low have "of_int (k - 1) - 1 / 2 \<le> v" "v < of_int (k - 1) + 1 / 2" by simp_all
    then have "math_Round v = k - 1" using v0 by (rule math_Round_eq)
    moreover have "n = 50 + 100 * (k - 1)" using tie by simp
    then have "n mod 100 = 50" by (simp only: mod_mult_self2) simp
    moreover have "1 \<le> k" using tie n by simp
    ultimately show ?thesis using float k by (simp add: k_def [symmetric] int_of_f64_id is_i64_def)
  qed
qed

lemma ScaleScore_bounds:
  assumes "0 \<le> s" "s \<le> 100" "-100 \<le> p" "p \<le> 900"
  shows "0 \<le> ScaleScore s p \<and> ScaleScore s p \<le> 100"
  using assms by (auto simp: ScaleScore_def Let_def)

lemma ScaleScore_direction:
  assumes "0 \<le> s" "s \<le> 100" "-100 \<le> p" "p \<le> 900"
  shows "p \<le> 0 \<Longrightarrow> ScaleScore s p \<le> s" and "0 \<le> p \<Longrightarrow> s \<le> ScaleScore s p"
proof -
  define n where "n = s * (100 + p)"
  note close = ScaleScore_close [OF assms, folded n_def]
  show "ScaleScore s p \<le> s" if "p \<le> 0"
  proof -
    have "n \<le> s * 100" unfolding n_def using assms that by (intro mult_left_mono) auto
    then have "(n + 50) div 100 \<le> s" by linarith
    then show ?thesis using close by auto
  qed
  show "s \<le> ScaleScore s p" if "0 \<le> p"
  proof -
    have "s * 100 \<le> n" unfolding n_def using assms that by (intro mult_left_mono) auto
    moreover have "(n + 50) div 100 - 1 = n div 100" if "n mod 100 = 50"
      using that mult_div_mod_eq [of 100 n] by linarith
    ultimately have "s \<le> (n + 50) div 100 \<and> (n mod 100 = 50 \<longrightarrow> s \<le> (n + 50) div 100 - 1)" by auto
    then show ?thesis using close assms(2) by auto
  qed
qed

lemma Calibrate_bounds:
  assumes "100 * a < 2 ^ 53" "t \<le> 2 ^ 53"
  shows "0 \<le> Calibrate a t \<and> Calibrate a t \<le> 100"
proof (cases "0 < a")
  case True
  define t' where "t' = (if t \<le> 0 then 5 else t)"
  have "0 \<le> (100 * a + t') div (2 * t')" using True by (simp add: t'_def pos_imp_zdiv_nonneg_iff)
  then show ?thesis using Calibrate_rounds [OF True assms] by (simp add: t'_def)
qed (simp add: Calibrate_def)

text \<open>
  C29: the calibrated score of an anomaly is half the percentage it makes of the threshold, rounded half
  up and capped at 100; a threshold that is not positive counts as 5.  The float64 computation gives the
  exact integer quotient, for every score whose hundredfold a float64 represents.
\<close>

theorem Calibrate_exact:
  assumes "0 < anomaly" "100 * anomaly < 2 ^ 53" "threshold \<le> 2 ^ 53"
  shows "Calibrate anomaly threshold =
    (let t = (if threshold \<le> 0 then DefaultCRSThreshold else threshold)
     in min 100 ((100 * anomaly + t) div (2 * t)))"
  using Calibrate_rounds [OF assms] by (simp add: Let_def)

theorem Calibrate_exact_witness: "(0::int) < 3 \<and> (7::int) \<le> 2 ^ 53 \<and> Calibrate 3 7 = 21"
  using Calibrate_exact [of 3 7] by simp

text \<open>
  C28: scaling a score of 0..100 by -100..900 percent gives the exact product rounded to the nearest
  integer and capped at 100, where only an exact half may go either way; the result stays in 0..100, a
  negative percent never raises the score and a positive one never lowers it.
\<close>

theorem ScaleScore_nearest:
  assumes "0 \<le> score" "score \<le> 100" "-100 \<le> percent" "percent \<le> 900"
  shows "(let n = score * (100 + percent); up = (n + 50) div 100; r = ScaleScore score percent in
    (r = min 100 up \<or> n mod 100 = 50 \<and> r = min 100 (up - 1)) \<and>
    0 \<le> r \<and> r \<le> 100 \<and> (percent \<le> 0 \<longrightarrow> r \<le> score) \<and> (0 \<le> percent \<longrightarrow> score \<le> r))"
  using ScaleScore_close [OF assms] ScaleScore_bounds [OF assms] ScaleScore_direction [OF assms]
  by (simp add: Let_def)

theorem ScaleScore_nearest_witness: "(0::int) \<le> 40 \<and> (-100::int) \<le> -33 \<and> ScaleScore 40 (-33) = 27"
  using ScaleScore_nearest [of 40 "-33"] by (simp add: Let_def)

section \<open>Classification\<close>

lemma decisive_None: "decisive matched d = None \<longleftrightarrow> (\<forall>r \<in> set matched. \<not> Decisive_match d r)"
  by (auto simp: decisive_def Decisive_empty_def Decisive_match_def Has_def find_None_iff list_ex_iff)

lemma From_score:
  assumes "100 * eo_AnomalyScore out < 2 ^ 53" "eo_Threshold out \<le> 2 ^ 53"
    and "-100 \<le> op_ScalePercent opt" "op_ScalePercent opt \<le> 900"
  shows "0 \<le> ScaleScore (Calibrate (eo_AnomalyScore out) (eo_Threshold out)) (op_ScalePercent opt) \<and>
    ScaleScore (Calibrate (eo_AnomalyScore out) (eo_Threshold out)) (op_ScalePercent opt) \<le> 100"
  using Calibrate_bounds [OF assms(1,2)] assms(3,4) by (intro ScaleScore_bounds) auto

text \<open>
  C27: the answer to an inspected message is a deny, a redirect, a score or an allow, by these rules: a
  disruptive intervention decides alone (and one the program has no answer for allows); else a decisive
  rule denies; else an anomaly gives its calibrated and scaled score, which always is in 0..100, so that
  the range error of the reply never occurs; else the answer is an allow without a reason.
\<close>

theorem From_classifies:
  assumes "100 * eo_AnomalyScore out < 2 ^ 53" "eo_Threshold out \<le> 2 ^ 53"
    and "-100 \<le> op_ScalePercent opt" "op_ScalePercent opt \<le> 900"
  shows "(let reply = From req out opt;
              score = ScaleScore (Calibrate (eo_AnomalyScore out) (eo_Threshold out)) (op_ScalePercent opt);
              code = map_option rsn_Code (rp_Reason reply)
     in rp_RID reply = req_RID req \<and> rp_Inspector reply = req_Inspector req \<and>
       (case disruptive out of
          Some iv \<Rightarrow> rp_Score reply = None \<and>
            (rp_Verdict reply, code) =
              (if iv_Action iv = ''redirect'' \<and> iv_URL iv \<noteq> '''' then (VerdictRedirect, Some CodeRedirect)
               else if iv_Action iv \<in> {''deny'', ''block'', ''drop''} then (VerdictDeny, Some CodeRuleMatched)
               else (VerdictAllow, None))
        | None \<Rightarrow> 0 \<le> score \<and> score \<le> 100 \<and>
            (rp_Verdict reply, rp_Score reply, code) =
              (if (\<exists>r \<in> set (eo_Matched out). Decisive_match (op_Decisive opt) r)
               then (VerdictDeny, None, Some CodeRuleMatched)
               else if eo_AnomalyScore out > 0 then (VerdictScore, Some score, Some CodeAnomaly)
               else (VerdictAllow, None, None))))"
  using From_score [OF assms] decisive_None [of "eo_Matched out" "op_Decisive opt"]
  by (cases "disruptive out")
    (auto simp: From_def fromIntervention_def Let_def WithScore_def NewReply_def)

definition sample_outcome :: EngineOutcome where
  "sample_outcome = \<lparr>eo_Intervention = None, eo_Matched = [], eo_AnomalyScore = 3, eo_Threshold = 5, eo_EngineMS = 0\<rparr>"

definition sample_options :: Options where
  "sample_options = \<lparr>op_StatusMap = None, op_Decisive = \<lparr>dc_Ranges = [], dc_Tags = []\<rparr>, op_ScalePercent = 0\<rparr>"

theorem From_classifies_witness:
  "rp_Verdict (From sample_request sample_outcome sample_options) = VerdictScore \<and>
   rp_Score (From sample_request sample_outcome sample_options) = Some 30"
proof -
  have "ScaleScore (Calibrate (eo_AnomalyScore sample_outcome) (eo_Threshold sample_outcome))
      (op_ScalePercent sample_options) = 30" by code_simp
  then show ?thesis using From_classifies [of sample_outcome sample_options sample_request]
    by (simp add: Let_def sample_outcome_def sample_options_def disruptive_def)
qed

section \<open>Evidence\<close>

lemma rune_cut_le: "rune_cut s n \<le> n"
  by (induction s n rule: rune_cut.induct) auto

lemma rune_cut_start: "rune_cut s n = 0 \<or> RuneStart (s ! rune_cut s n)"
  by (induction s n rule: rune_cut.induct) auto

lemma rune_cut_maximal: "rune_cut s n < i \<Longrightarrow> i \<le> n \<Longrightarrow> \<not> RuneStart (s ! i)"
  by (induction s n rule: rune_cut.induct) (auto simp: le_Suc_eq split: if_splits)

text \<open>
  Evidence, messages and tags are cut to their limit without splitting a UTF-8 sequence: the result
  is the longest prefix of at most that many bytes that is followed by the first byte of a character.
\<close>

theorem clip_at_rune:
  "(\<exists>k. clip s limit = take k s \<and> (k = 0 \<or> k = length s \<or> RuneStart (s ! k)) \<and>
     filter (\<lambda>i. k < i \<and> RuneStart (s ! i)) [0..<min (Suc limit) (length s)] = []) \<and>
   length (clip s limit) \<le> limit"
proof (cases "length s \<le> limit")
  case True
  then show ?thesis by (auto simp: clip_def filter_empty_conv intro!: exI [of _ "length s"])
next
  case False
  have "filter (\<lambda>i. rune_cut s limit < i \<and> RuneStart (s ! i)) [0..<min (Suc limit) (length s)] = []"
    using rune_cut_maximal [of s limit] by (auto simp: filter_empty_conv)
  with False show ?thesis using rune_cut_le [of s limit] rune_cut_start [of s limit]
    by (auto simp: clip_def intro!: exI [of _ "rune_cut s limit"])
qed

lemma tags_bound: "length (tags src) \<le> tagsMax"
proof -
  have "length out \<le> tagsMax \<Longrightarrow> length (tags_from out src) \<le> tagsMax" for out
    by (induction out src rule: tags_from.induct) auto
  then show ?thesis by (simp add: tags_def)
qed

end
