(* ===== verification/Body_Store.thy ===== *)
theory Body_Store
  imports Protocol
begin

text \<open>
  Stored objects, \<^verbatim>\<open>internal/body/body.go\<close> and \<^verbatim>\<open>redis.go\<close>: the loader that fetches headers,
  arguments and bodies by their locators, one by one (\<open>Load\<close>) or in one batch (\<open>LoadMany\<close>), decrypts
  them and checks their digests.  The Redis client, the source of secret keys and the primitives of
  the crypto packages (SHA-256, AES-GCM, Base64) are parameters; a store answers as it stands while a
  message is handled, so timeouts show as errors of a call.  \<open>Load\<close> and \<open>LoadMany\<close> answer \<open>None\<close> where
  the Go code panics: \<^verbatim>\<open>gcm.Open\<close> does on a nonce that does not have 12 bytes.
\<close>

section \<open>Bodies and stores\<close>

record Body =
  bd_Data :: bytes
  bd_Truncated :: bool
  bd_Unavailable :: string
  bd_SHA256 :: string

definition no_body :: Body where
  "no_body = \<lparr>bd_Data = [], bd_Truncated = False, bd_Unavailable = '''', bd_SHA256 = ''''\<rparr>"

abbreviation (input) unavailable_body :: "string \<Rightarrow> Body" where
  "unavailable_body why \<equiv> no_body\<lparr>bd_Unavailable := why\<rparr>"

definition Available :: "Body \<Rightarrow> bool" where
  "Available b \<longleftrightarrow> bd_Unavailable b = ''''"

abbreviation unavailableNoStore :: string where "unavailableNoStore \<equiv> ''store_unconfigured''"
abbreviation unavailableStoreError :: string where "unavailableStoreError \<equiv> ''store_error''"
abbreviation unavailableUnknownDrv :: string where "unavailableUnknownDrv \<equiv> ''unknown_driver''"
abbreviation unavailableDecryptFail :: string where "unavailableDecryptFail \<equiv> ''decrypt_failed''"
abbreviation unavailableDigestFail :: string where "unavailableDigestFail \<equiv> ''digest_mismatch''"

datatype store_error = ErrUnknownDriver | StoreFailed string

text \<open>\<open>bs_GetMany\<close> is \<open>None\<close> for a store that is no \<^verbatim>\<open>MultiStore\<close>.\<close>

record BodyStore =
  bs_Get :: "string \<Rightarrow> string \<Rightarrow> string \<Rightarrow> store_error + bytes"
  bs_GetMany :: "(string \<Rightarrow> string \<Rightarrow> string list \<Rightarrow> store_error + bytes option list) option"

record crypto_lib =
  cl_SHA256 :: "bytes \<Rightarrow> string"
  cl_Base64 :: "string \<Rightarrow> bytes option"
  cl_Open :: "bytes \<Rightarrow> bytes \<Rightarrow> bytes \<Rightarrow> bytes option"

record Loader =
  ld_store :: "BodyStore option"
  ld_keys :: "(string \<Rightarrow> string + bytes) option"
  ld_crypto :: crypto_lib

section \<open>Finishing a fetched object\<close>

datatype decrypt_result = Plain bytes | DecryptFailed | Panic

definition decrypt :: "Loader \<Rightarrow> Enc \<Rightarrow> bytes \<Rightarrow> decrypt_result" where
  "decrypt l enc raw = (case ld_keys l of
     None \<Rightarrow> DecryptFailed
   | Some keys \<Rightarrow>
       if enc_Alg enc \<noteq> ''aes-256-gcm'' then DecryptFailed
       else (case keys (enc_KID enc) of
         Inl _ \<Rightarrow> DecryptFailed
       | Inr key \<Rightarrow>
           if length key \<notin> {16, 24, 32} then DecryptFailed
           else (case cl_Base64 (ld_crypto l) (enc_Nonce enc) of
             None \<Rightarrow> DecryptFailed
           | Some nonce \<Rightarrow>
               if length nonce \<noteq> 12 then Panic
               else (case cl_Open (ld_crypto l) key nonce raw of
                 None \<Rightarrow> DecryptFailed | Some plain \<Rightarrow> Plain plain))))"

definition wanted :: "Locator \<Rightarrow> string" where
  "wanted loc = (if loc_ProcessedSHA256 loc \<noteq> '''' then loc_ProcessedSHA256 loc
     else if loc_Truncated loc then '''' else loc_SHA256 loc)"

definition verify :: "Loader \<Rightarrow> Locator \<Rightarrow> bytes \<Rightarrow> Body" where
  "verify l loc raw =
     (let digest = cl_SHA256 (ld_crypto l) raw; want = wanted loc
      in if want \<noteq> '''' \<and> want \<noteq> digest then unavailable_body unavailableDigestFail
         else \<lparr>bd_Data = raw, bd_Truncated = loc_Truncated loc, bd_Unavailable = '''', bd_SHA256 = digest\<rparr>)"

definition finish :: "Loader \<Rightarrow> Locator \<Rightarrow> bytes \<Rightarrow> Body option" where
  "finish l loc raw = (case loc_Enc loc of
     None \<Rightarrow> Some (verify l loc raw)
   | Some enc \<Rightarrow> (case decrypt l enc raw of
       Plain plain \<Rightarrow> Some (verify l loc plain)
     | DecryptFailed \<Rightarrow> Some (unavailable_body unavailableDecryptFail)
     | Panic \<Rightarrow> None))"

section \<open>Loading\<close>

definition Load :: "Loader \<Rightarrow> Locator option \<Rightarrow> Body option" where
  "Load l loc = (case loc of
     None \<Rightarrow> Some no_body
   | Some loc \<Rightarrow>
       if loc_Unavailable loc \<noteq> '''' then Some (unavailable_body (loc_Unavailable loc))
       else if loc_Driver loc \<noteq> '''' then
         (case ld_store l of
            None \<Rightarrow> Some (unavailable_body unavailableNoStore)
          | Some st \<Rightarrow> (case bs_Get st (loc_Driver loc) (loc_Store loc) (loc_Key loc) of
              Inl ErrUnknownDriver \<Rightarrow> Some (unavailable_body unavailableUnknownDrv)
            | Inl (StoreFailed _) \<Rightarrow> Some (unavailable_body unavailableStoreError)
            | Inr raw \<Rightarrow> finish l loc raw))
       else Some no_body)"

text \<open>The variables of the loop over the locators: the batch it collects and the slots it fills.\<close>

record scan =
  sn_keys :: "string list"
  sn_at :: "nat list"
  sn_driver :: string
  sn_store :: string
  sn_batched :: bool
  sn_out :: "Body option list"

definition scan_locator :: "Loader \<Rightarrow> nat \<times> Locator option \<Rightarrow> scan \<Rightarrow> scan" where
  "scan_locator l p s = (case p of (i, loc) \<Rightarrow>
     let alone = s\<lparr>sn_out := (sn_out s)[i := Load l loc]\<rparr>
     in case loc of
       None \<Rightarrow> alone
     | Some lc \<Rightarrow>
         if loc_Unavailable lc \<noteq> '''' \<or> loc_Driver lc = '''' then alone
         else if sn_batched s \<and> (loc_Driver lc \<noteq> sn_driver s \<or> loc_Store lc \<noteq> sn_store s) then alone
         else s\<lparr>sn_driver := loc_Driver lc, sn_store := loc_Store lc, sn_batched := True,
                sn_keys := sn_keys s @ [loc_Key lc], sn_at := sn_at s @ [i]\<rparr>)"

definition scan_locators :: "Loader \<Rightarrow> Locator option list \<Rightarrow> scan" where
  "scan_locators l locs = fold (scan_locator l) (enumerate 0 locs)
     \<lparr>sn_keys = [], sn_at = [], sn_driver = '''', sn_store = '''', sn_batched = False,
      sn_out = replicate (length locs) (Some no_body)\<rparr>"

definition fill_slots :: "(nat \<Rightarrow> nat \<Rightarrow> 'a) \<Rightarrow> nat list \<Rightarrow> 'a list \<Rightarrow> 'a list" where
  "fill_slots f at' out = fold (\<lambda>(n, i) out. out[i := f n i]) (enumerate 0 at') out"

text \<open>\<open>the (locs ! i)\<close> is the dereference of a locator the scan found to be present.\<close>

definition LoadMany :: "Loader \<Rightarrow> Locator option list \<Rightarrow> Body list option" where
  "LoadMany l locs = those (case Option.bind (ld_store l) bs_GetMany of
     None \<Rightarrow> map (Load l) locs
   | Some getMany \<Rightarrow>
      (let s = scan_locators l locs; out = sn_out s; slots = sn_at s
       in if length (sn_keys s) < 2 then fill_slots (\<lambda>_ i. Load l (locs ! i)) slots out
          else (case getMany (sn_driver s) (sn_store s) (sn_keys s) of
            Inl ErrUnknownDriver \<Rightarrow> fill_slots (\<lambda>_ _. Some (unavailable_body unavailableUnknownDrv)) slots out
          | Inl (StoreFailed _) \<Rightarrow> fill_slots (\<lambda>_ _. Some (unavailable_body unavailableStoreError)) slots out
          | Inr raws \<Rightarrow> fill_slots (\<lambda>n i. case raws ! n of
                None \<Rightarrow> Some (unavailable_body unavailableStoreError)
              | Some raw \<Rightarrow> finish l (the (locs ! i)) raw) slots out)))"

section \<open>The Redis store\<close>

datatype redis_value = RString bytes | RBytes bytes | RNil

record redis_client =
  rc_Get :: "string \<Rightarrow> string + bytes"
  rc_MGet :: "string list \<Rightarrow> string + redis_value list"

definition RedisStore_Get :: "redis_client \<Rightarrow> string \<Rightarrow> string \<Rightarrow> string \<Rightarrow> store_error + bytes" where
  "RedisStore_Get c driver store key =
     (if driver \<noteq> ''redis'' then Inl ErrUnknownDriver
      else map_sum StoreFailed id (rc_Get c key))"

definition RedisStore_GetMany :: "redis_client \<Rightarrow> string \<Rightarrow> string \<Rightarrow> string list \<Rightarrow> store_error + bytes option list" where
  "RedisStore_GetMany c driver store keys =
     (if driver \<noteq> ''redis'' then Inl ErrUnknownDriver
      else if keys = [] then Inr []
      else (case rc_MGet c keys of
        Inl e \<Rightarrow> Inl (StoreFailed e)
      | Inr vals \<Rightarrow>
          if length vals \<noteq> length keys then Inl (StoreFailed ''mget'')
          else Inr (map (\<lambda>v. case v of RString b \<Rightarrow> Some b | RBytes b \<Rightarrow> Some b | RNil \<Rightarrow> None) vals)))"

definition RedisStore :: "redis_client \<Rightarrow> BodyStore" where
  "RedisStore c = \<lparr>bs_Get = RedisStore_Get c, bs_GetMany = Some (RedisStore_GetMany c)\<rparr>"

section \<open>Filling slots\<close>

lemma fill_slots_from:
  "length (fold (\<lambda>(n, i) out. out[i := f n i]) (enumerate k at') out) = length out"
  by (induction at' arbitrary: k out) simp_all

lemma fill_slots_length [simp]: "length (fill_slots f at' out) = length out"
  by (simp add: fill_slots_def fill_slots_from)

lemma fill_slots_other_from:
  "j \<notin> set at' \<Longrightarrow> fold (\<lambda>(n, i) out. out[i := f n i]) (enumerate k at') out ! j = out ! j"
  by (induction at' arbitrary: k out) simp_all

lemma fill_slots_other: "j \<notin> set at' \<Longrightarrow> fill_slots f at' out ! j = out ! j"
  by (simp add: fill_slots_def fill_slots_other_from)

lemma fill_slots_nth_from:
  "distinct at' \<Longrightarrow> \<forall>i \<in> set at'. i < length out \<Longrightarrow> m < length at' \<Longrightarrow>
   fold (\<lambda>(n, i) out. out[i := f n i]) (enumerate k at') out ! (at' ! m) = f (k + m) (at' ! m)"
proof (induction at' arbitrary: k out m)
  case (Cons i at')
  then show ?case by (cases m) (simp_all add: fill_slots_other_from)
qed simp

lemma fill_slots_nth:
  "distinct at' \<Longrightarrow> \<forall>i \<in> set at'. i < length out \<Longrightarrow> m < length at' \<Longrightarrow>
   fill_slots f at' out ! (at' ! m) = f m (at' ! m)"
  using fill_slots_nth_from [of at' out m f 0] by (simp add: fill_slots_def)

section \<open>The batch the scan collects\<close>

text \<open>A locator that names an object of the store, under a given driver and store name.\<close>

definition batched_as :: "string \<Rightarrow> string \<Rightarrow> string \<Rightarrow> Locator option \<Rightarrow> bool" where
  "batched_as driver store key loc \<longleftrightarrow> (case loc of None \<Rightarrow> False
     | Some lc \<Rightarrow> loc_Unavailable lc = '''' \<and> loc_Driver lc = driver \<and> driver \<noteq> '''' \<and>
         loc_Store lc = store \<and> loc_Key lc = key)"

definition scan_ok :: "Loader \<Rightarrow> Locator option list \<Rightarrow> nat \<Rightarrow> scan \<Rightarrow> bool" where
  "scan_ok l locs n s \<longleftrightarrow> length (sn_out s) = length locs \<and> length (sn_keys s) = length (sn_at s) \<and>
     distinct (sn_at s) \<and> set (sn_at s) \<subseteq> {..<n} \<and> (sn_batched s \<longleftrightarrow> sn_at s \<noteq> []) \<and>
     (\<forall>m < length (sn_at s). batched_as (sn_driver s) (sn_store s) (sn_keys s ! m) (locs ! (sn_at s ! m))) \<and>
     (\<forall>j < n. j \<notin> set (sn_at s) \<longrightarrow> sn_out s ! j = Load l (locs ! j))"

lemma scan_ok_alone:
  assumes "scan_ok l locs n s" "n < length locs"
  shows "scan_ok l locs (Suc n) (s\<lparr>sn_out := (sn_out s)[n := Load l (locs ! n)]\<rparr>)"
  using assms unfolding scan_ok_def
  by (auto simp: less_Suc_eq nth_list_update)

lemma scan_ok_batched:
  assumes "scan_ok l locs n s" "n < length locs" "locs ! n = Some lc"
    and "loc_Unavailable lc = ''''" "loc_Driver lc \<noteq> ''''"
    and "\<not> (sn_batched s \<and> (loc_Driver lc \<noteq> sn_driver s \<or> loc_Store lc \<noteq> sn_store s))"
  shows "scan_ok l locs (Suc n) (s\<lparr>sn_driver := loc_Driver lc, sn_store := loc_Store lc, sn_batched := True,
    sn_keys := sn_keys s @ [loc_Key lc], sn_at := sn_at s @ [n]\<rparr>)"
proof -
  have same: "sn_at s \<noteq> [] \<Longrightarrow> loc_Driver lc = sn_driver s \<and> loc_Store lc = sn_store s"
    using assms(1,6) by (auto simp: scan_ok_def)
  have "n \<notin> set (sn_at s)" using assms(1) by (auto simp: scan_ok_def)
  moreover have "batched_as (loc_Driver lc) (loc_Store lc) (loc_Key lc) (locs ! n)"
    using assms(3-5) by (simp add: batched_as_def)
  ultimately show ?thesis using assms(1,2) same unfolding scan_ok_def
    by (auto simp: less_Suc_eq nth_append)
qed

lemma scan_ok_step:
  assumes "scan_ok l locs n s" "n < length locs"
  shows "scan_ok l locs (Suc n) (scan_locator l (n, locs ! n) s)"
proof (cases "locs ! n")
  case None
  then show ?thesis using scan_ok_alone [OF assms] by (simp add: scan_locator_def Let_def)
next
  case (Some lc)
  then show ?thesis using scan_ok_alone [OF assms] scan_ok_batched [OF assms Some]
    by (simp add: scan_locator_def Let_def)
qed

lemma scan_locators_ok: "scan_ok l locs (length locs) (scan_locators l locs)"
proof -
  let ?s0 = "\<lparr>sn_keys = [], sn_at = [], sn_driver = '''', sn_store = '''', sn_batched = False,
      sn_out = replicate (length locs) (Some no_body)\<rparr>"
  have "scan_ok l locs n (fold (scan_locator l) (take n (enumerate 0 locs)) ?s0)" if "n \<le> length locs" for n
    using that
  proof (induction n)
    case 0
    then show ?case by (simp add: scan_ok_def)
  next
    case (Suc n)
    then have "take (Suc n) (enumerate 0 locs) = take n (enumerate 0 locs) @ [(n, locs ! n)]"
      by (simp add: take_Suc_conv_app_nth nth_enumerate_eq)
    then show ?case using Suc scan_ok_step by simp
  qed
  from this [of "length locs"] show ?thesis by (simp add: scan_locators_def)
qed

lemma those_length: "those xs = Some ys \<Longrightarrow> length ys = length xs"
  by (induction xs arbitrary: ys) (auto split: option.splits)

lemma LoadMany_length: "LoadMany l locs = Some got \<Longrightarrow> length got = length locs"
proof -
  have "length (sn_out (scan_locators l locs)) = length locs"
    using scan_locators_ok [of l locs] by (simp add: scan_ok_def)
  then show "LoadMany l locs = Some got \<Longrightarrow> length got = length locs"
    by (auto simp: LoadMany_def Let_def dest!: those_length split: option.splits sum.splits store_error.splits if_splits)
qed

section \<open>Batched and single reads agree\<close>

text \<open>
  What the loader relies on when it reads several objects at once: a batch answers as the single reads
  would, value by value, and it fails only as each of them would.
\<close>

locale multi_store =
  fixes get :: "string \<Rightarrow> string \<Rightarrow> string \<Rightarrow> store_error + bytes"
    and get_many :: "string \<Rightarrow> string \<Rightarrow> string list \<Rightarrow> store_error + bytes option list"
  assumes batch_values: "get_many driver store keys = Inr raws \<Longrightarrow> m < length keys \<Longrightarrow>
      length raws = length keys \<and>
      (case raws ! m of Some raw \<Rightarrow> get driver store (keys ! m) = Inr raw
       | None \<Rightarrow> (\<exists>e. get driver store (keys ! m) = Inl (StoreFailed e)))"
    and batch_unknown: "get_many drv st ks = Inl ErrUnknownDriver \<Longrightarrow> k \<in> set ks \<Longrightarrow>
      get drv st k = Inl ErrUnknownDriver"
    and batch_failed: "get_many dr so kk = Inl (StoreFailed e) \<Longrightarrow> q \<in> set kk \<Longrightarrow>
      \<exists>e'. get dr so q = Inl (StoreFailed e')"
begin

lemma batch_slot:
  assumes store: "ld_store l = Some \<lparr>bs_Get = get, bs_GetMany = Some get_many\<rparr>"
    and loc: "batched_as (sn_driver s) (sn_store s) (sn_keys s ! m) loc" "m < length (sn_keys s)"
  shows "get_many (sn_driver s) (sn_store s) (sn_keys s) = Inl ErrUnknownDriver \<Longrightarrow>
      Load l loc = Some (unavailable_body unavailableUnknownDrv)"
    and "get_many (sn_driver s) (sn_store s) (sn_keys s) = Inl (StoreFailed e) \<Longrightarrow>
      Load l loc = Some (unavailable_body unavailableStoreError)"
    and "get_many (sn_driver s) (sn_store s) (sn_keys s) = Inr raws \<Longrightarrow>
      Load l loc = (case raws ! m of None \<Rightarrow> Some (unavailable_body unavailableStoreError)
        | Some raw \<Rightarrow> finish l (the loc) raw)"
proof -
  have key: "sn_keys s ! m \<in> set (sn_keys s)" using loc(2) by simp
  obtain lc where lc: "loc = Some lc" "loc_Unavailable lc = ''''" "loc_Driver lc = sn_driver s"
    "loc_Driver lc \<noteq> ''''" "loc_Store lc = sn_store s" "loc_Key lc = sn_keys s ! m"
    using loc(1) by (auto simp: batched_as_def split: option.splits)
  have load: "Load l loc = (case get (sn_driver s) (sn_store s) (sn_keys s ! m) of
      Inl ErrUnknownDriver \<Rightarrow> Some (unavailable_body unavailableUnknownDrv)
    | Inl (StoreFailed _) \<Rightarrow> Some (unavailable_body unavailableStoreError)
    | Inr raw \<Rightarrow> finish l lc raw)"
    using lc store by (simp add: Load_def)
  show "Load l loc = Some (unavailable_body unavailableUnknownDrv)"
    if "get_many (sn_driver s) (sn_store s) (sn_keys s) = Inl ErrUnknownDriver"
    using batch_unknown [OF that key] by (simp add: load)
  show "Load l loc = Some (unavailable_body unavailableStoreError)"
    if "get_many (sn_driver s) (sn_store s) (sn_keys s) = Inl (StoreFailed e)"
    using batch_failed [OF that key] by (auto simp: load)
  show "Load l loc = (case raws ! m of None \<Rightarrow> Some (unavailable_body unavailableStoreError)
      | Some raw \<Rightarrow> finish l (the loc) raw)"
    if "get_many (sn_driver s) (sn_store s) (sn_keys s) = Inr raws"
    using batch_values [OF that loc(2)] unfolding load by (auto simp: lc(1) split: option.splits)
qed

lemma batched_reads:
  assumes store: "ld_store l = Some \<lparr>bs_Get = get, bs_GetMany = Some get_many\<rparr>"
  shows "LoadMany l locs = those (map (Load l) locs)"
proof -
  define s where "s = scan_locators l locs"
  have ok: "scan_ok l locs (length locs) s" unfolding s_def by (rule scan_locators_ok)
  have slots: "distinct (sn_at s)" "\<forall>i \<in> set (sn_at s). i < length (sn_out s)"
    "length (sn_out s) = length locs" "length (sn_keys s) = length (sn_at s)"
    using ok by (auto simp: scan_ok_def)
  have filled: "fill_slots f (sn_at s) (sn_out s) = map (Load l) locs"
    if f: "\<And>m. m < length (sn_at s) \<Longrightarrow> f m (sn_at s ! m) = Load l (locs ! (sn_at s ! m))" for f
  proof (rule nth_equalityI)
    fix j assume "j < length (fill_slots f (sn_at s) (sn_out s))"
    then have j: "j < length locs" using slots(3) by simp
    show "fill_slots f (sn_at s) (sn_out s) ! j = map (Load l) locs ! j"
    proof (cases "j \<in> set (sn_at s)")
      case True
      then obtain m where "m < length (sn_at s)" "sn_at s ! m = j" by (metis in_set_conv_nth)
      then show ?thesis using fill_slots_nth [OF slots(1,2)] f [of m] j by auto
    next
      case False
      then show ?thesis using ok j by (simp add: fill_slots_other scan_ok_def)
    qed
  qed (simp add: slots)
  have slot: "batched_as (sn_driver s) (sn_store s) (sn_keys s ! m) (locs ! (sn_at s ! m))" if "m < length (sn_at s)" for m
    using ok that by (simp add: scan_ok_def)
  note batch = batch_slot [OF store slot]
  show ?thesis
  proof (cases "length (sn_keys s) < 2")
    case True
    then show ?thesis using filled store by (simp add: LoadMany_def s_def [symmetric])
  next
    case False
    then show ?thesis using filled batch store slots(4)
      by (auto simp: LoadMany_def s_def [symmetric] Let_def split: sum.split store_error.split)
  qed
qed

end

section \<open>The Redis store is such a store\<close>

text \<open>
  What the Redis documentation says of MGET: one value per key, the value GET would return, and nil for
  a key GET does not find; a server that cannot be reached fails both.
\<close>

locale redis =
  fixes client :: redis_client
  assumes mget_length: "rc_MGet client keys = Inr vals \<Longrightarrow> length vals = length keys"
    and mget_value: "rc_MGet client ks = Inr vs \<Longrightarrow> m < length ks \<Longrightarrow>
      (case vs ! m of RString b \<Rightarrow> rc_Get client (ks ! m) = Inr b
       | RBytes b \<Rightarrow> rc_Get client (ks ! m) = Inr b
       | RNil \<Rightarrow> (\<exists>e. rc_Get client (ks ! m) = Inl e))"
    and mget_fails: "rc_MGet client kk = Inl e \<Longrightarrow> k \<in> set kk \<Longrightarrow> \<exists>e'. rc_Get client k = Inl e'"

sublocale redis \<subseteq> rstore: multi_store "RedisStore_Get client" "RedisStore_GetMany client"
proof
  fix driver store keys raws m
  assume many: "RedisStore_GetMany client driver store keys = Inr raws" and m: "m < length keys"
  then obtain vals where vals: "rc_MGet client keys = Inr vals" and drv: "driver = ''redis''"
    and raws: "raws = map (\<lambda>v. case v of RString b \<Rightarrow> Some b | RBytes b \<Rightarrow> Some b | RNil \<Rightarrow> None) vals"
    by (auto simp: RedisStore_GetMany_def split: if_splits sum.splits)
  have "length raws = length keys" using mget_length [OF vals] raws by simp
  moreover have "case raws ! m of
      Some raw \<Rightarrow> RedisStore_Get client driver store (keys ! m) = Inr raw
    | None \<Rightarrow> \<exists>e. RedisStore_Get client driver store (keys ! m) = Inl (StoreFailed e)"
    using mget_value [OF vals m] mget_length [OF vals] m drv
    by (auto simp: raws RedisStore_Get_def split: redis_value.splits)
  ultimately show "length raws = length keys \<and> (case raws ! m of
      Some raw \<Rightarrow> RedisStore_Get client driver store (keys ! m) = Inr raw
    | None \<Rightarrow> \<exists>e. RedisStore_Get client driver store (keys ! m) = Inl (StoreFailed e))" by blast
next
  fix drv st ks k
  assume "RedisStore_GetMany client drv st ks = Inl ErrUnknownDriver"
  then show "RedisStore_Get client drv st k = Inl ErrUnknownDriver"
    by (auto simp: RedisStore_GetMany_def RedisStore_Get_def split: if_splits sum.splits)
next
  fix dr so kk e q
  assume many: "RedisStore_GetMany client dr so kk = Inl (StoreFailed e)" and q: "q \<in> set kk"
  then have "dr = ''redis''" by (auto simp: RedisStore_GetMany_def split: if_splits)
  moreover have "rc_MGet client kk = Inl e"
    using many q mget_length [of kk] by (auto simp: RedisStore_GetMany_def split: if_splits sum.splits)
  then have "\<exists>e'. rc_Get client q = Inl e'" using mget_fails q by blast
  ultimately show "\<exists>e'. RedisStore_Get client dr so q = Inl (StoreFailed e')"
    by (auto simp: RedisStore_Get_def)
qed

context redis
begin

lemma batch_agrees: "ld_store l = Some (RedisStore client) \<Longrightarrow> LoadMany l locs = those (map (Load l) locs)"
  using rstore.batched_reads by (simp add: RedisStore_def)

end

text \<open>A server that holds a fixed set of keys.\<close>

definition snapshot_client :: "(string \<rightharpoonup> bytes) \<Rightarrow> redis_client" where
  "snapshot_client db =
     \<lparr>rc_Get = (\<lambda>key. case db key of Some v \<Rightarrow> Inr v | None \<Rightarrow> Inl ''redis: nil''),
      rc_MGet = (\<lambda>keys. Inr (map (\<lambda>key. case db key of Some v \<Rightarrow> RString v | None \<Rightarrow> RNil) keys))\<rparr>"

interpretation snap: redis "snapshot_client db" for db
  by unfold_locales (auto simp: snapshot_client_def split: option.splits)

text \<open>
  C26: reading the objects of a message in one batch is the same as reading them one by one, in the same
  slots: whatever the locators are, and whether the batch is answered, finds nothing, names an unknown
  driver or fails, \<open>LoadMany\<close> over Redis answers what \<open>Load\<close> answers for each locator.
\<close>

theorem LoadMany_is_Load:
  assumes "redis client" "ld_store l = Some (RedisStore client)"
  shows "LoadMany l locs = those (map (Load l) locs)"
  using redis.batch_agrees [OF assms] .

text \<open>A loader over such a server, with toy primitives, and a message with three stored objects.\<close>

definition sample_loader :: "(string \<rightharpoonup> bytes) \<Rightarrow> Loader" where
  "sample_loader db = \<lparr>ld_store = Some (RedisStore (snapshot_client db)), ld_keys = Some (\<lambda>_. Inr (replicate 32 (CHR 0x00))),
     ld_crypto = \<lparr>cl_SHA256 = (\<lambda>b. ''sum-'' @ b), cl_Base64 = Some, cl_Open = (\<lambda>_ _ b. Some b)\<rparr>\<rparr>"

definition sample_locator :: "string \<Rightarrow> string \<Rightarrow> Locator" where
  "sample_locator key digest = \<lparr>loc_Store = ''s'', loc_Driver = ''redis'', loc_Key = key, loc_Unavailable = '''',
     loc_Size = 0, loc_DeclaredSize = 0, loc_SHA256 = digest, loc_ProcessedSHA256 = '''', loc_Transformed = False,
     loc_Complete = True, loc_Truncated = False, loc_Encoding = '''', loc_ExpiresAt = 0, loc_Hint = '''',
     loc_Enc = None\<rparr>"

theorem LoadMany_is_Load_witness:
  "redis (snapshot_client [''h'' \<mapsto> ''x'', ''b'' \<mapsto> ''y'']) \<and>
   map_option (map (\<lambda>b. (bd_Unavailable b, bd_Data b)))
     (LoadMany (sample_loader [''h'' \<mapsto> ''x'', ''b'' \<mapsto> ''y''])
       [Some (sample_locator ''h'' ''sum-x''), Some (sample_locator ''a'' ''''), None, Some (sample_locator ''b'' ''sum-z'')]) =
   Some [('''', ''x''), (unavailableStoreError, ''''), ('''', ''''), (unavailableDigestFail, '''')]"
proof -
  let ?db = "[''h'' \<mapsto> ''x'', ''b'' \<mapsto> ''y'']"
  let ?locs = "[Some (sample_locator ''h'' ''sum-x''), Some (sample_locator ''a'' ''''), None, Some (sample_locator ''b'' ''sum-z'')]"
  have "LoadMany (sample_loader ?db) ?locs = those (map (Load (sample_loader ?db)) ?locs)"
    by (rule LoadMany_is_Load [OF snap.redis_axioms]) (simp add: sample_loader_def)
  moreover have "map_option (map (\<lambda>b. (bd_Unavailable b, bd_Data b))) (those (map (Load (sample_loader ?db)) ?locs)) =
      Some [('''', ''x''), (unavailableStoreError, ''''), ('''', ''''), (unavailableDigestFail, '''')]"
    by code_simp
  ultimately show ?thesis using snap.redis_axioms by simp
qed

section \<open>Only verified bytes are inspected\<close>

lemma finish_available:
  assumes "finish l loc raw = Some b" "Available b"
  shows "bd_Truncated b = loc_Truncated loc" "bd_SHA256 b = cl_SHA256 (ld_crypto l) (bd_Data b)"
    "wanted loc \<noteq> '''' \<Longrightarrow> bd_SHA256 b = wanted loc"
    "case loc_Enc loc of None \<Rightarrow> bd_Data b = raw | Some enc \<Rightarrow> decrypt l enc raw = Plain (bd_Data b)"
  using assms
  by (auto simp: finish_def verify_def Available_def Let_def no_body_def split: option.splits decrypt_result.splits if_splits)

text \<open>
  What every available slot of a batch keeps of its locator: no object gives no bytes, and the bytes of an object
  have the digest the locator promises, if it promises one.  Unlike \<open>LoadMany_is_Load\<close> this needs nothing of the store.
\<close>

definition as_promised :: "Loader \<Rightarrow> Locator option \<Rightarrow> Body \<Rightarrow> bool" where
  "as_promised l loc b \<longleftrightarrow> (case loc of
     None \<Rightarrow> bd_Data b = ''''
   | Some lc \<Rightarrow> loc_Unavailable lc = '''' \<and>
       (if loc_Driver lc = '''' then bd_Data b = ''''
        else bd_Truncated b = loc_Truncated lc \<and>
          (wanted lc = '''' \<or> cl_SHA256 (ld_crypto l) (bd_Data b) = wanted lc)))"

lemma finish_promised:
  "finish l lc raw = Some b \<Longrightarrow> Available b \<Longrightarrow> loc_Unavailable lc = '''' \<Longrightarrow> loc_Driver lc \<noteq> '''' \<Longrightarrow> as_promised l (Some lc) b"
  using finish_available [of l lc raw b] by (auto simp: as_promised_def)

lemma unavailable_not_available:
  "why \<noteq> '''' \<Longrightarrow> \<not> Available (unavailable_body why)"
  by (simp add: Available_def)

lemma Load_promised: "Load l loc = Some b \<Longrightarrow> Available b \<Longrightarrow> as_promised l loc b"
  by (auto simp: Load_def as_promised_def no_body_def Available_def
    split: option.splits if_splits sum.splits store_error.splits dest!: finish_promised [unfolded Available_def])

lemma those_nth: "those xs = Some ys \<Longrightarrow> i < length xs \<Longrightarrow> xs ! i = Some (ys ! i)"
proof (induction xs arbitrary: ys i)
  case (Cons x xs)
  then show ?case by (cases i) (auto split: option.splits)
qed simp

lemma filled_promised:
  assumes ok: "scan_ok l locs (length locs) s" and j: "j < length locs" "Available (got ! j)"
    and got: "those (fill_slots f (sn_at s) (sn_out s)) = Some got"
    and f: "\<And>m b. m < length (sn_at s) \<Longrightarrow> f m (sn_at s ! m) = Some b \<Longrightarrow> Available b \<Longrightarrow> as_promised l (locs ! (sn_at s ! m)) b"
  shows "as_promised l (locs ! j) (got ! j)"
proof -
  have slots: "distinct (sn_at s)" "\<forall>i \<in> set (sn_at s). i < length (sn_out s)" "length (sn_out s) = length locs"
    using ok by (auto simp: scan_ok_def)
  have nth: "fill_slots f (sn_at s) (sn_out s) ! j = Some (got ! j)" using those_nth [OF got, of j] slots(3) j(1) by simp
  show ?thesis
  proof (cases "j \<in> set (sn_at s)")
    case True
    then obtain m where "m < length (sn_at s)" "sn_at s ! m = j" by (metis in_set_conv_nth)
    then show ?thesis using fill_slots_nth [OF slots(1,2)] f [of m] nth j(2) by metis
  next
    case False
    then show ?thesis using ok j nth Load_promised by (auto simp: fill_slots_other scan_ok_def)
  qed
qed

lemma batched_promised:
  assumes "scan_ok l locs (length locs) s" "m < length (sn_at s)" "finish l (the (locs ! (sn_at s ! m))) raw = Some b" "Available b"
  shows "as_promised l (locs ! (sn_at s ! m)) b"
proof -
  have "batched_as (sn_driver s) (sn_store s) (sn_keys s ! m) (locs ! (sn_at s ! m))" using assms(1,2) by (simp add: scan_ok_def)
  then show ?thesis using finish_promised assms(3,4) by (auto simp: batched_as_def split: option.splits)
qed

lemma LoadMany_promised:
  assumes "LoadMany l locs = Some got" "j < length locs" "Available (got ! j)"
  shows "as_promised l (locs ! j) (got ! j)"
proof (cases "Option.bind (ld_store l) bs_GetMany")
  case None
  then have "those (map (Load l) locs) = Some got" using assms(1) by (simp add: LoadMany_def)
  from those_nth [OF this, of j] show ?thesis using assms(2,3) Load_promised by simp
next
  case (Some getMany)
  define s where "s = scan_locators l locs"
  have ok: "scan_ok l locs (length locs) s" unfolding s_def by (rule scan_locators_ok)
  note filled = filled_promised [OF ok assms(2,3)]
  show ?thesis
  proof (cases "length (sn_keys s) < 2")
    case True
    then have "those (fill_slots (\<lambda>_ i. Load l (locs ! i)) (sn_at s) (sn_out s)) = Some got"
      using assms(1) Some by (simp add: LoadMany_def s_def [symmetric] Let_def)
    from filled [OF this] show ?thesis using Load_promised by blast
  next
    case False
    note many = assms(1) [unfolded LoadMany_def Some, folded s_def]
    show ?thesis
    proof (cases "getMany (sn_driver s) (sn_store s) (sn_keys s)")
      case (Inl e)
      with many False have "\<exists>why. why \<noteq> '''' \<and> those (fill_slots (\<lambda>_ _. Some (unavailable_body why)) (sn_at s) (sn_out s)) = Some got"
        by (cases e) (auto simp: Let_def)
      then show ?thesis using filled unavailable_not_available by blast
    next
      case (Inr raws)
      with many False have got: "those (fill_slots (\<lambda>n i. case raws ! n of None \<Rightarrow> Some (unavailable_body unavailableStoreError)
          | Some raw \<Rightarrow> finish l (the (locs ! i)) raw) (sn_at s) (sn_out s)) = Some got"
        by (simp add: Let_def)
      show ?thesis by (rule filled [OF got]) (auto simp: Available_def split: option.splits intro: batched_promised [OF ok])
    qed
  qed
qed

text \<open>
  C34: bytes the loader hands out are the stored object, decrypted when its locator says it is encrypted,
  and their digest is the one the locator promises: the digest after processing when there is one, else
  the digest of the object unless it is truncated; an object that fails any of this is unavailable.
\<close>

theorem loaded_bytes_are_verified:
  assumes "Load l (Some loc) = Some b" "Available b" "loc_Driver loc \<noteq> ''''"
  shows "\<exists>store raw. ld_store l = Some store \<and>
    bs_Get store (loc_Driver loc) (loc_Store loc) (loc_Key loc) = Inr raw \<and>
    (case loc_Enc loc of None \<Rightarrow> bd_Data b = raw | Some enc \<Rightarrow> decrypt l enc raw = Plain (bd_Data b)) \<and>
    bd_Truncated b = loc_Truncated loc \<and>
    (let want = (if loc_ProcessedSHA256 loc \<noteq> '''' then loc_ProcessedSHA256 loc
                 else if loc_Truncated loc then '''' else loc_SHA256 loc)
     in want = '''' \<or> cl_SHA256 (ld_crypto l) (bd_Data b) = want)"
proof -
  obtain store raw where store: "ld_store l = Some store"
    "bs_Get store (loc_Driver loc) (loc_Store loc) (loc_Key loc) = Inr raw" "finish l loc raw = Some b"
    using assms by (auto simp: Load_def Available_def no_body_def split: if_splits option.splits sum.splits store_error.splits)
  note fin = finish_available [OF store(3) assms(2)]
  have "wanted loc = '''' \<or> cl_SHA256 (ld_crypto l) (bd_Data b) = wanted loc" using fin(2,3) by auto
  then show ?thesis using store fin(1,4) by (auto simp: wanted_def Let_def)
qed

theorem loaded_bytes_are_verified_witness:
  "\<exists>b. Load (sample_loader [''h'' \<mapsto> ''x'']) (Some (sample_locator ''h'' ''sum-x'')) = Some b \<and>
     Available b \<and> cl_SHA256 (ld_crypto (sample_loader [''h'' \<mapsto> ''x''])) (bd_Data b) = ''sum-x''"
proof -
  define b where "b = \<lparr>bd_Data = ''x'', bd_Truncated = False, bd_Unavailable = '''', bd_SHA256 = ''sum-x''\<rparr>"
  have load: "Load (sample_loader [''h'' \<mapsto> ''x'']) (Some (sample_locator ''h'' ''sum-x'')) = Some b"
    unfolding b_def by code_simp
  have av: "Available b" by (simp add: b_def Available_def)
  have "loc_Driver (sample_locator ''h'' ''sum-x'') \<noteq> ''''" by (simp add: sample_locator_def)
  from loaded_bytes_are_verified [OF load av this]
  have "cl_SHA256 (ld_crypto (sample_loader [''h'' \<mapsto> ''x''])) (bd_Data b) = ''sum-x''"
    by (auto simp: sample_locator_def Let_def)
  with load av show ?thesis by blast
qed

text \<open>
  C38: a message can make the loader panic: an encrypted object whose nonce decodes to anything but 12
  bytes does, once its key is found, and nothing else does.
\<close>

theorem Load_panics_on_nonce:
  "Load l loc = None \<longleftrightarrow>
     (\<exists>lc store raw enc keys key nonce. loc = Some lc \<and> loc_Unavailable lc = '''' \<and> loc_Driver lc \<noteq> '''' \<and>
        ld_store l = Some store \<and> bs_Get store (loc_Driver lc) (loc_Store lc) (loc_Key lc) = Inr raw \<and>
        loc_Enc lc = Some enc \<and> ld_keys l = Some keys \<and> enc_Alg enc = ''aes-256-gcm'' \<and>
        keys (enc_KID enc) = Inr key \<and> length key \<in> {16, 24, 32} \<and>
        cl_Base64 (ld_crypto l) (enc_Nonce enc) = Some nonce \<and> length nonce \<noteq> 12)"
proof -
  have dec: "decrypt l enc raw = Panic \<longleftrightarrow> (\<exists>keys key nonce. ld_keys l = Some keys \<and> enc_Alg enc = ''aes-256-gcm'' \<and>
      keys (enc_KID enc) = Inr key \<and> length key \<in> {16, 24, 32} \<and>
      cl_Base64 (ld_crypto l) (enc_Nonce enc) = Some nonce \<and> length nonce \<noteq> 12)" for enc raw
    by (auto simp: decrypt_def split: option.splits sum.splits)
  have fin: "finish l lc raw = None \<longleftrightarrow> (\<exists>enc. loc_Enc lc = Some enc \<and> decrypt l enc raw = Panic)" for lc raw
    by (auto simp: finish_def split: option.splits decrypt_result.splits)
  have "Load l loc = None \<longleftrightarrow> (\<exists>lc store raw. loc = Some lc \<and> loc_Unavailable lc = '''' \<and> loc_Driver lc \<noteq> '''' \<and>
      ld_store l = Some store \<and> bs_Get store (loc_Driver lc) (loc_Store lc) (loc_Key lc) = Inr raw \<and>
      finish l lc raw = None)"
    by (auto simp: Load_def split: option.splits sum.splits store_error.splits if_splits)
  then show ?thesis unfolding fin dec by simp
qed

end
