(* ===== verification/Queue.thy ===== *)
theory Queue
  imports Protocol "HOL-Library.Multiset"
begin

text \<open>
  The worker pool, \<^verbatim>\<open>internal/queue/queue.go\<close>.  The critical sections (between Lock and Unlock of the
  mutex) and the lock-free reads are functions of the pool and of the clock; \<open>pool_step\<close> lets the
  submitting goroutines, the workers and the sweeper take them in any order, each goroutine being the
  next thing it has to do (\<open>job\<close>).  A call of the handler is an entry of the log.  Condition variables
  show as guards of the steps, and a goroutine that hands over several expired tasks as one job each.
  The counters are 64-bit words.  The flow counter (\<^verbatim>\<open>placitum-shared/flow\<close>) only measures the calls
  and is left out.
\<close>

section \<open>The pool and its critical sections\<close>

abbreviation ReasonQueueLimit :: string where "ReasonQueueLimit \<equiv> ''MODSEC_QUEUE_LIMIT''"
abbreviation ReasonDeadlineExceeded :: string where "ReasonDeadlineExceeded \<equiv> ''MODSEC_DEADLINE_EXCEEDED''"
abbreviation FullDrop :: string where "FullDrop \<equiv> ''drop''"
abbreviation FullWait :: string where "FullWait \<equiv> ''wait''"

record Task =
  tk_Req :: Request
  tk_Reply :: string
  tk_Personal :: bool
  tk_Fill :: int
  tk_enqueued :: instant

record Pool =
  pl_q :: "Task list"
  pl_depth :: int
  pl_closed :: bool
  pl_full :: string
  pl_reserve :: duration
  pl_minBudget :: duration
  pl_Accepted :: u64
  pl_Shed :: u64
  pl_Expired :: u64

definition New_pool :: "int \<Rightarrow> int \<Rightarrow> int \<Rightarrow> string \<Rightarrow> Pool" where
  "New_pool depth reserveMS minBudgetMS full =
     \<lparr>pl_q = [], pl_depth = (if depth < 1 then 1 else depth), pl_closed = False,
      pl_full = (if full = '''' then FullDrop else full),
      pl_reserve = i64 (reserveMS * Millisecond), pl_minBudget = i64 (minBudgetMS * Millisecond),
      pl_Accepted = 0, pl_Shed = 0, pl_Expired = 0\<rparr>"

definition leftAt :: "Pool \<Rightarrow> Task \<Rightarrow> instant \<Rightarrow> duration" where
  "leftAt p t now =
     (let deadline = i64 (req_DeadlineMS (tk_Req t) * Millisecond)
      in i64 (i64 (deadline - time_sub now (tk_enqueued t)) - pl_reserve p))"

definition is_full :: "Pool \<Rightarrow> bool" where
  "is_full p \<longleftrightarrow> int (length (pl_q p)) \<ge> pl_depth p"

definition fillLocked :: "Pool \<Rightarrow> int" where
  "fillLocked p = (if is_full p then 100 else int (length (pl_q p)) * 100 div pl_depth p)"

definition enqueueLocked :: "Task \<Rightarrow> Pool \<Rightarrow> Pool" where
  "enqueueLocked t p = p\<lparr>pl_q := pl_q p @ [t], pl_Accepted := pl_Accepted p + 1\<rparr>"

definition takeExpiredLocked :: "instant \<Rightarrow> Pool \<Rightarrow> Task list \<times> Pool" where
  "takeExpiredLocked now p =
     (filter (\<lambda>t. leftAt p t now < pl_minBudget p) (pl_q p),
      p\<lparr>pl_q := filter (\<lambda>t. \<not> leftAt p t now < pl_minBudget p) (pl_q p)\<rparr>)"

text \<open>One round of the loop of \<open>pop\<close>: a task, the end of the worker, expired tasks only, or to wait.\<close>

datatype pop_result = Popped Task | PopEnd | PopDead | PopWait

definition pop :: "instant \<Rightarrow> Pool \<Rightarrow> pop_result \<times> Task list \<times> Pool" where
  "pop now p = (case takeExpiredLocked now p of (dead, p1) \<Rightarrow>
     (case pl_q p1 of
        t # rest \<Rightarrow> (Popped t, dead, p1\<lparr>pl_q := rest\<rparr>)
      | [] \<Rightarrow> if pl_closed p1 then (PopEnd, dead, p1)
              else if dead \<noteq> [] then (PopDead, dead, p1)
              else (PopWait, dead, p1)))"

text \<open>The calls of the handler: a task, its budget and the reason it is shed, if any.\<close>

type_synonym handler_call = "Task \<times> duration \<times> string"

definition budget :: "instant \<Rightarrow> Task \<Rightarrow> Pool \<Rightarrow> handler_call \<times> Pool" where
  "budget now t p = (let left = leftAt p t now
     in if left < pl_minBudget p then ((t, left, ReasonDeadlineExceeded), p\<lparr>pl_Expired := pl_Expired p + 1\<rparr>)
        else ((t, left, ''''), p))"

definition expire :: "Task \<Rightarrow> duration \<Rightarrow> Pool \<Rightarrow> handler_call \<times> Pool" where
  "expire t left p = ((t, left, ReasonDeadlineExceeded), p\<lparr>pl_Expired := pl_Expired p + 1\<rparr>)"

definition shedLimit :: "Task \<Rightarrow> Pool \<Rightarrow> handler_call \<times> Pool" where
  "shedLimit t p = ((t, 0, ReasonQueueLimit), p\<lparr>pl_Shed := pl_Shed p + 1\<rparr>)"

definition Close_pool :: "Pool \<Rightarrow> Pool" where
  "Close_pool p = p\<lparr>pl_closed := True\<rparr>"

text \<open>The locked part of \<open>Submit\<close> and what the goroutine does after it.\<close>

datatype job =
    Submitting Task | Late Task | Checked Task | Entering Task | Waiting Task instant
  | Expiring Task duration | Shedding Task | Running Task | Busy

definition enter :: "instant \<Rightarrow> Task \<Rightarrow> Pool \<Rightarrow> job option \<times> Pool" where
  "enter now t0 p =
     (if pl_closed p then (Some (Expiring t0 0), p)
      else (let t = t0\<lparr>tk_Fill := fillLocked p\<rparr>
            in if \<not> is_full p then (None, enqueueLocked t p)
               else if pl_full p = FullWait then
                 (let left = leftAt p t now
                  in if left < pl_minBudget p then (Some (Expiring t left), p)
                     else (Some (Waiting t (now + left)), p))
               else (Some (Shedding t), p)))"

text \<open>\<open>submitWaitLocked\<close> after its loop has ended.\<close>

definition waited :: "Task \<Rightarrow> Pool \<Rightarrow> job option \<times> Pool" where
  "waited t p =
     (if pl_closed p then (Some (Expiring t 0), p)
      else if \<not> is_full p then (None, enqueueLocked t p)
      else (Some (Expiring t 0), p))"

section \<open>Goroutines\<close>

record world =
  w_pool :: Pool
  w_jobs :: "job multiset"
  w_idle :: nat
  w_gone :: nat
  w_log :: "handler_call list"
  w_now :: instant
  w_submitted :: "Task multiset"

definition jobs_of :: "job option \<Rightarrow> job multiset" where
  "jobs_of j = (case j of None \<Rightarrow> {#} | Some j \<Rightarrow> {#j#})"

definition replyDead :: "Task list \<Rightarrow> job multiset" where
  "replyDead dead = image_mset (\<lambda>t. Expiring t 0) (mset dead)"

text \<open>Steps of the pool's own goroutines.\<close>

inductive pool_step :: "world \<Rightarrow> world \<Rightarrow> bool" where
  late: "w_jobs w = add_mset (Submitting t) js \<Longrightarrow> leftAt (w_pool w) t (w_now w) < pl_minBudget (w_pool w) \<Longrightarrow>
    pool_step w (w\<lparr>w_jobs := add_mset (Late t) js\<rparr>)"
| late_expire: "w_jobs w = add_mset (Late t) js \<Longrightarrow>
    pool_step w (w\<lparr>w_jobs := add_mset (Expiring t (leftAt (w_pool w) t (w_now w))) js\<rparr>)"
| in_time: "w_jobs w = add_mset (Submitting t) js \<Longrightarrow> \<not> leftAt (w_pool w) t (w_now w) < pl_minBudget (w_pool w) \<Longrightarrow>
    pool_step w (w\<lparr>w_jobs := add_mset (Checked t) js\<rparr>)"
| collect: "w_jobs w = add_mset (Checked t) js \<Longrightarrow> takeExpiredLocked (w_now w) (w_pool w) = (dead, p) \<Longrightarrow>
    pool_step w (w\<lparr>w_pool := p, w_jobs := add_mset (Entering t) (js + replyDead dead)\<rparr>)"
| enters: "w_jobs w = add_mset (Entering t) js \<Longrightarrow> enter (w_now w) t (w_pool w) = (j, p) \<Longrightarrow>
    pool_step w (w\<lparr>w_pool := p, w_jobs := js + jobs_of j\<rparr>)"
| wait_collect: "w_jobs w = add_mset (Waiting t until) js \<Longrightarrow> is_full (w_pool w) \<Longrightarrow> \<not> pl_closed (w_pool w) \<Longrightarrow>
    takeExpiredLocked (w_now w) (w_pool w) = (dead, p) \<Longrightarrow> dead \<noteq> [] \<Longrightarrow>
    pool_step w (w\<lparr>w_pool := p, w_jobs := add_mset (Waiting t until) (js + replyDead dead)\<rparr>)"
| wait_end: "w_jobs w = add_mset (Waiting t until) js \<Longrightarrow>
    \<not> is_full (w_pool w) \<or> until \<le> w_now w \<or> pl_closed (w_pool w) \<Longrightarrow> waited t (w_pool w) = (j, p) \<Longrightarrow>
    pool_step w (w\<lparr>w_pool := p, w_jobs := js + jobs_of j\<rparr>)"
| sweep: "takeExpiredLocked (w_now w) (w_pool w) = (dead, p) \<Longrightarrow> dead \<noteq> [] \<Longrightarrow>
    pool_step w (w\<lparr>w_pool := p, w_jobs := w_jobs w + replyDead dead\<rparr>)"
| pop_task: "w_idle w = Suc n \<Longrightarrow> pop (w_now w) (w_pool w) = (Popped t, dead, p) \<Longrightarrow>
    pool_step w (w\<lparr>w_pool := p, w_idle := n, w_jobs := add_mset (Running t) (w_jobs w + replyDead dead)\<rparr>)"
| pop_end: "w_idle w = Suc n \<Longrightarrow> pop (w_now w) (w_pool w) = (PopEnd, dead, p) \<Longrightarrow>
    pool_step w (w\<lparr>w_pool := p, w_idle := n, w_gone := Suc (w_gone w), w_jobs := w_jobs w + replyDead dead\<rparr>)"
| pop_dead: "w_idle w = Suc n \<Longrightarrow> pop (w_now w) (w_pool w) = (PopDead, dead, p) \<Longrightarrow>
    pool_step w (w\<lparr>w_pool := p, w_jobs := w_jobs w + replyDead dead\<rparr>)"
| handle: "w_jobs w = add_mset (Running t) js \<Longrightarrow> budget (w_now w) t (w_pool w) = (call, p) \<Longrightarrow>
    pool_step w (w\<lparr>w_pool := p, w_jobs := add_mset Busy js, w_log := w_log w @ [call]\<rparr>)"
| handled: "w_jobs w = add_mset Busy js \<Longrightarrow>
    pool_step w (w\<lparr>w_jobs := js, w_idle := Suc (w_idle w)\<rparr>)"
| expires: "w_jobs w = add_mset (Expiring t left) js \<Longrightarrow> expire t left (w_pool w) = (call, p) \<Longrightarrow>
    pool_step w (w\<lparr>w_pool := p, w_jobs := js, w_log := w_log w @ [call]\<rparr>)"
| sheds: "w_jobs w = add_mset (Shedding t) js \<Longrightarrow> shedLimit t (w_pool w) = (call, p) \<Longrightarrow>
    pool_step w (w\<lparr>w_pool := p, w_jobs := js, w_log := w_log w @ [call]\<rparr>)"

text \<open>Steps of the world around it: time passes, a message is submitted, the pool is closed.\<close>

inductive env_step :: "world \<Rightarrow> world \<Rightarrow> bool" where
  tick: "w_now w \<le> now \<Longrightarrow> env_step w (w\<lparr>w_now := now\<rparr>)"
| submit: "t = t0\<lparr>tk_enqueued := w_now w, tk_Fill := 0\<rparr> \<Longrightarrow>
    env_step w (w\<lparr>w_jobs := add_mset (Submitting t) (w_jobs w), w_submitted := add_mset t (w_submitted w)\<rparr>)"
| close: "env_step w (w\<lparr>w_pool := Close_pool (w_pool w)\<rparr>)"

definition New_world :: "Pool \<Rightarrow> nat \<Rightarrow> world" where
  "New_world p workers = \<lparr>w_pool = p, w_jobs = {#}, w_idle = workers, w_gone = 0, w_log = [], w_now = 0, w_submitted = {#}\<rparr>"

inductive run :: "Pool \<Rightarrow> nat \<Rightarrow> world \<Rightarrow> bool" for p workers where
  start: "run p workers (New_world p workers)"
| pool: "run p workers w \<Longrightarrow> pool_step w w' \<Longrightarrow> run p workers w'"
| env: "run p workers w \<Longrightarrow> env_step w w' \<Longrightarrow> run p workers w'"

section \<open>What the steps do\<close>

inductive_cases pool_stepE: "pool_step w w'"
inductive_cases env_stepE: "env_step w w'"

fun job_task :: "job \<Rightarrow> Task multiset" where
  "job_task (Submitting t) = {#t#}"
| "job_task (Late t) = {#t#}"
| "job_task (Checked t) = {#t#}"
| "job_task (Entering t) = {#t#}"
| "job_task (Waiting t _) = {#t#}"
| "job_task (Expiring t _) = {#t#}"
| "job_task (Shedding t) = {#t#}"
| "job_task (Running t) = {#t#}"
| "job_task Busy = {#}"

definition tasks_in :: "job multiset \<Rightarrow> Task multiset" where
  "tasks_in js = (\<Sum>j \<in># js. job_task j)"

lemma tasks_in_simps [simp]:
  "tasks_in {#} = {#}" "tasks_in (add_mset j js) = job_task j + tasks_in js"
  "tasks_in (js + js') = tasks_in js + tasks_in js'"
  by (simp_all add: tasks_in_def)

lemma tasks_in_replyDead [simp]: "tasks_in (replyDead dead) = mset dead"
  by (induction dead) (simp_all add: replyDead_def)

lemma tasks_in_jobs_of [simp]: "tasks_in (jobs_of j) = (case j of None \<Rightarrow> {#} | Some j \<Rightarrow> job_task j)"
  by (simp add: jobs_of_def split: option.split)

lemma takeExpired_mset:
  "takeExpiredLocked now p = (dead, p') \<Longrightarrow> mset (pl_q p) = mset dead + mset (pl_q p')"
  using multiset_partition [of "mset (pl_q p)" "\<lambda>t. leftAt p t now < pl_minBudget p"]
  by (auto simp: takeExpiredLocked_def simp del: union_filter_mset_complement)

definition erase :: "Task \<Rightarrow> Task" where
  "erase t = t\<lparr>tk_Fill := 0\<rparr>"

lemma pop_mset:
  assumes "pop now p = (r, dead, p')"
  shows "mset (pl_q p) = mset dead + mset (pl_q p') + (case r of Popped t \<Rightarrow> {#t#} | _ \<Rightarrow> {#})"
proof -
  obtain dd p1 where t: "takeExpiredLocked now p = (dd, p1)" by fastforce
  show ?thesis using takeExpired_mset [OF t] assms
    by (auto simp: pop_def t split: list.splits if_splits)
qed

lemma enter_mset:
  "enter now t p = (j, p') \<Longrightarrow>
     image_mset erase (mset (pl_q p') + tasks_in (jobs_of j)) = image_mset erase (add_mset t (mset (pl_q p)))"
  by (auto simp: enter_def enqueueLocked_def erase_def Let_def split: if_splits)

lemma waited_mset:
  "waited t p = (j, p') \<Longrightarrow>
     image_mset erase (mset (pl_q p') + tasks_in (jobs_of j)) = image_mset erase (add_mset t (mset (pl_q p)))"
  by (auto simp: waited_def enqueueLocked_def split: if_splits)

lemma call_fields:
  "budget now t p = (call, p') \<Longrightarrow> fst call = t \<and> pl_q p' = pl_q p"
  "expire t left p = (call, p') \<Longrightarrow> fst call = t \<and> pl_q p' = pl_q p"
  "shedLimit t p = (call, p') \<Longrightarrow> fst call = t \<and> pl_q p' = pl_q p"
  by (auto simp: budget_def expire_def shedLimit_def Let_def split: if_splits)

text \<open>Every task that was submitted is with a goroutine, in the queue or in the log, and nowhere twice.\<close>

definition held :: "world \<Rightarrow> Task multiset" where
  "held w = tasks_in (w_jobs w) + mset (pl_q (w_pool w)) + mset (map fst (w_log w))"

lemma pool_step_held:
  assumes "pool_step w w'"
  shows "image_mset erase (held w') = image_mset erase (held w) \<and> w_submitted w' = w_submitted w"
  using assms
proof cases
  case (enters t js j p)
  then show ?thesis using enter_mset [OF enters(3)] by (simp add: held_def ac_simps)
next
  case (wait_end t until js j p)
  then show ?thesis using waited_mset [OF wait_end(4)] by (simp add: held_def ac_simps)
qed (auto simp: held_def dest: takeExpired_mset pop_mset call_fields)

lemma run_held: "run p n w \<Longrightarrow> pl_q p = [] \<Longrightarrow> image_mset erase (held w) = w_submitted w"
proof (induction rule: run.induct)
  case (pool w w')
  then show ?case using pool_step_held by metis
next
  case (env w w')
  from env(2) show ?case
    by cases (use env(3,4) in \<open>simp_all add: held_def erase_def Close_pool_def\<close>)
qed (simp add: held_def New_world_def)

section \<open>Invariants\<close>

lemmas critical_sections = takeExpiredLocked_def pop_def enter_def waited_def enqueueLocked_def
  budget_def expire_def shedLimit_def Close_pool_def is_full_def fillLocked_def Let_def

definition same_config :: "Pool \<Rightarrow> Pool \<Rightarrow> bool" where
  "same_config p p' \<longleftrightarrow> pl_depth p' = pl_depth p \<and> pl_full p' = pl_full p \<and>
     pl_reserve p' = pl_reserve p \<and> pl_minBudget p' = pl_minBudget p"

lemma section_config:
  "takeExpiredLocked now p = (dead, p') \<Longrightarrow> same_config p p' \<and> pl_closed p' = pl_closed p"
  "pop now p = (r, dead, p') \<Longrightarrow> same_config p p' \<and> pl_closed p' = pl_closed p"
  "enter now t p = (j, p') \<Longrightarrow> same_config p p' \<and> pl_closed p' = pl_closed p"
  "waited t p = (j, p') \<Longrightarrow> same_config p p' \<and> pl_closed p' = pl_closed p"
  "budget now t p = (call, p') \<Longrightarrow> same_config p p' \<and> pl_closed p' = pl_closed p"
  "expire t left p = (call, p') \<Longrightarrow> same_config p p' \<and> pl_closed p' = pl_closed p"
  "shedLimit t p = (call, p') \<Longrightarrow> same_config p p' \<and> pl_closed p' = pl_closed p"
  by (auto simp: same_config_def critical_sections split: if_splits list.splits)

lemma pool_step_config:
  "pool_step w w' \<Longrightarrow> same_config (w_pool w) (w_pool w') \<and> pl_closed (w_pool w') = pl_closed (w_pool w)"
  by (erule pool_stepE) (auto dest: section_config simp: same_config_def)

lemma run_config: "run p n w \<Longrightarrow> same_config p (w_pool w)"
proof (induction rule: run.induct)
  case (pool w w')
  then show ?case using pool_step_config [of w w'] by (simp add: same_config_def)
next
  case (env w w')
  from env(2) show ?case by cases (use env(3) in \<open>simp_all add: same_config_def Close_pool_def\<close>)
qed (simp add: New_world_def same_config_def)

text \<open>The queue stays within its depth.\<close>

lemma section_queue:
  "takeExpiredLocked now p = (dead, p') \<Longrightarrow> length (pl_q p') \<le> length (pl_q p)"
  "pop now p = (r, dead, p') \<Longrightarrow> length (pl_q p') \<le> length (pl_q p)"
  "enter now t p = (j, p') \<Longrightarrow> int (length (pl_q p)) \<le> pl_depth p \<Longrightarrow> int (length (pl_q p')) \<le> pl_depth p"
  "waited t p = (j, p') \<Longrightarrow> int (length (pl_q p)) \<le> pl_depth p \<Longrightarrow> int (length (pl_q p')) \<le> pl_depth p"
  by (auto simp: critical_sections length_filter_le Suc_le_eq split: if_splits list.splits)
    (metis impossible_Cons le_trans length_filter_le nat_le_linear)+

lemma pool_step_queue:
  assumes "pool_step w w'" "int (length (pl_q (w_pool w))) \<le> pl_depth (w_pool w)"
  shows "int (length (pl_q (w_pool w'))) \<le> pl_depth (w_pool w)"
  using assms by (elim pool_stepE) (auto dest: section_queue call_fields)

lemma run_queue: "run p n w \<Longrightarrow> pl_q p = [] \<Longrightarrow> 0 \<le> pl_depth p \<Longrightarrow> int (length (pl_q (w_pool w))) \<le> pl_depth p"
proof (induction rule: run.induct)
  case (pool w w')
  then show ?case using pool_step_queue [OF pool(2)] run_config [OF pool(1)] by (simp add: same_config_def)
next
  case (env w w')
  from env(2) show ?case by cases (use env in \<open>simp_all add: Close_pool_def\<close>)
qed (simp add: New_world_def)

text \<open>How full the queue was is a percentage, and a task is shed for the limit only when it was full.\<close>

definition fill_ok :: "Task \<Rightarrow> bool" where
  "fill_ok t \<longleftrightarrow> 0 \<le> tk_Fill t \<and> tk_Fill t \<le> 100"

text \<open>
  The reasons to give up a message for its deadline, in terms of the clock: too little time was left since
  it came (\<open>out_of_time\<close>), or under the policy of waiting it waited for all the time it had left
  (\<open>waited_out\<close>), or the pool is closed.  \<open>seen_left\<close> is a remaining time that was read off the clock.
\<close>

definition past :: "instant \<Rightarrow> Task \<Rightarrow> instant \<Rightarrow> bool" where
  "past now t at \<longleftrightarrow> tk_enqueued t \<le> at \<and> at \<le> now"

definition out_of_time :: "Pool \<Rightarrow> instant \<Rightarrow> Task \<Rightarrow> bool" where
  "out_of_time p now t \<longleftrightarrow> (\<exists>at. past now t at \<and> leftAt p t at < pl_minBudget p)"

definition waits_until :: "Pool \<Rightarrow> instant \<Rightarrow> Task \<Rightarrow> instant \<Rightarrow> bool" where
  "waits_until p now t until \<longleftrightarrow> pl_full p = FullWait \<and>
     (\<exists>at. past now t at \<and> pl_minBudget p \<le> leftAt p t at \<and> until = at + leftAt p t at)"

definition waited_out :: "Pool \<Rightarrow> instant \<Rightarrow> Task \<Rightarrow> bool" where
  "waited_out p now t \<longleftrightarrow> (\<exists>until. waits_until p now t until \<and> until \<le> now)"

definition may_expire :: "Pool \<Rightarrow> instant \<Rightarrow> Task \<Rightarrow> bool" where
  "may_expire p now t \<longleftrightarrow> pl_closed p \<or> out_of_time p now t \<or> waited_out p now t"

definition seen_left :: "Pool \<Rightarrow> instant \<Rightarrow> Task \<Rightarrow> duration \<Rightarrow> bool" where
  "seen_left p now t left \<longleftrightarrow> (\<exists>at. past now t at \<and> left = leftAt p t at)"

text \<open>A message is shed for the limit only if \<open>n\<close>, the number of messages submitted, exceeds the depth.\<close>

fun job_ok :: "Pool \<Rightarrow> instant \<Rightarrow> nat \<Rightarrow> job \<Rightarrow> bool" where
  "job_ok p now n (Shedding t) \<longleftrightarrow> tk_Fill t = 100 \<and> pl_full p \<noteq> FullWait \<and> pl_depth p < int n \<and> tk_enqueued t \<le> now"
| "job_ok p now n (Waiting t until) \<longleftrightarrow> fill_ok t \<and> waits_until p now t until \<and> tk_enqueued t \<le> now"
| "job_ok p now n (Late t) \<longleftrightarrow> fill_ok t \<and> out_of_time p now t \<and> tk_enqueued t \<le> now"
| "job_ok p now n (Expiring t left) \<longleftrightarrow> fill_ok t \<and> may_expire p now t \<and> (left = 0 \<or> seen_left p now t left) \<and> tk_enqueued t \<le> now"
| "job_ok p now n j \<longleftrightarrow> (\<forall>t \<in># job_task j. fill_ok t \<and> tk_enqueued t \<le> now)"

definition call_ok :: "Pool \<Rightarrow> instant \<Rightarrow> nat \<Rightarrow> handler_call \<Rightarrow> bool" where
  "call_ok p now n call = (case call of (t, left, shed) \<Rightarrow>
     fill_ok t \<and> shed \<in> {'''', ReasonDeadlineExceeded, ReasonQueueLimit} \<and>
     (shed = '''' \<longrightarrow> pl_minBudget p \<le> left \<and> seen_left p now t left) \<and>
     (shed = ReasonDeadlineExceeded \<longrightarrow> may_expire p now t \<and> (left = 0 \<or> seen_left p now t left)) \<and>
     (shed = ReasonQueueLimit \<longrightarrow> left = 0 \<and> tk_Fill t = 100 \<and> pl_full p \<noteq> FullWait \<and> pl_depth p < int n))"

abbreviation waiting_ok :: "instant \<Rightarrow> Pool \<Rightarrow> bool" where
  "waiting_ok now p \<equiv> \<forall>t \<in> set (pl_q p). fill_ok t \<and> tk_enqueued t \<le> now"

definition calls_ok :: "world \<Rightarrow> bool" where
  "calls_ok w \<longleftrightarrow> (\<forall>j \<in># w_jobs w. job_ok (w_pool w) (w_now w) (size (w_submitted w)) j) \<and> waiting_ok (w_now w) (w_pool w) \<and>
     (\<forall>call \<in> set (w_log w). call_ok (w_pool w) (w_now w) (size (w_submitted w)) call)"

text \<open>The reasons stay true: time only passes, messages are only added, and a closed pool stays closed.\<close>

definition pool_later :: "Pool \<Rightarrow> Pool \<Rightarrow> bool" where
  "pool_later p p' \<longleftrightarrow> same_config p p' \<and> (pl_closed p \<longrightarrow> pl_closed p')"

lemma same_leftAt: "same_config p p' \<Longrightarrow> leftAt p' t at = leftAt p t at"
  by (simp add: leftAt_def same_config_def)

lemma past_later: "past now t at \<Longrightarrow> now \<le> now' \<Longrightarrow> past now' t at"
  by (simp add: past_def)

lemma reasons_later:
  assumes "pool_later p p'" "now \<le> now'"
  shows "out_of_time p now t \<Longrightarrow> out_of_time p' now' t" "waits_until p now t until \<Longrightarrow> waits_until p' now' t until"
    "seen_left p now t left \<Longrightarrow> seen_left p' now' t left" "waited_out p now t \<Longrightarrow> waited_out p' now' t"
    "may_expire p now t \<Longrightarrow> may_expire p' now' t"
proof -
  have c: "same_config p p'" "pl_full p' = pl_full p" "pl_minBudget p' = pl_minBudget p" "pl_closed p \<longrightarrow> pl_closed p'"
    using assms(1) by (auto simp: pool_later_def same_config_def)
  note left = same_leftAt [OF c(1)] and t = past_later [OF _ assms(2)]
  show out: "out_of_time p' now' t" if "out_of_time p now t" for t using that t by (auto simp: out_of_time_def left c)
  show waits: "waits_until p' now' t until" if "waits_until p now t until" for t until using that t by (auto simp: waits_until_def left c)
  show "seen_left p' now' t left" if "seen_left p now t left" for t left using that t by (auto simp: seen_left_def left)
  show wait: "waited_out p' now' t" if "waited_out p now t" for t using that waits assms(2) by (fastforce simp: waited_out_def)
  show "may_expire p' now' t" if "may_expire p now t" for t using that out wait c(4) by (auto simp: may_expire_def)
qed

lemma job_ok_later:
  assumes "pool_later p p'" "now \<le> now'" "n \<le> n'" "job_ok p now n j"
  shows "job_ok p' now' n' j"
proof -
  note config = assms(1) [unfolded pool_later_def same_config_def]
  show ?thesis using assms(2-4) config by (cases j) (auto intro: reasons_later [OF assms(1,2)])
qed

lemma call_ok_later:
  assumes "pool_later p p'" "now \<le> now'" "n \<le> n'" "call_ok p now n call"
  shows "call_ok p' now' n' call"
proof -
  note config = assms(1) [unfolded pool_later_def same_config_def]
  obtain t left shed where c: "call = (t, left, shed)" by (cases call) blast
  have "pl_depth p < int n \<Longrightarrow> pl_depth p < int n'" using assms(3) by linarith
  with assms(4) config reasons_later(3,5) [OF assms(1,2), of t] show ?thesis unfolding c call_ok_def prod.case by simp blast
qed

lemma fillLocked_ok:
  assumes "0 < pl_depth p"
  shows "0 \<le> fillLocked p" and "fillLocked p \<le> 100" and "is_full p \<Longrightarrow> fillLocked p = 100"
proof -
  have "int (length (pl_q p)) * 100 div pl_depth p \<le> 100" if "\<not> is_full p"
  proof -
    have "int (length (pl_q p)) * 100 \<le> pl_depth p * 100" using that by (simp add: is_full_def)
    then have "int (length (pl_q p)) * 100 div pl_depth p \<le> pl_depth p * 100 div pl_depth p"
      using assms by (intro zdiv_mono1)
    then show ?thesis using assms by simp
  qed
  then show "0 \<le> fillLocked p" "fillLocked p \<le> 100" "is_full p \<Longrightarrow> fillLocked p = 100"
    using assms by (auto simp: fillLocked_def pos_imp_zdiv_nonneg_iff)
qed

lemma fill_irrelevant [simp]:
  "past now (t\<lparr>tk_Fill := f\<rparr>) at = past now t at" "leftAt p (t\<lparr>tk_Fill := f\<rparr>) at = leftAt p t at"
  by (simp_all add: past_def leftAt_def)

lemma reasons_now:
  "tk_enqueued t \<le> now \<Longrightarrow> leftAt p t now < pl_minBudget p \<Longrightarrow> out_of_time p now t"
  "tk_enqueued t \<le> now \<Longrightarrow> seen_left p now t (leftAt p t now)"
  "tk_enqueued t \<le> now \<Longrightarrow> \<not> leftAt p t now < pl_minBudget p \<Longrightarrow> pl_full p = FullWait \<Longrightarrow>
     waits_until p now t (now + leftAt p t now)"
  by (auto simp: out_of_time_def seen_left_def waits_until_def past_def)

lemma reasons_fill [simp]:
  "out_of_time p now (t\<lparr>tk_Fill := f\<rparr>) = out_of_time p now t" "seen_left p now (t\<lparr>tk_Fill := f\<rparr>) left = seen_left p now t left"
  "waits_until p now (t\<lparr>tk_Fill := f\<rparr>) until = waits_until p now t until"
  by (simp_all add: out_of_time_def seen_left_def waits_until_def)

lemma out_of_time_expires: "out_of_time p now t \<Longrightarrow> may_expire p now t"
  by (simp add: may_expire_def)

lemma enter_ok:
  assumes "enter now t p = (j, p')" "fill_ok t" "tk_enqueued t \<le> now" "0 < pl_depth p" "waiting_ok now p"
    "is_full p \<Longrightarrow> pl_depth p < int n"
  shows "(\<forall>j' \<in># jobs_of j. job_ok p now n j') \<and> waiting_ok now p'"
  using assms fillLocked_ok [OF assms(4)]
  by (auto simp: enter_def enqueueLocked_def jobs_of_def fill_ok_def may_expire_def reasons_now Let_def split: if_splits)

lemma waited_ok:
  assumes "waited t p = (j, p')" "job_ok p now n (Waiting t until)" "\<not> is_full p \<or> until \<le> now \<or> pl_closed p" "waiting_ok now p"
  shows "(\<forall>j' \<in># jobs_of j. job_ok p now n j') \<and> waiting_ok now p'"
  using assms by (auto simp: waited_def enqueueLocked_def jobs_of_def may_expire_def waited_out_def split: if_splits)

lemma handler_calls_ok:
  "budget now t p = (call, p') \<Longrightarrow> fill_ok t \<Longrightarrow> tk_enqueued t \<le> now \<Longrightarrow> call_ok p now n call"
  "expire t left p = (call, p') \<Longrightarrow> job_ok p now n (Expiring t left) \<Longrightarrow> call_ok p now n call"
  "shedLimit t p = (call, p') \<Longrightarrow> job_ok p now n (Shedding t) \<Longrightarrow> call_ok p now n call"
  by (auto simp: budget_def expire_def shedLimit_def call_ok_def fill_ok_def reasons_now out_of_time_expires Let_def split: if_splits)

text \<open>What is taken out for its deadline has run out of time.\<close>

lemma taken_ok:
  assumes "takeExpiredLocked now p = (dead, p')" "waiting_ok now p"
  shows "\<forall>j \<in># replyDead dead. job_ok p now n j" "waiting_ok now p'"
  using assms by (auto simp: takeExpiredLocked_def replyDead_def reasons_now out_of_time_expires)

lemma pop_ok:
  assumes "pop now p = (r, dead, p')" "waiting_ok now p"
  shows "\<forall>j \<in># replyDead dead. job_ok p now n j" "waiting_ok now p'" "\<And>t. r = Popped t \<Longrightarrow> fill_ok t \<and> tk_enqueued t \<le> now"
proof -
  obtain dd p1 where t: "takeExpiredLocked now p = (dd, p1)" by fastforce
  note taken = taken_ok [OF t assms(2)]
  show "\<forall>j \<in># replyDead dead. job_ok p now n j" "waiting_ok now p'" "\<And>t. r = Popped t \<Longrightarrow> fill_ok t \<and> tk_enqueued t \<le> now"
    using taken assms(1) by (auto simp: pop_def t split: list.splits if_splits)
qed

text \<open>Every message is counted as submitted, so whoever finds the queue full is one more than its depth.\<close>

lemma full_submitted:
  assumes "image_mset erase (held w) = w_submitted w" "w_jobs w = add_mset (Entering t) js" "is_full (w_pool w)"
  shows "pl_depth (w_pool w) < int (size (w_submitted w))"
proof -
  have "size (w_submitted w) = size (held w)" using assms(1) by (metis size_image_mset)
  then show ?thesis using assms(2,3) by (simp add: held_def is_full_def)
qed

lemma section_later:
  assumes "pool_step w w'"
  shows "pool_later (w_pool w) (w_pool w')" "w_now w' = w_now w" "w_submitted w' = w_submitted w"
  using pool_step_config [OF assms] assms by (auto simp: pool_later_def elim: pool_stepE)

definition step_ok :: "world \<Rightarrow> world \<Rightarrow> bool" where
  "step_ok w w' \<longleftrightarrow> (\<forall>j \<in># w_jobs w'. job_ok (w_pool w) (w_now w) (size (w_submitted w)) j) \<and> waiting_ok (w_now w) (w_pool w') \<and>
     (\<forall>call \<in> set (w_log w'). call_ok (w_pool w) (w_now w) (size (w_submitted w)) call)"

lemma pool_step_ok:
  assumes "pool_step w w'" "calls_ok w" "0 < pl_depth (w_pool w)" "image_mset erase (held w) = w_submitted w"
  shows "step_ok w w'"
proof -
  have waiting: "waiting_ok (w_now w) (w_pool w)" using assms(2) by (simp add: calls_ok_def)
  from assms(1) show ?thesis
  proof cases
  case (late t js)
  then show ?thesis using assms(2) by (auto simp: calls_ok_def step_ok_def reasons_now)
next
  case (late_expire t js)
  then show ?thesis using assms(2) by (auto simp: calls_ok_def step_ok_def reasons_now out_of_time_expires)
next
  case (collect t js dead p)
  then show ?thesis using taken_ok [OF collect(3) waiting] assms(2) by (auto simp: calls_ok_def step_ok_def)
next
  case (enters t js j p)
  have t: "fill_ok t" "tk_enqueued t \<le> w_now w" "waiting_ok (w_now w) (w_pool w)" using assms(2) enters(2) by (auto simp: calls_ok_def)
  have "(\<forall>j' \<in># jobs_of j. job_ok (w_pool w) (w_now w) (size (w_submitted w)) j') \<and> waiting_ok (w_now w) p"
    using enter_ok [OF enters(3) t(1,2) assms(3) t(3)] full_submitted [OF assms(4) enters(2)] by blast
  then show ?thesis using enters assms(2) by (auto simp: calls_ok_def step_ok_def)
next
  case (wait_collect t until js dead p)
  then show ?thesis using taken_ok [OF wait_collect(5) waiting] assms(2) by (auto simp: calls_ok_def step_ok_def)
next
  case (wait_end t until js j p)
  have "job_ok (w_pool w) (w_now w) (size (w_submitted w)) (Waiting t until)"
    using assms(2) wait_end(2) by (simp add: calls_ok_def del: job_ok.simps)
  then show ?thesis using waited_ok [OF wait_end(4) _ wait_end(3) waiting] wait_end assms(2)
    by (auto simp: calls_ok_def step_ok_def simp del: job_ok.simps)
next
  case (sweep dead p)
  then show ?thesis using taken_ok [OF sweep(2) waiting] assms(2) by (auto simp: calls_ok_def step_ok_def)
next
  case (pop_task n t dead p)
  then show ?thesis using pop_ok [OF pop_task(3) waiting] assms(2) by (auto simp: calls_ok_def step_ok_def)
next
  case (pop_end n dead p)
  then show ?thesis using pop_ok [OF pop_end(3) waiting] assms(2) by (auto simp: calls_ok_def step_ok_def)
next
  case (pop_dead n dead p)
  then show ?thesis using pop_ok [OF pop_dead(3) waiting] assms(2) by (auto simp: calls_ok_def step_ok_def)
  qed (use assms(2) in \<open>auto simp: calls_ok_def step_ok_def dest: handler_calls_ok call_fields\<close>)
qed

lemma pool_step_calls:
  assumes "pool_step w w'" "calls_ok w" "0 < pl_depth (w_pool w)" "image_mset erase (held w) = w_submitted w"
  shows "calls_ok w'"
  using pool_step_ok [OF assms] section_later [OF assms(1)] job_ok_later [OF section_later(1) [OF assms(1)]]
    call_ok_later [OF section_later(1) [OF assms(1)]]
  unfolding step_ok_def calls_ok_def by (metis order_refl)

lemma run_calls: "run p n w \<Longrightarrow> pl_q p = [] \<Longrightarrow> 0 < pl_depth p \<Longrightarrow> calls_ok w"
proof (induction rule: run.induct)
  case (pool w w')
  then show ?case using pool_step_calls [OF pool(2)] run_held run_config [OF pool(1)] by (simp add: same_config_def)
next
  case (env w w')
  have "pool_later (w_pool w) (w_pool w') \<and> w_now w \<le> w_now w' \<and> size (w_submitted w) \<le> size (w_submitted w')"
    using env(2) by cases (simp_all add: pool_later_def same_config_def Close_pool_def)
  note later = job_ok_later [of "w_pool w" "w_pool w'" "w_now w" "w_now w'" "size (w_submitted w)" "size (w_submitted w')"]
    call_ok_later [of "w_pool w" "w_pool w'" "w_now w" "w_now w'" "size (w_submitted w)" "size (w_submitted w')"] this
  have ok: "calls_ok w" using env by simp
  from env(2) show ?case by cases (use later ok in \<open>auto simp: calls_ok_def Close_pool_def fill_ok_def\<close>)
qed (simp add: calls_ok_def New_world_def)

text \<open>The counters count the calls.\<close>

definition shed_for :: "string \<Rightarrow> handler_call list \<Rightarrow> nat" where
  "shed_for why log = length (filter (\<lambda>(_, _, shed). shed = why) log)"

definition counted :: "world \<Rightarrow> bool" where
  "counted w \<longleftrightarrow> pl_Expired (w_pool w) = of_nat (shed_for ReasonDeadlineExceeded (w_log w)) \<and>
     pl_Shed (w_pool w) = of_nat (shed_for ReasonQueueLimit (w_log w))"

lemma section_counters:
  "takeExpiredLocked now p = (dead, p') \<Longrightarrow> pl_Expired p' = pl_Expired p \<and> pl_Shed p' = pl_Shed p"
  "pop now p = (r, dead, p') \<Longrightarrow> pl_Expired p' = pl_Expired p \<and> pl_Shed p' = pl_Shed p"
  "enter now t p = (j, p') \<Longrightarrow> pl_Expired p' = pl_Expired p \<and> pl_Shed p' = pl_Shed p"
  "waited t p = (j, p') \<Longrightarrow> pl_Expired p' = pl_Expired p \<and> pl_Shed p' = pl_Shed p"
  by (auto simp: critical_sections split: if_splits list.splits)

lemma pool_step_counted: "pool_step w w' \<Longrightarrow> counted w \<Longrightarrow> counted w'"
  by (erule pool_stepE)
    (auto simp: counted_def shed_for_def budget_def expire_def shedLimit_def Let_def
      dest: section_counters split: if_splits)

lemma run_counted: "run p n w \<Longrightarrow> pl_Expired p = 0 \<Longrightarrow> pl_Shed p = 0 \<Longrightarrow> counted w"
proof (induction rule: run.induct)
  case (pool w w')
  then show ?case using pool_step_counted by blast
next
  case (env w w')
  from env(2) show ?case by cases (use env in \<open>simp_all add: counted_def Close_pool_def\<close>)
qed (simp add: counted_def shed_for_def New_world_def)

text \<open>Workers are idle, at work or gone, and they go only when the pool is closed and drained.\<close>

fun at_work :: "job \<Rightarrow> nat" where
  "at_work (Running _) = 1"
| "at_work Busy = 1"
| "at_work _ = 0"

definition workers_ok :: "nat \<Rightarrow> world \<Rightarrow> bool" where
  "workers_ok n w \<longleftrightarrow> w_idle w + (\<Sum>j \<in># w_jobs w. at_work j) + w_gone w = n \<and>
     (0 < w_gone w \<longrightarrow> pl_closed (w_pool w) \<and> pl_q (w_pool w) = [])"

lemma at_work_replyDead [simp]: "(\<Sum>j \<in># replyDead dead. at_work j) = 0"
  by (induction dead) (simp_all add: replyDead_def)

lemma at_work_enter:
  "enter now t p = (j, p') \<Longrightarrow> (\<Sum>j \<in># jobs_of j. at_work j) = 0 \<and> (pl_closed p \<longrightarrow> pl_q p' = pl_q p)"
  "waited t p = (j, p') \<Longrightarrow> (\<Sum>j \<in># jobs_of j. at_work j) = 0 \<and> (pl_closed p \<longrightarrow> pl_q p' = pl_q p)"
  by (auto simp: critical_sections jobs_of_def split: if_splits)

lemma pop_PopEnd: "pop now p = (PopEnd, dead, p') \<Longrightarrow> pl_closed p \<and> pl_closed p' \<and> pl_q p' = []"
  by (auto simp: pop_def takeExpiredLocked_def split: if_splits list.splits)

lemma section_empty:
  "takeExpiredLocked now p = (dead, p') \<Longrightarrow> pl_q p = [] \<Longrightarrow> pl_q p' = []"
  "pop now p = (r, dead, p') \<Longrightarrow> pl_q p = [] \<Longrightarrow> pl_q p' = []"
  by (auto simp: pop_def takeExpiredLocked_def split: if_splits)

lemma pool_step_workers:
  assumes "pool_step w w'" "workers_ok n w"
  shows "workers_ok n w'"
  using assms
  by (elim pool_stepE)
    (auto simp: workers_ok_def dest: at_work_enter section_config section_empty pop_PopEnd call_fields)

lemma run_workers: "run p n w \<Longrightarrow> workers_ok n w"
proof (induction rule: run.induct)
  case (pool w w')
  then show ?case using pool_step_workers by blast
next
  case (env w w')
  from env(2) show ?case by cases (use env in \<open>simp_all add: workers_ok_def Close_pool_def\<close>)
qed (simp add: workers_ok_def New_world_def)

section \<open>Termination and progress\<close>

fun job_work :: "job \<Rightarrow> nat" where
  "job_work (Submitting _) = 8"
| "job_work (Late _) = 2"
| "job_work (Checked _) = 6"
| "job_work (Entering _) = 5"
| "job_work (Waiting _ _) = 4"
| "job_work (Expiring _ _) = 1"
| "job_work (Shedding _) = 1"
| "job_work (Running _) = 3"
| "job_work Busy = 2"

definition work :: "world \<Rightarrow> nat" where
  "work w = (\<Sum>j \<in># w_jobs w. job_work j) + 3 * length (pl_q (w_pool w)) + w_idle w"

lemma work_replyDead [simp]: "(\<Sum>j \<in># replyDead dead. job_work j) = length dead"
  by (induction dead) (simp_all add: replyDead_def)

lemma takeExpired_length:
  "takeExpiredLocked now p = (dead, p') \<Longrightarrow> length (pl_q p) = length dead + length (pl_q p')"
  using takeExpired_mset [of now p dead p', THEN arg_cong, of size] by simp

lemma pop_length:
  "pop now p = (r, dead, p') \<Longrightarrow>
     length (pl_q p) = length dead + length (pl_q p') + (case r of Popped _ \<Rightarrow> 1 | _ \<Rightarrow> 0)"
  using pop_mset [of now p r dead p', THEN arg_cong, of size] by (cases r) simp_all

lemma enter_work:
  "enter now t p = (j, p') \<Longrightarrow> (\<Sum>j \<in># jobs_of j. job_work j) + 3 * length (pl_q p') < 5 + 3 * length (pl_q p)"
  "waited t p = (j, p') \<Longrightarrow> (\<Sum>j \<in># jobs_of j. job_work j) + 3 * length (pl_q p') < 4 + 3 * length (pl_q p)"
  by (auto simp: critical_sections jobs_of_def split: if_splits)

lemma pop_PopDead:
  assumes "pop now p = (PopDead, dead, p')"
  shows "length dead + 3 * length (pl_q p') < 3 * length (pl_q p)"
proof -
  have "dead \<noteq> []" using assms by (auto simp: pop_def takeExpiredLocked_def split: if_splits list.splits)
  then show ?thesis using pop_length [OF assms] by simp
qed

lemma pool_step_works: "pool_step w w' \<Longrightarrow> work w' < work w"
  by (erule pool_stepE)
    (auto simp: work_def dest: takeExpired_length pop_length enter_work call_fields pop_PopDead)

text \<open>A world in which no goroutine is left.\<close>

definition finished :: "world \<Rightarrow> bool" where
  "finished w \<longleftrightarrow> w_jobs w = {#} \<and> w_idle w = 0"

lemma job_steps:
  assumes "w_jobs w = add_mset j js" "pl_closed (w_pool w)"
  shows "\<exists>w'. pool_step w w'"
proof (cases j)
  case (Submitting t)
  then show ?thesis using assms late in_time by (metis (no_types))
next
  case (Late t)
  then show ?thesis using assms late_expire by metis
next
  case (Checked t)
  then show ?thesis using assms collect by (metis surj_pair)
next
  case (Entering t)
  then show ?thesis using assms enters by (metis surj_pair)
next
  case (Waiting t until)
  then show ?thesis using assms wait_end by (metis surj_pair)
next
  case (Expiring t left)
  then show ?thesis using assms expires by (metis surj_pair)
next
  case (Shedding t)
  then show ?thesis using assms sheds by (metis surj_pair)
next
  case (Running t)
  then show ?thesis using assms handle by (metis surj_pair)
next
  case Busy
  then show ?thesis using assms handled by metis
qed

lemma idle_steps:
  assumes "w_idle w = Suc n" "pl_closed (w_pool w)"
  shows "\<exists>w'. pool_step w w'"
proof -
  obtain r dead p where pop: "pop (w_now w) (w_pool w) = (r, dead, p)" by (metis surj_pair)
  have "pl_closed p" using section_config(2) [OF pop] assms(2) by simp
  then have "(\<exists>t. r = Popped t) \<or> r = PopEnd"
    using pop by (auto simp: pop_def takeExpiredLocked_def split: list.splits if_splits)
  then show ?thesis using pop_task pop_end assms(1) pop by blast
qed

lemma closed_pool_steps:
  assumes "pl_closed (w_pool w)" "\<not> finished w"
  shows "\<exists>w'. pool_step w w'"
proof (cases "w_jobs w = {#}")
  case True
  then obtain n where "w_idle w = Suc n" using assms(2) by (cases "w_idle w") (auto simp: finished_def)
  then show ?thesis using idle_steps assms(1) by blast
next
  case False
  then show ?thesis using job_steps assms(1) by (metis multiset_nonemptyE multi_member_split)
qed

lemma closed_pool_finishes:
  "pl_closed (w_pool w) \<Longrightarrow> \<exists>w'. pool_step\<^sup>*\<^sup>* w w' \<and> finished w'"
proof (induction "work w" arbitrary: w rule: less_induct)
  case less
  show ?case
  proof (cases "finished w")
    case False
    then obtain w1 where step: "pool_step w w1" using closed_pool_steps less.prems by blast
    then obtain w2 where "pool_step\<^sup>*\<^sup>* w1 w2" "finished w2"
      using less.hyps [OF pool_step_works [OF step]] pool_step_config [OF step] less.prems by auto
    then show ?thesis using step converse_rtranclp_into_rtranclp by metis
  qed blast
qed

lemma steps_run: "pool_step\<^sup>*\<^sup>* w w' \<Longrightarrow> run p n w \<Longrightarrow> run p n w' \<and> w_submitted w' = w_submitted w \<and>
    pl_closed (w_pool w') = pl_closed (w_pool w)"
  by (induction rule: rtranclp_induct) (auto dest: run.pool pool_step_held pool_step_config)

lemma finished_handled:
  assumes "run p n w" "finished w" "pl_q p = []" "0 < n"
  shows "image_mset erase (mset (map fst (w_log w))) = w_submitted w"
proof -
  have "workers_ok n w" using run_workers [OF assms(1)] .
  then have "pl_q (w_pool w) = []" using assms(2,4) by (simp add: workers_ok_def finished_def)
  then show ?thesis using run_held [OF assms(1,3)] assms(2) by (simp add: held_def finished_def)
qed

section \<open>Properties\<close>

lemma New_pool_simps [simp]:
  "pl_q (New_pool d r m f) = []" "0 < pl_depth (New_pool d r m f)" "pl_Expired (New_pool d r m f) = 0"
  "pl_Shed (New_pool d r m f) = 0" "pl_minBudget (New_pool d r m f) = i64 (m * Millisecond)"
  "pl_full (New_pool d r m f) = (if f = '''' then FullDrop else f)"
  "pl_depth (New_pool d r m f) = max 1 d"
  by (simp_all add: New_pool_def max_def)

text \<open>
  C1: no submitted message is lost or handled twice, whatever the goroutines of the pool do in whichever
  order: every message is either with one goroutine, or once in the queue, or was given to the handler
  once; and the queue never holds more than its depth.
\<close>

theorem pool_keeps_every_task:
  assumes "run (New_pool depth reserveMS minBudgetMS full) workers w"
  shows "image_mset erase (tasks_in (w_jobs w) + mset (pl_q (w_pool w)) + mset (map fst (w_log w))) = w_submitted w \<and>
    int (length (pl_q (w_pool w))) \<le> max 1 depth"
  using run_held [OF assms] run_queue [OF assms] by (simp add: held_def)


text \<open>
  The counters of expired and of shed messages are the numbers of handler calls with that reason,
  modulo the width of the counters.
\<close>

theorem pool_counters_count:
  assumes "run (New_pool depth reserveMS minBudgetMS full) workers w"
  shows "pl_Expired (w_pool w) = of_nat (shed_for ReasonDeadlineExceeded (w_log w)) \<and>
    pl_Shed (w_pool w) = of_nat (shed_for ReasonQueueLimit (w_log w))"
  using run_counted [OF assms] by (simp add: counted_def)

text \<open>
  C2: closing the pool drains it: from any state of a closed pool its goroutines can finish, they cannot
  go on forever (each step has less work left), they are never stuck before the end, and at the end
  every message ever submitted was given to the handler exactly once.
\<close>

theorem closed_pool_drains:
  assumes "run (New_pool depth reserveMS minBudgetMS full) workers w" "pl_closed (w_pool w)" "0 < workers"
  shows "(\<exists>w'. pool_step\<^sup>*\<^sup>* w w' \<and> finished w') \<and>
    (\<forall>w' w''. pool_step w' w'' \<longrightarrow> work w'' < work w') \<and>
    (\<forall>w'. pool_step\<^sup>*\<^sup>* w w' \<and> \<not> (\<exists>w''. pool_step w' w'') \<longrightarrow>
       finished w' \<and> image_mset erase (mset (map fst (w_log w'))) = w_submitted w)"
proof -
  have "finished w' \<and> image_mset erase (mset (map fst (w_log w'))) = w_submitted w"
    if "pool_step\<^sup>*\<^sup>* w w'" "\<not> (\<exists>w''. pool_step w' w'')" for w'
  proof -
    have run: "run (New_pool depth reserveMS minBudgetMS full) workers w'" "w_submitted w' = w_submitted w"
      "pl_closed (w_pool w')"
      using steps_run [OF that(1) assms(1)] assms(2) by auto
    have fin: "finished w'" using closed_pool_steps run(3) that(2) by blast
    then show ?thesis using finished_handled [OF run(1) fin _ assms(3)] run(2) by simp
  qed
  then show ?thesis using closed_pool_finishes [OF assms(2)] pool_step_works by blast
qed

section \<open>A run\<close>

definition sample_pool :: Pool where
  "sample_pool = New_pool 4 10 5 ''''"

definition sample_task :: Task where
  "sample_task = \<lparr>tk_Req = sample_request, tk_Reply = ''_INBOX.1'', tk_Personal = False, tk_Fill = 0, tk_enqueued = 0\<rparr>"

abbreviation (input) sample_world :: "Pool \<Rightarrow> job multiset \<Rightarrow> nat \<Rightarrow> handler_call list \<Rightarrow> world" where
  "sample_world p js idle log \<equiv> \<lparr>w_pool = p, w_jobs = js, w_idle = idle, w_gone = 0, w_log = log, w_now = 0,
     w_submitted = {#sample_task#}\<rparr>"

definition queued_pool :: Pool where
  "queued_pool = sample_pool\<lparr>pl_q := [sample_task], pl_Accepted := 1\<rparr>"

definition popped_pool :: Pool where
  "popped_pool = sample_pool\<lparr>pl_Accepted := 1\<rparr>"

lemma sample_sections:
  "leftAt sample_pool sample_task 0 = 190 * Millisecond" "pl_minBudget sample_pool = 5 * Millisecond"
  "takeExpiredLocked 0 sample_pool = ([], sample_pool)"
  "enter 0 sample_task sample_pool = (None, queued_pool)"
  "pop 0 queued_pool = (Popped sample_task, [], popped_pool)"
  "budget 0 sample_task popped_pool = ((sample_task, 190 * Millisecond, ''''), popped_pool)"
  by code_simp+

lemma sample_run_queued: "run sample_pool 1 (sample_world queued_pool {#} 1 [])"
proof -
  have t: "sample_task = sample_task\<lparr>tk_enqueued := w_now (New_world sample_pool 1), tk_Fill := 0\<rparr>"
    by (simp add: New_world_def sample_task_def)
  have "run sample_pool 1 (sample_world sample_pool {#Submitting sample_task#} 1 [])"
    using env [OF start submit [OF t]] by (simp add: New_world_def)
  from pool [OF this in_time [where t = sample_task and js = "{#}"]]
  have "run sample_pool 1 (sample_world sample_pool {#Checked sample_task#} 1 [])"
    by (simp add: sample_sections)
  from pool [OF this collect [where t = sample_task and js = "{#}" and dead = "[]" and p = sample_pool]]
  have "run sample_pool 1 (sample_world sample_pool {#Entering sample_task#} 1 [])"
    by (simp add: sample_sections replyDead_def)
  from pool [OF this enters [where t = sample_task and js = "{#}" and j = None and p = queued_pool]]
  show ?thesis by (simp add: sample_sections jobs_of_def)
qed

lemma sample_run_handled:
  "run sample_pool 1 (sample_world popped_pool {#Busy#} 0 [(sample_task, 190 * Millisecond, '''')])"
proof -
  from pool [OF sample_run_queued pop_task [where n = 0 and t = sample_task and dead = "[]" and p = popped_pool]]
  have "run sample_pool 1 (sample_world popped_pool {#Running sample_task#} 0 [])"
    by (simp add: sample_sections replyDead_def)
  from pool [OF this handle [where t = sample_task and js = "{#}" and call = "(sample_task, 190 * Millisecond, '''')" and p = popped_pool]]
  show ?thesis by (simp add: sample_sections)
qed

theorem pool_keeps_every_task_witness:
  "\<exists>w. run sample_pool 1 w \<and> pl_q (w_pool w) = [sample_task] \<and>
     image_mset erase (mset (pl_q (w_pool w))) = w_submitted w"
  using pool_keeps_every_task [OF sample_run_queued [unfolded sample_pool_def]] sample_run_queued
  by (intro exI [of _ "sample_world queued_pool {#} 1 []"]) (simp add: queued_pool_def)


theorem pool_counters_count_witness:
  "\<exists>w. run sample_pool 1 w \<and> w_log w \<noteq> [] \<and> pl_Expired (w_pool w) = 0 \<and> pl_Shed (w_pool w) = 0"
  using pool_counters_count [OF sample_run_handled [unfolded sample_pool_def]] sample_run_handled
  by (intro exI [of _ "sample_world popped_pool {#Busy#} 0 [(sample_task, 190 * Millisecond, '''')]"])
    (simp add: shed_for_def)

theorem closed_pool_drains_witness:
  "\<exists>w w'. run sample_pool 1 w \<and> pl_closed (w_pool w) \<and> pl_q (w_pool w) = [sample_task] \<and>
     pool_step\<^sup>*\<^sup>* w w' \<and> finished w'"
proof -
  let ?w = "sample_world (Close_pool queued_pool) {#} 1 []"
  have run: "run sample_pool 1 ?w" using env [OF sample_run_queued close] by simp
  moreover have "pl_closed (w_pool ?w)" "pl_q (w_pool ?w) = [sample_task]"
    by (simp_all add: Close_pool_def queued_pool_def)
  ultimately show ?thesis using closed_pool_drains [OF run [unfolded sample_pool_def]] by auto
qed

end
