(* ===== verification/Mailbox.thy ===== *)
theory Mailbox
  imports Queue
begin

text \<open>
  What the worker pool of \<open>Queue\<close> promises, as an abstract service: a mailbox whose messages are handed to the
  handler once each, for a reason.  \<open>simulation\<close> is the way one transition system implements another; it is
  used here for the pool and in \<open>Service\<close> for the whole process.
\<close>

section \<open>Simulation\<close>

text \<open>
  A concrete system whose steps, in states that satisfy an invariant, are zero or more steps of an
  abstract one.
\<close>

locale simulation =
  fixes step :: "'c \<Rightarrow> 'c \<Rightarrow> bool" and inv :: "'c \<Rightarrow> bool" and abs :: "'c \<Rightarrow> 'a" and astep :: "'a \<Rightarrow> 'a \<Rightarrow> bool"
  assumes step_inv: "inv c \<Longrightarrow> step c c' \<Longrightarrow> inv c'"
    and step_sim: "inv b \<Longrightarrow> step b b' \<Longrightarrow> astep\<^sup>*\<^sup>* (abs b) (abs b')"
begin

lemma simulates: "step\<^sup>*\<^sup>* c c' \<Longrightarrow> inv c \<Longrightarrow> inv c' \<and> astep\<^sup>*\<^sup>* (abs c) (abs c')"
proof (induction rule: rtranclp_induct)
  case (step b b')
  then show ?case using step_inv step_sim [of b b'] by (meson rtranclp_trans)
qed simp

text \<open>What the abstract steps keep, the concrete system keeps.\<close>

lemma keeps:
  assumes "step\<^sup>*\<^sup>* c c'" "inv c" "P (abs c)" "\<And>a a'. P a \<Longrightarrow> astep a a' \<Longrightarrow> P a'"
  shows "P (abs c')"
proof -
  have "astep\<^sup>*\<^sup>* (abs c) (abs c')" using simulates [OF assms(1,2)] by blast
  then show ?thesis using assms(3,4) by (induction rule: rtranclp_induct) blast+
qed

end

section \<open>The mailbox\<close>

text \<open>
  \<open>mb_waiting\<close> holds the messages not handed over yet, without the fill the pool notes in them;
  \<open>mb_submitted\<close> all that were ever delivered.  The mailbox of a configuration \<open>p\<close> hands a waiting message over for
  inspection with the time it has left right now; it gives a message up for its deadline, or sheds it for the
  limit, only for the reasons of \<open>Queue\<close>.
\<close>

record mailbox =
  mb_waiting :: "Task multiset"
  mb_submitted :: "Task multiset"
  mb_calls :: "handler_call list"
  mb_now :: instant
  mb_closed :: bool

inductive mail_step :: "Pool \<Rightarrow> mailbox \<Rightarrow> mailbox \<Rightarrow> bool" for p where
  time: "mb_now m \<le> now \<Longrightarrow> mail_step p m (m\<lparr>mb_now := now\<rparr>)"
| shut: "mail_step p m (m\<lparr>mb_closed := True\<rparr>)"
| deliver: "tk_enqueued t = mb_now m \<Longrightarrow> tk_Fill t = 0 \<Longrightarrow>
    mail_step p m (m\<lparr>mb_waiting := add_mset t (mb_waiting m), mb_submitted := add_mset t (mb_submitted m)\<rparr>)"
| hand_over: "mb_waiting m = add_mset (erase t) ts \<Longrightarrow> fill_ok t \<Longrightarrow> left = leftAt p t (mb_now m) \<Longrightarrow> pl_minBudget p \<le> left \<Longrightarrow>
    mail_step p m (m\<lparr>mb_waiting := ts, mb_calls := mb_calls m @ [(t, left, '''')]\<rparr>)"
| give_up: "mb_waiting m = add_mset (erase t) ts \<Longrightarrow> fill_ok t \<Longrightarrow> left = 0 \<or> seen_left p (mb_now m) t left \<Longrightarrow>
    mb_closed m \<or> out_of_time p (mb_now m) t \<or> waited_out p (mb_now m) t \<Longrightarrow>
    mail_step p m (m\<lparr>mb_waiting := ts, mb_calls := mb_calls m @ [(t, left, ReasonDeadlineExceeded)]\<rparr>)"
| turn_away: "mb_waiting m = add_mset (erase t) ts \<Longrightarrow> tk_Fill t = 100 \<Longrightarrow> pl_full p \<noteq> FullWait \<Longrightarrow>
    pl_depth p < int (size (mb_submitted m)) \<Longrightarrow>
    mail_step p m (m\<lparr>mb_waiting := ts, mb_calls := mb_calls m @ [(t, 0, ReasonQueueLimit)]\<rparr>)"

definition empty_mailbox :: mailbox where
  "empty_mailbox = \<lparr>mb_waiting = {#}, mb_submitted = {#}, mb_calls = [], mb_now = 0, mb_closed = False\<rparr>"

text \<open>Every message delivered is waiting or was handed over, once.\<close>

lemma mail_conserves:
  "mail_step p m m' \<Longrightarrow> image_mset erase (mset (map fst (mb_calls m))) + mb_waiting m = mb_submitted m \<Longrightarrow>
     image_mset erase (mset (map fst (mb_calls m'))) + mb_waiting m' = mb_submitted m'"
  by (cases rule: mail_step.cases) auto

definition waiting :: "world \<Rightarrow> Task multiset" where
  "waiting w = image_mset erase (tasks_in (w_jobs w) + mset (pl_q (w_pool w)))"

definition mail_of :: "world \<Rightarrow> mailbox" where
  "mail_of w = \<lparr>mb_waiting = waiting w, mb_submitted = w_submitted w, mb_calls = w_log w, mb_now = w_now w,
     mb_closed = pl_closed (w_pool w)\<rparr>"

definition world_step :: "world \<Rightarrow> world \<Rightarrow> bool" where
  "world_step w w' \<longleftrightarrow> pool_step w w' \<or> env_step w w'"

definition pool_inv :: "Pool \<Rightarrow> nat \<Rightarrow> world \<Rightarrow> bool" where
  "pool_inv p n w \<longleftrightarrow> run p n w \<and> pl_q p = [] \<and> 0 < pl_depth p"

lemma pool_step_log: "pool_step w w' \<Longrightarrow> w_log w' = w_log w \<or> (\<exists>call. w_log w' = w_log w @ [call])"
  by (erule pool_stepE) auto

lemma pool_step_waiting:
  assumes "pool_step w w'"
  shows "w_log w' = w_log w \<Longrightarrow> waiting w' = waiting w"
    and "w_log w' = w_log w @ [call] \<Longrightarrow> waiting w = add_mset (erase (fst call)) (waiting w')"
  using pool_step_held [OF assms] by (auto simp: held_def waiting_def ac_simps)

lemma env_step_mail:
  assumes "env_step w w'"
  shows "(mail_step p)\<^sup>*\<^sup>* (mail_of w) (mail_of w')"
  using assms
proof cases
  case (tick now)
  then show ?thesis using time [of "mail_of w" now p] by (auto simp: mail_of_def waiting_def)
next
  case (submit t t0)
  then show ?thesis using deliver [of t "mail_of w" p] by (auto simp: mail_of_def waiting_def erase_def)
next
  case close
  then show ?thesis using shut [of p "mail_of w"] by (auto simp: mail_of_def waiting_def Close_pool_def)
qed

text \<open>A call a step of the pool makes is one the mailbox may make at that moment.\<close>

lemma same_reasons:
  assumes "same_config p p'"
  shows "out_of_time p' now t = out_of_time p now t" "waited_out p' now t = waited_out p now t" "seen_left p' now t left = seen_left p now t left"
  using assms same_leftAt [OF assms]
  by (simp_all add: out_of_time_def waited_out_def waits_until_def seen_left_def same_config_def)

lemma pool_step_left: "pool_step w w' \<Longrightarrow> w_log w' = w_log w @ [(t, left, '''')] \<Longrightarrow> left = leftAt (w_pool w) t (w_now w)"
  by (erule pool_stepE) (auto simp: budget_def expire_def shedLimit_def Let_def split: if_splits)

lemma pool_step_call:
  assumes "pool_inv p n w" "pool_step w w'" "w_log w' = w_log w @ [(t, left, shed)]"
  shows "mail_step p (mail_of w) (mail_of w')"
proof -
  have run: "run p n w" "pl_q p = []" "0 < pl_depth p" using assms(1) by (auto simp: pool_inv_def)
  note config = run_config [OF run(1)] and keeps = section_later [OF assms(2)]
  have depth: "pl_depth (w_pool w) = pl_depth p" "pl_full (w_pool w) = pl_full p" "pl_minBudget (w_pool w) = pl_minBudget p"
    using config by (auto simp: same_config_def)
  have "step_ok w w'" using pool_step_ok [OF assms(2) run_calls [OF run] _ run_held [OF run(1,2)]] run(3) depth by simp
  then have ok: "call_ok (w_pool w) (w_now w) (size (w_submitted w)) (t, left, shed)" using assms(3) by (simp add: step_ok_def)
  have wait: "mb_waiting (mail_of w) = add_mset (erase t) (waiting w')"
    using pool_step_waiting(2) [OF assms(2,3)] by (simp add: mail_of_def)
  have closed: "pl_closed (w_pool w') = pl_closed (w_pool w)" using pool_step_config [OF assms(2)] by simp
  have after: "mail_of w' = (mail_of w)\<lparr>mb_waiting := waiting w', mb_calls := mb_calls (mail_of w) @ [(t, left, shed)]\<rparr>"
    using keeps assms(3) closed by (simp add: mail_of_def)
  consider "shed = ''''" | "shed = ReasonDeadlineExceeded" | "shed = ReasonQueueLimit" using ok by (auto simp: call_ok_def)
  then show ?thesis
  proof cases
    case 1
    then show ?thesis unfolding after using hand_over [OF wait, of left p] ok pool_step_left [OF assms(2)] assms(3) depth same_leftAt [OF config]
      by (simp add: call_ok_def mail_of_def)
  next
    case 2
    then show ?thesis unfolding after using give_up [OF wait, of left p] ok same_reasons [OF config]
      by (simp add: call_ok_def may_expire_def mail_of_def)
  next
    case 3
    then show ?thesis unfolding after using turn_away [OF wait, of p] ok depth by (simp add: call_ok_def mail_of_def)
  qed
qed

interpretation mail: simulation world_step "pool_inv p n" mail_of "mail_step p" for p n
proof
  fix w w' assume inv: "pool_inv p n w" and step: "world_step w w'"
  then show "pool_inv p n w'" by (auto simp: pool_inv_def world_step_def intro: run.intros)
next
  fix w w' assume inv: "pool_inv p n w" and step: "world_step w w'"
  consider (env) "env_step w w'" | (quiet) "pool_step w w'" "w_log w' = w_log w"
    | (call) t left shed where "pool_step w w'" "w_log w' = w_log w @ [(t, left, shed)]"
    using step pool_step_log [of w w'] unfolding world_step_def by (metis surj_pair)
  then show "(mail_step p)\<^sup>*\<^sup>* (mail_of w) (mail_of w')"
  proof cases
    case quiet
    then show ?thesis using pool_step_waiting(1) [OF quiet] section_later [OF quiet(1)] pool_step_config [OF quiet(1)]
      by (simp add: mail_of_def)
  qed (use env_step_mail pool_step_call [OF inv] in blast)+
qed

text \<open>Steps of the pool and its world in any number make up a run.\<close>

lemma run_steps: "run p n w \<Longrightarrow> world_step\<^sup>*\<^sup>* (New_world p n) w"
  by (induction rule: run.induct) (auto simp: world_step_def intro: rtranclp.rtrancl_into_rtrancl)

text \<open>
  C4: the worker pool implements a mailbox.  Whatever its goroutines do, in whichever order, a user of the pool
  can tell no more than this: a message submitted now is delivered now, and every message delivered is handed over
  at most once, for inspection with exactly the time it has left at that moment and at least the minimal budget, or
  given up for its deadline or shed for the limit for the reasons the mailbox names.  The messages delivered,
  the calls of the handler, the clock and the closing are those of the pool; critical sections, the queue, waiting
  submitters and sweeps are steps the mailbox does not see.
\<close>

theorem pool_refines_mailbox:
  assumes "run (New_pool depth reserveMS minBudgetMS full) workers w"
  shows "(mail_step (New_pool depth reserveMS minBudgetMS full))\<^sup>*\<^sup>* empty_mailbox
    \<lparr>mb_waiting = image_mset erase (tasks_in (w_jobs w) + mset (pl_q (w_pool w))), mb_submitted = w_submitted w,
     mb_calls = w_log w, mb_now = w_now w, mb_closed = pl_closed (w_pool w)\<rparr>"
proof -
  let ?p = "New_pool depth reserveMS minBudgetMS full"
  have "pool_inv ?p workers (New_world ?p workers)" by (simp add: pool_inv_def run.start)
  from mail.simulates [OF run_steps [OF assms] this] show ?thesis
    by (simp add: mail_of_def waiting_def New_world_def empty_mailbox_def New_pool_def)
qed

theorem pool_refines_mailbox_witness:
  "\<exists>w. run sample_pool 1 w \<and> w_log w = [(sample_task, 190 * Millisecond, '''')] \<and>
     (mail_step sample_pool)\<^sup>*\<^sup>* empty_mailbox
       \<lparr>mb_waiting = {#}, mb_submitted = {#sample_task#}, mb_calls = w_log w, mb_now = 0, mb_closed = False\<rparr>"
  using pool_refines_mailbox [OF sample_run_handled [unfolded sample_pool_def]] sample_run_handled
  by (intro exI [of _ "sample_world popped_pool {#Busy#} 0 [(sample_task, 190 * Millisecond, '''')]"])
    (simp add: sample_pool_def popped_pool_def New_pool_def)

end
