(* ===== verification/Sticky.thy ===== *)
theory Sticky
  imports Go_Prelude "HOL-Library.Multiset"
begin

text \<open>
  The registry of transactions kept between the request and the response phase,
  \<^verbatim>\<open>internal/sticky/sticky.go\<close>.  Every method runs in one critical section, and discards what it
  removed after it; so a method is a function from the registry to its result, the states it discards
  and the registry it leaves.  The Go map is an association list with distinct keys, in whose order the
  loops over the map run.  \<open>sticky_run\<close> is any sequence of calls.  The locale \<open>ticket_store\<close> is what the
  handlers rely on: a parked state is there until it is taken, dropped or out of time.
\<close>

section \<open>The registry\<close>

record 'a sticky_item =
  si_live :: 'a
  si_expires :: instant

record 'a Sticky =
  rg_max :: int
  rg_ttl :: duration
  rg_items :: "(string \<times> 'a sticky_item) list"
  rg_Parked :: u64
  rg_Taken :: u64
  rg_Expired :: u64
  rg_Refused :: u64

definition New_sticky :: "int \<Rightarrow> duration \<Rightarrow> 'a Sticky" where
  "New_sticky m ttl = \<lparr>rg_max = m, rg_ttl = ttl, rg_items = [], rg_Parked = 0, rg_Taken = 0, rg_Expired = 0, rg_Refused = 0\<rparr>"

definition without :: "string \<Rightarrow> (string \<times> 'b) list \<Rightarrow> (string \<times> 'b) list" where
  "without rid items = filter (\<lambda>p. fst p \<noteq> rid) items"

definition expired :: "instant \<Rightarrow> 'a Sticky \<Rightarrow> 'a list \<times> 'a Sticky" where
  "expired now r =
     (let dead = map (\<lambda>p. si_live (snd p)) (filter (\<lambda>p. now > si_expires (snd p)) (rg_items r))
      in (dead, r\<lparr>rg_items := filter (\<lambda>p. \<not> now > si_expires (snd p)) (rg_items r),
                  rg_Expired := rg_Expired r + of_nat (length dead)\<rparr>))"

definition Park :: "instant \<Rightarrow> string \<Rightarrow> 'a \<Rightarrow> 'a Sticky \<Rightarrow> bool \<times> 'a list \<times> 'a Sticky" where
  "Park now rid live r = (case expired now r of (dead, r1) \<Rightarrow>
     if int (length (rg_items r1)) \<ge> rg_max r1 then (False, dead, r1\<lparr>rg_Refused := rg_Refused r1 + 1\<rparr>)
     else (let dead' = (case map_of (rg_items r1) rid of Some it \<Rightarrow> dead @ [si_live it] | None \<Rightarrow> dead)
           in (True, dead',
               r1\<lparr>rg_items := (rid, \<lparr>si_live = live, si_expires = now + rg_ttl r1\<rparr>) # without rid (rg_items r1),
                  rg_Parked := rg_Parked r1 + 1\<rparr>)))"

definition Take :: "instant \<Rightarrow> string \<Rightarrow> 'a Sticky \<Rightarrow> 'a option \<times> 'a list \<times> 'a Sticky" where
  "Take now rid r = (case map_of (rg_items r) rid of
     None \<Rightarrow> (None, [], r)
   | Some it \<Rightarrow>
       (let r1 = r\<lparr>rg_items := without rid (rg_items r)\<rparr>
        in if now > si_expires it then (None, [si_live it], r1\<lparr>rg_Expired := rg_Expired r1 + 1\<rparr>)
           else (Some (si_live it), [], r1\<lparr>rg_Taken := rg_Taken r1 + 1\<rparr>)))"

definition Drop :: "string \<Rightarrow> 'a Sticky \<Rightarrow> 'a list \<times> 'a Sticky" where
  "Drop rid r = (case map_of (rg_items r) rid of
     None \<Rightarrow> ([], r)
   | Some it \<Rightarrow> ([si_live it], r\<lparr>rg_items := without rid (rg_items r)\<rparr>))"

definition Sweep :: "instant \<Rightarrow> 'a Sticky \<Rightarrow> 'a list \<times> 'a Sticky" where
  "Sweep now r = expired now r"

definition Close_sticky :: "'a Sticky \<Rightarrow> 'a list \<times> 'a Sticky" where
  "Close_sticky r = (map (\<lambda>p. si_live (snd p)) (rg_items r), r\<lparr>rg_items := []\<rparr>)"

text \<open>\<open>Run\<close>: the loop sweeps at every tick and closes when it is done; its ticker's period.\<close>

definition sweep_step :: "duration \<Rightarrow> duration" where
  "sweep_step ttl = (let step = (if ttl < 0 then - ((- ttl) div 4) else ttl div 4)
     in if step < Second then Second else step)"

definition Run_event :: "bool \<Rightarrow> instant \<Rightarrow> 'a Sticky \<Rightarrow> 'a list \<times> 'a Sticky" where
  "Run_event done' now r = (if done' then Close_sticky r else Sweep now r)"

record Stats =
  ss_Parked :: u64
  ss_Taken :: u64
  ss_Expired :: u64
  ss_Refused :: u64
  ss_Live :: nat

definition Stats_of :: "'a Sticky \<Rightarrow> Stats" where
  "Stats_of r = \<lparr>ss_Parked = rg_Parked r, ss_Taken = rg_Taken r, ss_Expired = rg_Expired r,
     ss_Refused = rg_Refused r, ss_Live = length (rg_items r)\<rparr>"

section \<open>What a registry holds\<close>

definition states :: "'a Sticky \<Rightarrow> 'a multiset" where
  "states r = mset (map (\<lambda>p. si_live (snd p)) (rg_items r))"

definition sticky_ok :: "'a Sticky \<Rightarrow> bool" where
  "sticky_ok r \<longleftrightarrow> distinct (map fst (rg_items r)) \<and> int (length (rg_items r)) \<le> max 0 (rg_max r)"

text \<open>The state parked under a token that a \<open>Take\<close> at that time would find.\<close>

definition held_at :: "instant \<Rightarrow> string \<Rightarrow> 'a Sticky \<Rightarrow> 'a option" where
  "held_at t rid r = (case map_of (rg_items r) rid of
     Some it \<Rightarrow> if t > si_expires it then None else Some (si_live it) | None \<Rightarrow> None)"

lemma map_of_without: "map_of (without rid items) k = (if k = rid then None else map_of items k)"
  by (induction items) (auto simp: without_def)

lemma distinct_filter_keys: "distinct (map fst items) \<Longrightarrow> distinct (map fst (filter P items))"
  by (induction items) auto

lemma without_split:
  "distinct (map fst items) \<Longrightarrow> map_of items rid = Some v \<Longrightarrow>
     mset items = add_mset (rid, v) (mset (without rid items)) \<and> length items = Suc (length (without rid items))"
proof (induction items)
  case (Cons p items)
  show ?case
  proof (cases "fst p = rid")
    case True
    then have "rid \<notin> fst ` set items" using Cons.prems(1) by simp
    then have "filter (\<lambda>p. fst p \<noteq> rid) items = items" by (induction items) auto
    then show ?thesis using True Cons.prems by (cases p) (simp add: without_def)
  next
    case False
    then show ?thesis using Cons by (cases p) (auto simp: without_def)
  qed
qed simp

lemma without_absent: "map_of items rid = None \<Longrightarrow> without rid items = items"
  by (auto simp: without_def map_of_eq_None_iff image_iff intro!: filter_True)

lemma map_of_filter_distinct:
  "distinct (map fst items) \<Longrightarrow> map_of (filter (\<lambda>p. P (snd p)) items) k =
     (case map_of items k of Some v \<Rightarrow> if P v then Some v else None | None \<Rightarrow> None)"
  by (induction items) (auto split: option.splits simp: map_of_eq_None_iff dest: map_of_SomeD)

lemma expired_effect:
  assumes "sticky_ok r" "expired now r = (dead, r')"
  shows "sticky_ok r'" "states r = mset dead + states r'" "rg_max r' = rg_max r" "rg_ttl r' = rg_ttl r"
    and "map_of (rg_items r') k = (case map_of (rg_items r) k of
      Some it \<Rightarrow> if now > si_expires it then None else Some it | None \<Rightarrow> None)"
proof -
  have r': "r' = r\<lparr>rg_items := filter (\<lambda>p. \<not> now > si_expires (snd p)) (rg_items r),
      rg_Expired := rg_Expired r + of_nat (length dead)\<rparr>"
    and dead: "dead = map (\<lambda>p. si_live (snd p)) (filter (\<lambda>p. now > si_expires (snd p)) (rg_items r))"
    using assms(2) by (auto simp: expired_def Let_def)
  have "length (filter (\<lambda>p. \<not> now > si_expires (snd p)) (rg_items r)) \<le> length (rg_items r)" by simp
  then have "int (length (filter (\<lambda>p. \<not> now > si_expires (snd p)) (rg_items r))) \<le> max 0 (rg_max r)"
    using assms(1) unfolding sticky_ok_def by linarith
  then show "sticky_ok r'" using assms(1) by (simp add: sticky_ok_def r' distinct_filter_keys)
  show "states r = mset dead + states r'"
    using multiset_partition [of "mset (rg_items r)" "\<lambda>p. now > si_expires (snd p)"]
    by (simp add: states_def r' dead flip: image_mset_union)
  show "rg_max r' = rg_max r" "rg_ttl r' = rg_ttl r" by (simp_all add: r')
  show "map_of (rg_items r') k = (case map_of (rg_items r) k of
      Some it \<Rightarrow> if now > si_expires it then None else Some it | None \<Rightarrow> None)"
    using assms(1) map_of_filter_distinct [of "rg_items r" "\<lambda>it. \<not> now > si_expires it" k]
    by (auto simp: r' sticky_ok_def split: option.splits)
qed

lemma Take_effect:
  assumes "sticky_ok r" "Take now rid r = (x, dead, r')"
  shows "sticky_ok r'" "states r = mset dead + states r' + (case x of Some live \<Rightarrow> {#live#} | None \<Rightarrow> {#})"
    "rg_max r' = rg_max r" "rg_ttl r' = rg_ttl r" "x = held_at now rid r"
    "map_of (rg_items r') k = (if k = rid then None else map_of (rg_items r) k)"
proof -
  have ok: "distinct (map fst (rg_items r))" using assms(1) by (simp add: sticky_ok_def)
  show "x = held_at now rid r" "rg_max r' = rg_max r" "rg_ttl r' = rg_ttl r"
    "map_of (rg_items r') k = (if k = rid then None else map_of (rg_items r) k)"
    using assms(2) by (auto simp: Take_def held_at_def map_of_without Let_def split: option.splits if_splits)
  show "sticky_ok r'"
    using assms ok without_split [OF ok, of rid]
    by (auto simp: Take_def sticky_ok_def Let_def without_def distinct_filter_keys split: option.splits if_splits)
  show "states r = mset dead + states r' + (case x of Some live \<Rightarrow> {#live#} | None \<Rightarrow> {#})"
    using assms(2) without_split [OF ok, of rid]
    by (auto simp: Take_def states_def Let_def split: option.splits if_splits)
qed

lemma Drop_effect:
  assumes "sticky_ok r" "Drop rid r = (dead, r')"
  shows "sticky_ok r'" "states r = mset dead + states r'" "rg_max r' = rg_max r" "rg_ttl r' = rg_ttl r"
    "map_of (rg_items r') k = (if k = rid then None else map_of (rg_items r) k)"
proof -
  have ok: "distinct (map fst (rg_items r))" using assms(1) by (simp add: sticky_ok_def)
  show "rg_max r' = rg_max r" "rg_ttl r' = rg_ttl r"
    "map_of (rg_items r') k = (if k = rid then None else map_of (rg_items r) k)"
    using assms(2) by (auto simp: Drop_def map_of_without split: option.splits if_splits)
  show "sticky_ok r'"
    using assms ok without_split [OF ok, of rid]
    by (auto simp: Drop_def sticky_ok_def without_def distinct_filter_keys split: option.splits)
  show "states r = mset dead + states r'"
    using assms(2) without_split [OF ok, of rid]
    by (auto simp: Drop_def states_def split: option.splits)
qed

lemma Park_effect:
  assumes "sticky_ok r" "Park now rid live r = (ok, dead, r')"
  shows "sticky_ok r'" "(if ok then {#live#} else {#}) + states r = mset dead + states r'"
    "rg_max r' = rg_max r" "rg_ttl r' = rg_ttl r"
    "map_of (rg_items r') k = (if ok \<and> k = rid then Some \<lparr>si_live = live, si_expires = now + rg_ttl r\<rparr>
      else case map_of (rg_items r) k of
        Some it \<Rightarrow> if now > si_expires it then None else Some it | None \<Rightarrow> None)"
proof -
  obtain d1 r1 where e: "expired now r = (d1, r1)" by fastforce
  note ex = expired_effect [OF assms(1) e]
  have ok1: "distinct (map fst (rg_items r1))" using ex(1) by (simp add: sticky_ok_def)
  show "rg_max r' = rg_max r" "rg_ttl r' = rg_ttl r"
    using assms(2) ex(3,4) by (auto simp: Park_def e Let_def split: if_splits)
  show "map_of (rg_items r') k = (if ok \<and> k = rid then Some \<lparr>si_live = live, si_expires = now + rg_ttl r\<rparr>
      else case map_of (rg_items r) k of
        Some it \<Rightarrow> if now > si_expires it then None else Some it | None \<Rightarrow> None)"
    using assms(2) ex(4,5) by (auto simp: Park_def e Let_def map_of_without split: if_splits)
  have keys: "distinct (map fst ((rid, it) # without rid (rg_items r1)))" for it
    using ok1 by (auto simp: without_def distinct_filter_keys)
  have "length (without rid (rg_items r1)) \<le> length (rg_items r1)" by (simp add: without_def)
  then show "sticky_ok r'"
    using assms(2) ex(1) keys by (auto simp: Park_def e Let_def sticky_ok_def split: if_splits)
  show "(if ok then {#live#} else {#}) + states r = mset dead + states r'"
    using assms(2) ex(2) without_split [OF ok1, of rid] without_absent [of "rg_items r1" rid]
    by (auto simp: Park_def e Let_def states_def split: if_splits option.splits)
qed

section \<open>Calls in any order\<close>

datatype 'a sticky_op = OpPark instant string 'a | OpTake instant string | OpDrop string | OpSweep instant

text \<open>What a call hands to the caller, what it discards, and the registry after it.\<close>

definition exec_with :: "(instant \<Rightarrow> string \<Rightarrow> 'a \<Rightarrow> 'r \<Rightarrow> bool \<times> 'a list \<times> 'r) \<Rightarrow>
    (instant \<Rightarrow> string \<Rightarrow> 'r \<Rightarrow> 'a option \<times> 'a list \<times> 'r) \<Rightarrow> (string \<Rightarrow> 'r \<Rightarrow> 'a list \<times> 'r) \<Rightarrow>
    (instant \<Rightarrow> 'r \<Rightarrow> 'a list \<times> 'r) \<Rightarrow> 'a sticky_op \<Rightarrow> 'r \<Rightarrow> 'r" where
  "exec_with park take' drop' sweep op r = (case op of
     OpPark now rid x \<Rightarrow> snd (snd (park now rid x r))
   | OpTake now rid \<Rightarrow> snd (snd (take' now rid r))
   | OpDrop rid \<Rightarrow> snd (drop' rid r)
   | OpSweep now \<Rightarrow> snd (sweep now r))"

text \<open>A call that does not name the token and happens no later than the given time.\<close>

fun elsewhere :: "string \<Rightarrow> instant \<Rightarrow> 'a sticky_op \<Rightarrow> bool" where
  "elsewhere rid t (OpPark now k _) \<longleftrightarrow> k \<noteq> rid \<and> now \<le> t"
| "elsewhere rid t (OpTake now k) \<longleftrightarrow> k \<noteq> rid \<and> now \<le> t"
| "elsewhere rid t (OpDrop k) \<longleftrightarrow> k \<noteq> rid"
| "elsewhere rid t (OpSweep now) \<longleftrightarrow> now \<le> t"

locale ticket_store =
  fixes wf :: "'r \<Rightarrow> bool"
    and lifetime :: "'r \<Rightarrow> duration"
    and lookup :: "instant \<Rightarrow> string \<Rightarrow> 'r \<Rightarrow> 'a option"
    and park :: "instant \<Rightarrow> string \<Rightarrow> 'a \<Rightarrow> 'r \<Rightarrow> bool \<times> 'a list \<times> 'r"
    and take_ticket :: "instant \<Rightarrow> string \<Rightarrow> 'r \<Rightarrow> 'a option \<times> 'a list \<times> 'r"
    and drop_ticket :: "string \<Rightarrow> 'r \<Rightarrow> 'a list \<times> 'r"
    and sweep :: "instant \<Rightarrow> 'r \<Rightarrow> 'a list \<times> 'r"
  assumes park_wf: "wf r \<Longrightarrow> wf (snd (snd (park now rid x r)))"
    and take_wf: "wf r \<Longrightarrow> wf (snd (snd (take_ticket now rid r)))"
    and drop_wf: "wf r \<Longrightarrow> wf (snd (drop_ticket rid r))"
    and sweep_wf: "wf r \<Longrightarrow> wf (snd (sweep now r))"
    and park_finds: "wf r \<Longrightarrow> fst (park now rid x r) \<Longrightarrow> t \<le> now + lifetime r \<Longrightarrow>
      lookup t rid (snd (snd (park now rid x r))) = Some x"
    and park_else: "wf r \<Longrightarrow> k \<noteq> rid \<Longrightarrow> now \<le> t \<Longrightarrow> lookup t k (snd (snd (park now rid x r))) = lookup t k r"
    and take_finds: "wf r \<Longrightarrow> fst (take_ticket now rid r) = lookup now rid r"
    and take_once: "wf r \<Longrightarrow> lookup t rid (snd (snd (take_ticket now rid r))) = None"
    and take_else: "wf r \<Longrightarrow> k \<noteq> rid \<Longrightarrow> lookup t k (snd (snd (take_ticket now rid r))) = lookup t k r"
    and drop_gone: "wf r \<Longrightarrow> lookup t rid (snd (drop_ticket rid r)) = None"
    and drop_else: "wf r \<Longrightarrow> k \<noteq> rid \<Longrightarrow> lookup t k (snd (drop_ticket rid r)) = lookup t k r"
    and sweep_keeps: "wf r \<Longrightarrow> now \<le> t \<Longrightarrow> lookup t k (snd (sweep now r)) = lookup t k r"
begin

abbreviation exec :: "'a sticky_op \<Rightarrow> 'r \<Rightarrow> 'r" where
  "exec \<equiv> exec_with park take_ticket drop_ticket sweep"

lemma exec_wf: "wf r \<Longrightarrow> wf (exec op r)"
  by (cases op) (simp_all add: exec_with_def park_wf take_wf drop_wf sweep_wf)

lemma exec_else: "wf r \<Longrightarrow> elsewhere rid t op \<Longrightarrow> lookup t rid (exec op r) = lookup t rid r"
  by (cases op) (auto simp: exec_with_def park_else take_else drop_else sweep_keeps)

lemma fold_else:
  "wf r \<Longrightarrow> list_all (elsewhere rid t) ops \<Longrightarrow> wf (fold exec ops r) \<and> lookup t rid (fold exec ops r) = lookup t rid r"
  by (induction ops arbitrary: r) (simp_all add: exec_wf exec_else)

lemma kept_until_taken:
  assumes "wf r" "park now rid x r = (True, discarded, r1)" "t \<le> now + lifetime r" "list_all (elsewhere rid t) ops"
  shows "fst (take_ticket t rid (fold exec ops r1)) = Some x"
    and "fst (take_ticket t' rid (snd (snd (take_ticket t rid (fold exec ops r1))))) = None"
proof -
  have r1: "wf r1" using park_wf [OF assms(1), of now rid x] assms(2) by simp
  have "lookup t rid r1 = Some x" using park_finds [OF assms(1), of now rid x t] assms(2,3) by simp
  moreover note fold_else [OF r1 assms(4)]
  ultimately show "fst (take_ticket t rid (fold exec ops r1)) = Some x"
    "fst (take_ticket t' rid (snd (snd (take_ticket t rid (fold exec ops r1))))) = None"
    by (simp_all add: take_finds take_wf take_once)
qed

end

lemma held_at_expired:
  "sticky_ok r \<Longrightarrow> now \<le> t \<Longrightarrow> held_at t k (snd (expired now r)) = held_at t k r"
  using expired_effect(5) [of r now "fst (expired now r)" "snd (expired now r)" k]
  by (auto simp: held_at_def split: option.splits)

interpretation reg: ticket_store sticky_ok rg_ttl held_at Park Take Drop Sweep
proof
  fix r :: "'a Sticky" and now t :: instant and rid k :: string and x :: 'a
  assume ok: "sticky_ok r"
  obtain pk pd pr where p: "Park now rid x r = (pk, pd, pr)" by (metis surj_pair)
  obtain tk td tr where tk: "Take now rid r = (tk, td, tr)" by (metis surj_pair)
  obtain dd dr where d: "Drop rid r = (dd, dr)" by fastforce
  note park = Park_effect [OF ok p] and tak = Take_effect [OF ok tk] and drp = Drop_effect [OF ok d]
  show "sticky_ok (snd (snd (Park now rid x r)))" using park(1) p by simp
  show "sticky_ok (snd (snd (Take now rid r)))" using tak(1) tk by simp
  show "sticky_ok (snd (Drop rid r))" using drp(1) d by simp
  show "sticky_ok (snd (Sweep now r))" using expired_effect(1) [OF ok, of now] by (metis Sweep_def prod.collapse)
  show "held_at t rid (snd (snd (Park now rid x r))) = Some x" if "fst (Park now rid x r)" "t \<le> now + rg_ttl r"
    using park(5) [of rid] p that by (simp add: held_at_def)
  show "held_at t k (snd (snd (Park now rid x r))) = held_at t k r" if "k \<noteq> rid" "now \<le> t"
    using park(5) [of k] p that by (auto simp: held_at_def split: option.splits)
  show "fst (Take now rid r) = held_at now rid r" using tak(5) tk by simp
  show "held_at t rid (snd (snd (Take now rid r))) = None" using tak(6) [of rid] tk by (simp add: held_at_def)
  show "held_at t k (snd (snd (Take now rid r))) = held_at t k r" if "k \<noteq> rid"
    using tak(6) [of k] tk that by (simp add: held_at_def)
  show "held_at t rid (snd (Drop rid r)) = None" using drp(5) [of rid] d by (simp add: held_at_def)
  show "held_at t k (snd (Drop rid r)) = held_at t k r" if "k \<noteq> rid"
    using drp(5) [of k] d that by (simp add: held_at_def)
  show "held_at t k (snd (Sweep now r)) = held_at t k r" if "now \<le> t"
    using held_at_expired [OF ok that] by (simp add: Sweep_def)
qed

section \<open>Properties\<close>

text \<open>
  C17: a state that was parked is found under its token as long as its lifetime lasts, whatever is done
  under other tokens meanwhile (parked, taken, dropped, swept), and it is found once: a second attempt
  to take it finds nothing.
\<close>

theorem parked_state_is_found_once:
  assumes "sticky_ok r" "Park now rid live r = (True, discarded, r1)" "t \<le> now + rg_ttl r"
    and "list_all (elsewhere rid t) ops"
  shows "(let r2 = fold (exec_with Park Take Drop Sweep) ops r1 in
    fst (Take t rid r2) = Some live \<and> fst (Take t' rid (snd (snd (Take t rid r2)))) = None)"
  using reg.kept_until_taken [OF assms] by (simp add: Let_def)

theorem parked_state_is_found_once_witness:
  "let r1 = snd (snd (Park 0 ''a'' (7::nat) (New_sticky 2 100)));
       r2 = fold (exec_with Park Take Drop Sweep) [OpPark 10 ''b'' 8, OpSweep 90, OpDrop ''b''] r1
   in fst (Take 95 ''a'' r2) = Some 7"
proof -
  let ?r0 = "New_sticky 2 100 :: nat Sticky"
  have ok: "sticky_ok ?r0" by (simp add: sticky_ok_def New_sticky_def)
  have "fst (Park 0 ''a'' (7::nat) ?r0)" by code_simp
  then have park: "Park 0 ''a'' 7 ?r0 = (True, fst (snd (Park 0 ''a'' 7 ?r0)), snd (snd (Park 0 ''a'' 7 ?r0)))"
    by (metis (full_types) prod.collapse)
  have "95 \<le> 0 + rg_ttl ?r0" by (simp add: New_sticky_def)
  from parked_state_is_found_once [OF ok park this, of "[OpPark 10 ''b'' 8, OpSweep 90, OpDrop ''b'']" 0]
  show ?thesis by (simp add: Let_def)
qed

text \<open>
  Runs of a registry, with the states accepted so far, those handed back and those discarded.
\<close>

inductive sticky_run :: "int \<Rightarrow> duration \<Rightarrow> 'a Sticky \<Rightarrow> 'a multiset \<Rightarrow> 'a multiset \<Rightarrow> 'a multiset \<Rightarrow> bool"
  for m ttl where
  start: "sticky_run m ttl (New_sticky m ttl) {#} {#} {#}"
| park: "sticky_run m ttl r given back gone \<Longrightarrow> Park now rid live r = (ok, dead, r') \<Longrightarrow>
    sticky_run m ttl r' (given + (if ok then {#live#} else {#})) back (gone + mset dead)"
| take: "sticky_run m ttl r given back gone \<Longrightarrow> Take now rid r = (x, dead, r') \<Longrightarrow>
    sticky_run m ttl r' given (back + (case x of Some live \<Rightarrow> {#live#} | None \<Rightarrow> {#})) (gone + mset dead)"
| drop: "sticky_run m ttl r given back gone \<Longrightarrow> Drop rid r = (dead, r') \<Longrightarrow>
    sticky_run m ttl r' given back (gone + mset dead)"
| loop: "sticky_run m ttl r given back gone \<Longrightarrow> Run_event done' now r = (dead, r') \<Longrightarrow>
    sticky_run m ttl r' given back (gone + mset dead)"

lemma Close_effect:
  assumes "sticky_ok r" "Close_sticky r = (dead, r')"
  shows "sticky_ok r' \<and> states r = mset dead + states r' \<and> rg_max r' = rg_max r"
  using assms by (auto simp: Close_sticky_def sticky_ok_def states_def)

lemma Run_event_effect:
  assumes "sticky_ok r" "Run_event done' now r = (dead, r')"
  shows "sticky_ok r' \<and> states r = mset dead + states r' \<and> rg_max r' = rg_max r"
  using assms Close_effect [OF assms(1)] expired_effect(1,2,3) [OF assms(1), of now dead r']
  by (auto simp: Run_event_def Sweep_def split: if_splits)

lemma sticky_run_holds:
  "sticky_run m ttl r given bk gone \<Longrightarrow> sticky_ok r \<and> given = bk + gone + states r \<and> rg_max r = m"
proof (induction rule: sticky_run.induct)
  case (park r given bk gone now rid live ok dead r')
  then show ?case using Park_effect [of r now rid live ok dead r'] by (auto simp: ac_simps)
next
  case (take r given bk gone now rid x dead r')
  then show ?case using Take_effect [of r now rid x dead r'] by (auto simp: ac_simps)
next
  case (drop r given bk gone rid dead r')
  then show ?case using Drop_effect [of r rid dead r'] by (auto simp: ac_simps)
next
  case (loop r given bk gone done' now dead r')
  then show ?case using Run_event_effect [of r done' now dead r'] by (auto simp: ac_simps)
qed (simp add: New_sticky_def sticky_ok_def states_def)

text \<open>
  C18: every kept transaction ends exactly once: after any sequence of calls, each state the registry
  accepted was handed back once, or discarded once, or is still held, and it never holds more states
  than its limit allows.
\<close>

theorem registry_conserves_states:
  assumes "sticky_run m ttl r given back gone"
  shows "given = back + gone + states r \<and> int (size (states r)) \<le> max 0 m"
  using sticky_run_holds [OF assms] by (auto simp: sticky_ok_def states_def)

theorem registry_conserves_states_witness:
  "\<exists>r. sticky_run 2 100 r {#7::nat#} {#} {#7#} \<and> states r = {#}"
proof -
  let ?r1 = "snd (snd (Park 0 ''a'' (7::nat) (New_sticky 2 100)))"
  have "Park 0 ''a'' (7::nat) (New_sticky 2 100) = (True, [], ?r1)" "Take 101 ''a'' ?r1 = (None, [7], snd (snd (Take 101 ''a'' ?r1)))"
    by code_simp+
  from sticky_run.take [OF sticky_run.park [OF sticky_run.start this(1)] this(2)]
  have run: "sticky_run 2 100 (snd (snd (Take 101 ''a'' ?r1))) {#7#} {#} {#7#}" by simp
  with registry_conserves_states [OF run] show ?thesis by auto
qed

end
