(* ===== verification/Rule_Sets.thy ===== *)
theory Rule_Sets
  imports Outcome_Rows "HOL-Library.List_Lexorder" "HOL-Library.Char_ord"
begin

text \<open>
  The registry of profiles, \<^verbatim>\<open>internal/rules/rules.go\<close>: building the set of profiles from a directory
  (\<open>build\<close>, \<open>buildTree\<close>), replacing it (\<open>ReloadFrom\<close>) and looking a profile up (\<open>selectFrom\<close>,
  \<open>PriorRules\<close>, \<open>Outcomes\<close>).  The file system, the rule engine's constructor and the YAML decoder are
  the fields of \<open>rules_lib\<close>; a compiled engine is a value of the type \<open>'e\<close>.  The Go map of profiles is an
  association list with distinct keys.
\<close>

section \<open>Sets of profiles\<close>

abbreviation DefaultProfile :: string where "DefaultProfile \<equiv> ''default''"
abbreviation TreeDir :: string where "TreeDir \<equiv> ''http''"

record 'e profile =
  pf_engine :: 'e
  pf_policy :: Policy

type_synonym 'e profiles = "(string \<times> 'e profile) list"

record 'e rules_lib =
  rl_join :: "string \<Rightarrow> string \<Rightarrow> string"
  rl_ReadDir :: "string \<Rightarrow> string + (string \<times> bool) list"
  rl_Glob :: "string \<Rightarrow> string + string list"
  rl_NewEngine :: "string list \<Rightarrow> string + 'e"
  rl_RuleCount :: "'e \<Rightarrow> int"
  rl_ReadFile :: "string \<Rightarrow> io_error + bytes"
  rl_Unmarshal :: "bytes \<Rightarrow> string + Rule list \<times> Outcome list"

datatype rules_error =
    ProfilesUnreadable string | ProfileGlob string string | NoConfFiles string
  | EngineRefused string string | PolicyRefused string policy_error | DefaultMissing

definition Names :: "'e profiles \<Rightarrow> string list" where
  "Names set' = sort (map fst set')"

definition RuleCount :: "'e rules_lib \<Rightarrow> 'e profiles \<Rightarrow> string \<Rightarrow> int" where
  "RuleCount lib set' name = (case map_of set' name of Some p \<Rightarrow> rl_RuleCount lib (pf_engine p) | None \<Rightarrow> 0)"

section \<open>Building a set\<close>

abbreviation (input) conf_pattern :: "'e rules_lib \<Rightarrow> string \<Rightarrow> string" where
  "conf_pattern lib dir \<equiv> rl_join lib dir ''*.conf''"

definition build_profile :: "'e rules_lib \<Rightarrow> string \<Rightarrow> string \<Rightarrow> rules_error + 'e profile" where
  "build_profile lib treeDir name = (case rl_Glob lib (conf_pattern lib (rl_join lib treeDir name)) of
     Inl e \<Rightarrow> Inl (ProfileGlob name e)
   | Inr files \<Rightarrow>
       if files = [] then Inl (NoConfFiles name)
       else (case rl_NewEngine lib (sort files) of
         Inl e \<Rightarrow> Inl (EngineRefused name e)
       | Inr eng \<Rightarrow> (case LoadDir (rl_join lib) (rl_ReadFile lib) (rl_Unmarshal lib) (rl_join lib treeDir name) of
           Inl e \<Rightarrow> Inl (PolicyRefused name e)
         | Inr policy \<Rightarrow> Inr \<lparr>pf_engine = eng, pf_policy = policy\<rparr>)))"

fun build_entries :: "'e rules_lib \<Rightarrow> string \<Rightarrow> 'e profiles \<Rightarrow> (string \<times> bool) list \<Rightarrow> rules_error + 'e profiles" where
  "build_entries lib treeDir acc [] = Inr acc"
| "build_entries lib treeDir acc ((name, is_dir) # rest) =
     (if \<not> is_dir then build_entries lib treeDir acc rest
      else (case build_profile lib treeDir name of
        Inl e \<Rightarrow> Inl e
      | Inr p \<Rightarrow> build_entries lib treeDir ((name, p) # filter (\<lambda>q. fst q \<noteq> name) acc) rest))"

definition buildTree :: "'e rules_lib \<Rightarrow> string \<Rightarrow> string \<Rightarrow> rules_error + 'e profiles" where
  "buildTree lib dir tree = (case rl_ReadDir lib (rl_join lib dir tree) of
     Inl e \<Rightarrow> Inl (ProfilesUnreadable e)
   | Inr entries \<Rightarrow> build_entries lib (rl_join lib dir tree) [] entries)"

definition build :: "'e rules_lib \<Rightarrow> string \<Rightarrow> rules_error + 'e profiles" where
  "build lib dir = (case buildTree lib dir TreeDir of
     Inl e \<Rightarrow> Inl e
   | Inr profiles \<Rightarrow> if map_of profiles DefaultProfile = None then Inl DefaultMissing else Inr profiles)"

definition HasDefault :: "'e rules_lib \<Rightarrow> string \<Rightarrow> bool" where
  "HasDefault lib dir = (if dir = '''' then False
     else (case rl_Glob lib (conf_pattern lib (rl_join lib (rl_join lib dir TreeDir) DefaultProfile)) of
       Inl _ \<Rightarrow> False | Inr entries \<Rightarrow> entries \<noteq> []))"

section \<open>The registry\<close>

record 'e Registry =
  ry_dir :: string
  ry_current :: "'e profiles"
  ry_unknown :: "string \<rightharpoonup> u64"

record Selection =
  sel_Profile :: string
  sel_Unknown :: bool

definition ReloadFrom :: "'e rules_lib \<Rightarrow> string \<Rightarrow> 'e Registry \<Rightarrow> rules_error option \<times> 'e Registry" where
  "ReloadFrom lib dir r = (case build lib dir of
     Inl e \<Rightarrow> (Some e, r)
   | Inr set' \<Rightarrow> (None, r\<lparr>ry_current := set', ry_dir := dir\<rparr>))"

definition Reload :: "'e rules_lib \<Rightarrow> 'e Registry \<Rightarrow> rules_error option \<times> 'e Registry" where
  "Reload lib r = ReloadFrom lib (ry_dir r) r"

text \<open>Before its first load the registry has no set; \<open>New\<close> only returns it after one.\<close>

definition New_registry :: "'e rules_lib \<Rightarrow> string \<Rightarrow> string \<Rightarrow> rules_error + 'e Registry" where
  "New_registry lib profilesDir dataDir =
     (let dir = (if HasDefault lib dataDir then dataDir else profilesDir)
      in case Reload lib \<lparr>ry_dir = dir, ry_current = [], ry_unknown = Map.empty\<rparr> of
           (Some e, _) \<Rightarrow> Inl e
         | (None, r) \<Rightarrow> Inr r)"

definition countUnknown :: "string \<Rightarrow> 'e Registry \<Rightarrow> 'e Registry" where
  "countUnknown name r =
     r\<lparr>ry_unknown := (ry_unknown r)(name \<mapsto> (case ry_unknown r name of None \<Rightarrow> 0 | Some n \<Rightarrow> n) + 1)\<rparr>"

definition UnknownCounts :: "'e Registry \<Rightarrow> string \<rightharpoonup> u64" where
  "UnknownCounts r = ry_unknown r"

definition profile_name :: "string \<Rightarrow> string" where
  "profile_name name = (if name = '''' then DefaultProfile else name)"

definition selectFrom :: "'e profiles \<Rightarrow> string \<Rightarrow> 'e Registry \<Rightarrow> ('e option \<times> Selection) \<times> 'e Registry" where
  "selectFrom profiles name0 r =
     (let name = profile_name name0
      in case map_of profiles name of
           Some p \<Rightarrow> ((Some (pf_engine p), \<lparr>sel_Profile = name, sel_Unknown = False\<rparr>), r)
         | None \<Rightarrow> ((None, \<lparr>sel_Profile = name, sel_Unknown = True\<rparr>), countUnknown name r))"

definition Select :: "string \<Rightarrow> 'e Registry \<Rightarrow> ('e option \<times> Selection) \<times> 'e Registry" where
  "Select name r = selectFrom (ry_current r) name r"

definition PriorRules :: "'e Registry \<Rightarrow> string \<Rightarrow> Rule list" where
  "PriorRules r name = (case map_of (ry_current r) (profile_name name) of
     Some p \<Rightarrow> pol_Rules (pf_policy p) | None \<Rightarrow> [])"

definition Outcomes :: "'e Registry \<Rightarrow> string \<Rightarrow> Outcome list" where
  "Outcomes r name = (case map_of (ry_current r) (profile_name name) of
     Some p \<Rightarrow> pol_Outcomes (pf_policy p) | None \<Rightarrow> [])"

section \<open>What a built set holds\<close>

definition profile_ok :: "'e rules_lib \<Rightarrow> string \<Rightarrow> string \<times> 'e profile \<Rightarrow> bool" where
  "profile_ok lib treeDir = (\<lambda>(name, p). build_profile lib treeDir name = Inr p)"

lemma build_entries_ok:
  "build_entries lib treeDir acc entries = Inr ps \<Longrightarrow> distinct (map fst acc) \<Longrightarrow> \<forall>q \<in> set acc. profile_ok lib treeDir q \<Longrightarrow>
   distinct (map fst ps) \<and> (\<forall>q \<in> set ps. profile_ok lib treeDir q) \<and>
   fst ` set ps = fst ` set acc \<union> fst ` {e \<in> set entries. snd e}"
proof (induction lib treeDir acc entries arbitrary: ps rule: build_entries.induct)
  case (2 lib treeDir acc name is_dir rest)
  show ?case
  proof (cases is_dir)
    case False
    have "fst ` {e \<in> set ((name, is_dir) # rest). snd e} = fst ` {e \<in> set rest. snd e}" using False by auto
    then show ?thesis using 2 False by simp
  next
    case True
    then obtain p where p: "build_profile lib treeDir name = Inr p"
      and rec: "build_entries lib treeDir ((name, p) # filter (\<lambda>q. fst q \<noteq> name) acc) rest = Inr ps"
      using 2(3) by (auto split: sum.splits)
    have d: "distinct (map fst ((name, p) # filter (\<lambda>q. fst q \<noteq> name) acc))"
      using 2(4) by (auto simp: distinct_map_filter)
    have ok: "\<forall>q \<in> set ((name, p) # filter (\<lambda>q. fst q \<noteq> name) acc). profile_ok lib treeDir q"
      using 2(5) p by (simp add: profile_ok_def)
    have "fst ` set ((name, p) # filter (\<lambda>q. fst q \<noteq> name) acc) \<union> fst ` {e \<in> set rest. snd e} =
        fst ` set acc \<union> fst ` {e \<in> set ((name, is_dir) # rest). snd e}"
      using True by (auto simp: image_iff)
    then show ?thesis using 2(2) [OF _ p rec d ok] True by simp
  qed
qed auto

definition set_ok :: "'e rules_lib \<Rightarrow> 'e profiles \<Rightarrow> bool" where
  "set_ok lib ps \<longleftrightarrow> distinct (map fst ps) \<and> map_of ps DefaultProfile \<noteq> None \<and>
     (\<exists>treeDir. \<forall>q \<in> set ps. profile_ok lib treeDir q)"

lemma build_ok: "build lib dir = Inr ps \<Longrightarrow> set_ok lib ps"
proof -
  assume b: "build lib dir = Inr ps"
  then have d: "map_of ps DefaultProfile \<noteq> None" and t: "buildTree lib dir TreeDir = Inr ps"
    by (auto simp: build_def split: sum.splits if_splits)
  from t obtain entries where "build_entries lib (rl_join lib dir TreeDir) [] entries = Inr ps"
    by (auto simp: buildTree_def split: sum.splits)
  from build_entries_ok [OF this] have "distinct (map fst ps) \<and> (\<forall>q \<in> set ps. profile_ok lib (rl_join lib dir TreeDir) q)"
    by simp
  with d show ?thesis by (auto simp: set_ok_def)
qed

lemma build_profile_policy:
  assumes "build_profile lib treeDir name = Inr p"
  shows "\<exists>found. loadFile (rl_ReadFile lib) (rl_Unmarshal lib)
    (rl_join lib (rl_join lib treeDir name) FileName) = Inr (pf_policy p, found)"
  using assms
  by (auto simp: build_profile_def LoadDir_def map_sum_def split: sum.splits if_splits)

lemma Names_sorted: "set_ok lib ps \<Longrightarrow> sorted (Names ps) \<and> distinct (Names ps) \<and> set (Names ps) = dom (map_of ps)"
  by (simp add: set_ok_def Names_def dom_map_of_conv_image_fst)

section \<open>Runs of the registry\<close>

text \<open>A registry after any reloads, failing or not, and lookups; the names that were looked up.\<close>

inductive registry_run :: "'e rules_lib \<Rightarrow> 'e Registry \<Rightarrow> string list \<Rightarrow> bool" for lib where
  start: "New_registry lib profilesDir dataDir = Inr r \<Longrightarrow> registry_run lib r []"
| reload: "registry_run lib r missed \<Longrightarrow> ReloadFrom lib dir r = (e, r') \<Longrightarrow> registry_run lib r' missed"
| select: "registry_run lib r missed \<Longrightarrow> Select name r = ((eng, sel), r') \<Longrightarrow>
    registry_run lib r' (if sel_Unknown sel then missed @ [sel_Profile sel] else missed)"

lemma ReloadFrom_keeps:
  "ReloadFrom lib dir r = (e, r') \<Longrightarrow> ry_unknown r' = ry_unknown r \<and>
     (case e of Some _ \<Rightarrow> r' = r | None \<Rightarrow> set_ok lib (ry_current r') \<and> ry_dir r' = dir)"
  by (auto simp: ReloadFrom_def build_ok split: sum.splits)

lemma New_registry_ok: "New_registry lib p d = Inr r \<Longrightarrow> set_ok lib (ry_current r) \<and> ry_unknown r = Map.empty"
  by (auto simp: New_registry_def Reload_def Let_def split: prod.splits option.splits dest: ReloadFrom_keeps)

lemma Select_fields:
  "Select name r = ((eng, sel), r') \<Longrightarrow> ry_current r' = ry_current r \<and> ry_dir r' = ry_dir r \<and>
     sel_Profile sel = profile_name name \<and> (sel_Unknown sel \<longleftrightarrow> eng = None) \<and>
     eng = map_option pf_engine (map_of (ry_current r) (profile_name name)) \<and>
     ry_unknown r' = (if eng = None
       then (ry_unknown r)(profile_name name \<mapsto> (case ry_unknown r (profile_name name) of None \<Rightarrow> 0 | Some n \<Rightarrow> n) + 1)
       else ry_unknown r)"
  by (auto simp: Select_def selectFrom_def countUnknown_def Let_def split: option.splits)

lemma Select_known: "Select name r = ((Some e, sel), r') \<Longrightarrow> r' = r \<and> \<not> sel_Unknown sel \<and> sel_Profile sel = profile_name name"
  by (auto simp: Select_def selectFrom_def Let_def split: option.splits)

definition misses :: "string list \<Rightarrow> string \<rightharpoonup> u64" where
  "misses missed name = (if name \<in> set missed then Some (of_nat (count_list missed name)) else None)"

lemma registry_run_ok:
  "registry_run lib r missed \<Longrightarrow> set_ok lib (ry_current r) \<and> ry_unknown r = misses missed"
proof (induction rule: registry_run.induct)
  case (start profilesDir dataDir r)
  then show ?case using New_registry_ok by (fastforce simp: misses_def)
next
  case (reload r missed dir e r')
  then show ?case using ReloadFrom_keeps [of lib dir r e r'] by (auto split: option.splits)
next
  case (select r missed name eng sel r')
  then show ?case using Select_fields [OF select.hyps(2)]
    by (auto simp: misses_def fun_eq_iff count_list_0_iff)
qed

text \<open>
  C19: the default profile is always there: whatever the reloads and lookups, a registry that was once
  created answers the empty name and the name default with an engine; a reload that fails leaves the
  registry exactly as it was.
\<close>

theorem default_profile_always_there:
  assumes "registry_run lib r missed"
  shows "fst (fst (Select '''' r)) \<noteq> None \<and> fst (Select '''' r) = fst (Select DefaultProfile r) \<and>
    snd (Select '''' r) = r \<and>
    (case ReloadFrom lib dir r of (Some e, r') \<Rightarrow> r' = r | (None, r') \<Rightarrow> fst (fst (Select '''' r')) \<noteq> None)"
proof -
  have found: "fst (fst (Select '''' q)) \<noteq> None \<and> fst (Select '''' q) = fst (Select DefaultProfile q) \<and>
      snd (Select '''' q) = q" if "set_ok lib (ry_current q)" for q
    using that by (auto simp: set_ok_def Select_def selectFrom_def profile_name_def)
  obtain e r' where re: "ReloadFrom lib dir r = (e, r')" by fastforce
  show ?thesis using found [of r] registry_run_ok [OF assms] found [of r'] ReloadFrom_keeps [OF re]
    by (auto simp: re split: option.splits)
qed

text \<open>
  C20: a profile that does not exist is never served by another one: a lookup answers an engine exactly
  when the set has a profile of that name, and then the engine and the policy of that profile; an unknown
  name gets no engine, no rules and no rows, and is counted.
\<close>

theorem unknown_profile_never_served:
  assumes "registry_run lib r missed"
  shows "(case Select name r of ((eng, sel), r') \<Rightarrow>
    sel_Profile sel = profile_name name \<and>
    (case map_of (ry_current r) (profile_name name) of
       Some p \<Rightarrow> eng = Some (pf_engine p) \<and> \<not> sel_Unknown sel \<and> r' = r \<and>
         PriorRules r name = pol_Rules (pf_policy p) \<and> Outcomes r name = pol_Outcomes (pf_policy p)
     | None \<Rightarrow> eng = None \<and> sel_Unknown sel \<and> PriorRules r name = [] \<and> Outcomes r name = [] \<and>
         ry_current r' = ry_current r \<and>
         UnknownCounts r' (profile_name name) = Some (of_nat (Suc (count_list missed (profile_name name))))))"
proof -
  have "ry_unknown r = misses missed" using registry_run_ok [OF assms] by simp
  then show ?thesis
    by (auto simp: Select_def selectFrom_def countUnknown_def UnknownCounts_def PriorRules_def Outcomes_def Let_def misses_def
        count_list_0_iff split: option.splits)
qed

lemma profile_policy_loaded:
  assumes "registry_run lib r missed" "map_of (ry_current r) name = Some p"
  shows "\<exists>path found. loadFile (rl_ReadFile lib) (rl_Unmarshal lib) path = Inr (pf_policy p, found)"
proof -
  have "(name, p) \<in> set (ry_current r)" using assms(2) by (rule map_of_SomeD)
  then obtain treeDir where "build_profile lib treeDir name = Inr p"
    using registry_run_ok [OF assms(1)] by (auto simp: set_ok_def profile_ok_def)
  then show ?thesis using build_profile_policy by blast
qed

section \<open>A registry\<close>

definition sample_lib :: "unit rules_lib" where
  "sample_lib = \<lparr>rl_join = (\<lambda>a b. a @ ''/'' @ b), rl_ReadDir = (\<lambda>_. Inr [(''default'', True), (''README'', False)]),
     rl_Glob = (\<lambda>p. Inr [p]), rl_NewEngine = (\<lambda>_. Inr ()), rl_RuleCount = (\<lambda>_. 1),
     rl_ReadFile = (\<lambda>_. Inr ''x''), rl_Unmarshal = (\<lambda>_. Inr (sample_rules, sample_rows))\<rparr>"

definition sample_registry :: "unit Registry" where
  "sample_registry = \<lparr>ry_dir = ''d'', ry_current = [(''default'', \<lparr>pf_engine = (), pf_policy = sample_policy\<rparr>)],
     ry_unknown = Map.empty\<rparr>"

lemma sample_registry_run: "registry_run sample_lib sample_registry []"
proof -
  have policy: "loadFile (rl_ReadFile sample_lib) (rl_Unmarshal sample_lib) path = Inr (sample_policy, True)" for path
    using sample_policy_loads by (simp add: loadFile_def sample_lib_def)
  have "build_profile sample_lib d ''default'' = Inr \<lparr>pf_engine = (), pf_policy = sample_policy\<rparr>" for d
  proof -
    have "LoadDir (rl_join sample_lib) (rl_ReadFile sample_lib) (rl_Unmarshal sample_lib) dir = Inr sample_policy" for dir
      by (simp add: LoadDir_def policy)
    then show ?thesis by (simp add: build_profile_def) (simp add: sample_lib_def)
  qed
  then have "build sample_lib ''d'' = Inr (ry_current sample_registry)"
    by (simp add: build_def buildTree_def sample_registry_def, simp add: sample_lib_def)
  then have "New_registry sample_lib ''d'' '''' = Inr sample_registry"
    by (simp add: New_registry_def HasDefault_def Reload_def ReloadFrom_def sample_registry_def)
  then show ?thesis by (rule registry_run.start)
qed

theorem default_profile_always_there_witness:
  "registry_run sample_lib sample_registry [] \<and> fst (fst (Select '''' sample_registry)) \<noteq> None"
  using default_profile_always_there [OF sample_registry_run] sample_registry_run by blast

theorem unknown_profile_never_served_witness:
  "registry_run sample_lib sample_registry [] \<and> fst (fst (Select ''admin'' sample_registry)) = None"
proof -
  have "map_of (ry_current sample_registry) (profile_name ''admin'') = None"
    by (simp add: sample_registry_def profile_name_def)
  then show ?thesis using unknown_profile_never_served [OF sample_registry_run, of "''admin''"] sample_registry_run
    by (auto split: prod.splits)
qed

end
