(* ===== verification/Handler.thy ===== *)
theory Handler
  imports Verdict Body_Store Queue Sticky Rule_Sets
begin

text \<open>
  The message handlers, \<^verbatim>\<open>cmd/modsec/handler.go\<close>, \<^verbatim>\<open>response.go\<close>, \<^verbatim>\<open>frame.go\<close>, \<^verbatim>\<open>resume.go\<close> and
  \<^verbatim>\<open>lists.go\<close>.  What the handler shares between messages is the state \<open>hstate\<close>: the registry of
  profiles, the registry of kept transactions, the audit sink, and the record of what left the program
  (published messages, list writes, ended transactions, tasks given to the pool).  Its collaborators are
  the record \<open>henv\<close>: the loader, the options, the JSON codecs, the geo resolver and the list publisher.
  A handler returns \<open>None\<close> where the Go code panics in the loader; \<open>evaluate\<close> then answers as
  \<open>recoverInto\<close> does.  Log lines are left out, and one message sees one rule set: a reload between the
  lookups of one message is not represented.
\<close>

section \<open>State and collaborators\<close>

abbreviation codeUnsupportedVersion :: string where "codeUnsupportedVersion \<equiv> ''MODSEC_UNSUPPORTED_VERSION''"
abbreviation codeMalformed :: string where "codeMalformed \<equiv> ''MODSEC_MALFORMED_REQUEST''"
abbreviation codeInternalError :: string where "codeInternalError \<equiv> ''MODSEC_INTERNAL_ERROR''"
abbreviation codeUnknownProfile :: string where "codeUnknownProfile \<equiv> ''MODSEC_UNKNOWN_PROFILE''"
abbreviation codeWrongPhase :: string where "codeWrongPhase \<equiv> ''MODSEC_PHASE_NOT_SUPPORTED''"
abbreviation codeBodyUnavailable :: string where "codeBodyUnavailable \<equiv> ''MODSEC_BODY_UNAVAILABLE''"
abbreviation codeBodyTruncated :: string where "codeBodyTruncated \<equiv> ''MODSEC_BODY_TRUNCATED''"
abbreviation codeResumeLost :: string where "codeResumeLost \<equiv> ''MODSEC_RESUME_LOST''"
abbreviation codeSkipped :: string where "codeSkipped \<equiv> ''MODSEC_SKIPPED''"
abbreviation codeGeoUnavailable :: string where "codeGeoUnavailable \<equiv> ''MODSEC_GEO_UNAVAILABLE''"
abbreviation codeFrameBinary :: string where "codeFrameBinary \<equiv> ''MODSEC_FRAME_BINARY''"

record list_write =
  lw_Name :: string
  lw_Values :: "string list"
  lw_TTL :: duration
  lw_Reason :: string

text \<open>\<open>he_lists\<close> says whether there is a list publisher; its errors are only logged.\<close>

record henv =
  he_Name :: string
  he_Versions :: "int list"
  he_inbox :: string
  he_opts :: Options
  he_loader :: Loader
  he_lists :: bool
  he_networked :: "string \<Rightarrow> bool"
  he_geo :: "string \<Rightarrow> string \<Rightarrow> string + string list"
  he_unmarshal :: "bytes \<Rightarrow> string + Request"
  he_pairs :: "bytes \<Rightarrow> string + Header list"
  he_marshal :: "Reply \<Rightarrow> string + bytes"
  he_event :: "Event \<Rightarrow> string + bytes"

record 's hstate =
  hs_registry :: "'s Engine Registry"
  hs_sticky :: "'s Live Sticky option"
  hs_sink :: Sink
  hs_out :: "(string \<times> bytes) list"
  hs_lists :: "list_write list"
  hs_ended :: "'s list"
  hs_tasks :: "Task list"

text \<open>The clocks of one message: the instant, the audit timestamp and the microseconds in the engine.\<close>

record clock =
  ck_now :: instant
  ck_ts :: string
  ck_us :: int

definition end_tx :: "'s list \<Rightarrow> 's hstate \<Rightarrow> 's hstate" where
  "end_tx ss st = st\<lparr>hs_ended := hs_ended st @ ss\<rparr>"

text \<open>Division of the Go integers, which truncates; the divisors are positive.\<close>

definition trunc_div :: "int \<Rightarrow> int \<Rightarrow> int" where
  "trunc_div a b = (if a < 0 then - ((- a) div b) else a div b)"

definition option_list :: "'a option \<Rightarrow> 'a list" where
  "option_list x = (case x of None \<Rightarrow> [] | Some a \<Rightarrow> [a])"

section \<open>Sending a reply\<close>

definition send :: "henv \<Rightarrow> clock \<Rightarrow> string \<Rightarrow> Reply \<Rightarrow> Request option \<Rightarrow> Details \<Rightarrow> 's hstate \<Rightarrow> 's hstate" where
  "send env ck subject reply req det st =
     (if subject = '''' then st
      else
       (let payload = (case Marshal (he_marshal env) reply of
              Inr p \<Rightarrow> Some p
            | Inl _ \<Rightarrow> (case Marshal (he_marshal env) (FallbackReply (rp_RID reply) (rp_Inspector reply) codeInternalError) of
                Inr p \<Rightarrow> Some p | Inl _ \<Rightarrow> None))
        in case payload of
          None \<Rightarrow> st
        | Some p \<Rightarrow> st\<lparr>hs_out := hs_out st @ [(subject, p)],
                       hs_sink := snd (Add (he_event env) (ck_ts ck) req (Some reply) det (hs_sink st))\<rparr>))"

definition recoverInto :: "henv \<Rightarrow> clock \<Rightarrow> string \<Rightarrow> string \<Rightarrow> 's hstate \<Rightarrow> 's hstate" where
  "recoverInto env ck subject rid st =
     (if subject \<noteq> '''' then send env ck subject (FallbackReply rid (he_Name env) codeInternalError) None no_details st
      else st)"

section \<open>Lists\<close>

fun writeLists :: "henv \<Rightarrow> string option \<Rightarrow> list_write list \<Rightarrow> Ban list \<Rightarrow> string option \<times> list_write list" where
  "writeLists env failed acc [] = (failed, acc)"
| "writeLists env failed acc (ban # bans) =
     (let add = (\<lambda>values. acc @ [\<lparr>lw_Name = ban_Dataset ban, lw_Values = values,
                    lw_TTL = i64 (ban_TTL ban * Second), lw_Reason = ban_Reason ban\<rparr>])
      in if he_networked env (ban_Write ban)
         then (case he_geo env (ban_Write ban) (ban_Addr ban) of
             Inl err \<Rightarrow> writeLists env (if failed = None then Some err else failed) acc bans
           | Inr got \<Rightarrow> if got = [] then writeLists env failed acc bans
                       else writeLists env failed (add got) bans)
         else writeLists env failed (add [ban_Addr ban]) bans)"

definition publish_bans :: "henv \<Rightarrow> Ban list \<Rightarrow> 's hstate \<Rightarrow> string option \<times> 's hstate" where
  "publish_bans env bans st =
     (if bans = [] \<or> \<not> he_lists env then (None, st)
      else (case writeLists env None [] bans of
        (failed, writes) \<Rightarrow> (failed, st\<lparr>hs_lists := hs_lists st @ writes\<rparr>)))"

section \<open>Kept transactions\<close>

definition wantsResume :: "henv \<Rightarrow> 's hstate \<Rightarrow> Request \<Rightarrow> bool" where
  "wantsResume env st req =
     (if hs_sticky st = None \<or> he_inbox env = '''' then False
      else req_Phase req = PhaseRequest \<and>
        (case req_Resume req of None \<Rightarrow> False | Some r \<Rightarrow> res_Want r \<and> res_Token r \<noteq> ''''))"

definition offerContinue :: "henv \<Rightarrow> clock \<Rightarrow> Request \<Rightarrow> Reply \<Rightarrow> Details \<Rightarrow> 's Live \<Rightarrow> 's hstate \<Rightarrow>
    Reply \<times> Details \<times> 's hstate" where
  "offerContinue env ck req reply det live st =
     (if rp_Verdict reply = VerdictDeny \<or> rp_Verdict reply = VerdictRedirect
      then (reply, det, end_tx [Discard live] st)
      else (case hs_sticky st of
        None \<Rightarrow> (reply, det, st)
      | Some sk \<Rightarrow>
          (let token = (case req_Resume req of None \<Rightarrow> '''' | Some r \<Rightarrow> res_Token r)
           in case Park (ck_now ck) token live sk of
             (False, dead, sk') \<Rightarrow>
               (reply, put ''parked'' (ABool False) det,
                end_tx [Discard live] (end_tx (map Discard dead) (st\<lparr>hs_sticky := Some sk'\<rparr>)))
           | (True, dead, sk') \<Rightarrow>
               (reply\<lparr>rp_Continue := Some \<lparr>ct_Subject = he_inbox env, ct_TTLMS = trunc_div (rg_ttl sk') Millisecond\<rparr>\<rparr>,
                put ''parked'' (ABool True) det,
                end_tx (map Discard dead) (st\<lparr>hs_sticky := Some sk'\<rparr>)))))"

definition releaseState :: "Request \<Rightarrow> 's hstate \<Rightarrow> 's hstate" where
  "releaseState req st = (case (hs_sticky st, req_Release req) of
     (Some sk, Some rel) \<Rightarrow> (case Drop (rel_Token rel) sk of
        (dead, sk') \<Rightarrow> end_tx (map Discard dead) (st\<lparr>hs_sticky := Some sk'\<rparr>))
   | _ \<Rightarrow> st)"

text \<open>The number of kept transactions, for the log.\<close>

definition stickyLive :: "'s hstate \<Rightarrow> int" where
  "stickyLive st = (case hs_sticky st of None \<Rightarrow> -1 | Some sk \<Rightarrow> int (ss_Live (Stats_of sk)))"

definition resumeState :: "clock \<Rightarrow> Request \<Rightarrow> 's hstate \<Rightarrow> 's Live option \<times> 's hstate" where
  "resumeState ck req st = (case (hs_sticky st, req_Resume req) of
     (Some sk, Some r) \<Rightarrow>
       if res_Token r = '''' then (None, st)
       else (case Take (ck_now ck) (res_Token r) sk of
         (live, dead, sk') \<Rightarrow> (live, end_tx (map Discard dead) (st\<lparr>hs_sticky := Some sk'\<rparr>)))
   | _ \<Rightarrow> (None, st))"

section \<open>Preparing the input\<close>

definition headers :: "henv \<Rightarrow> Body \<Rightarrow> Header list" where
  "headers env loaded =
     (if \<not> Available loaded \<or> bd_Data loaded = [] then []
      else (case he_pairs env (bd_Data loaded) of Inl _ \<Rightarrow> [] | Inr pairs \<Rightarrow> pairs))"

definition argsOf :: "Body \<Rightarrow> string" where
  "argsOf loaded = (if \<not> Available loaded then '''' else bd_Data loaded)"

definition bodyError :: "Body \<Rightarrow> (string \<times> string) option" where
  "bodyError b =
     (if \<not> Available b then Some (codeBodyUnavailable, ''unavailable:'' @ bd_Unavailable b)
      else if bd_Truncated b then Some (codeBodyTruncated, ''truncated'')
      else None)"

definition input :: "Request \<Rightarrow> string \<Rightarrow> Header list \<Rightarrow> Body \<Rightarrow> Input" where
  "input req args hdr b =
     \<lparr>in_RID = req_RID req, in_ClientIP = conn_ClientIP (req_Conn req), in_ClientPort = conn_ClientPort (req_Conn req),
      in_ServerIP = conn_ServerIP (req_Conn req), in_ServerPort = conn_ServerPort (req_Conn req),
      in_Method = http_Method (req_HTTP req), in_URI = http_URI (req_HTTP req), in_Args = args,
      in_Version = http_Version (req_HTTP req), in_Host = http_Host (req_HTTP req), in_Headers = hdr,
      in_Body = bd_Data b, in_BodyTruncated = False\<rparr>"

definition responseHeaders :: "henv \<Rightarrow> Request \<Rightarrow> Body \<Rightarrow> Header list" where
  "responseHeaders env req loaded =
     (let hdr = headers env loaded
      in if hdr \<noteq> [] then hdr
         else (case req_Response req of Some r \<Rightarrow> rsp_Headers r | None \<Rightarrow> []))"

definition responseStatus :: "Request \<Rightarrow> int" where
  "responseStatus req = (case req_Response req of
     None \<Rightarrow> 200 | Some r \<Rightarrow> if rsp_Status r = 0 then 200 else rsp_Status r)"

definition scoreOf :: "Reply \<Rightarrow> int" where
  "scoreOf r = (case rp_Score r of None \<Rightarrow> 0 | Some s \<Rightarrow> s)"

definition codeOf :: "Reply \<Rightarrow> string" where
  "codeOf r = (case rp_Reason r of None \<Rightarrow> '''' | Some c \<Rightarrow> rsn_Code c)"

definition applyAsk :: "Details \<Rightarrow> Ask \<Rightarrow> EngineOutcome \<Rightarrow> Details" where
  "applyAsk det ask' out =
     (let det1 = (if ask_Outcomes ask' \<noteq> [] then put ''actions'' (AActions (ask_Outcomes ask')) det else det)
      in if ask_Percent ask' \<noteq> 0
         then (let raw = Calibrate (eo_AnomalyScore out) (eo_Threshold out)
               in put ''score_scaled'' (AInt (ScaleScore raw (ask_Percent ask')))
                    (put ''score_raw'' (AInt raw)
                      (put ''score_scale_percent'' (AInt (ask_Percent ask')) det1)))
         else det1)"

section \<open>From an outcome to the answer\<close>

text \<open>
  The tail the three handlers share: the verdict, the details, the rows that fire, the list writes.
  \<open>extra\<close> are the rows the request handler adds for the fill of the queue, \<open>decorate\<close> what a handler
  notes in the details before the rows fire.  The result says whether the list writes failed.
\<close>

definition join_fired :: "Fired \<Rightarrow> Fired \<Rightarrow> Fired" where
  "join_fired a b = \<lparr>fi_Actions = fi_Actions a @ fi_Actions b, fi_Bans = fi_Bans a @ fi_Bans b,
     fi_Names = fi_Names a @ fi_Names b\<rparr>"

definition no_fired :: Fired where
  "no_fired = \<lparr>fi_Actions = [], fi_Bans = [], fi_Names = []\<rparr>"

definition answer :: "henv \<Rightarrow> Request \<Rightarrow> Selection \<Rightarrow> Ask \<Rightarrow> EngineOutcome \<Rightarrow> (Details \<Rightarrow> Details) \<Rightarrow> Fired \<Rightarrow>
    's hstate \<Rightarrow> bool \<times> Reply \<times> Details \<times> 's hstate" where
  "answer env req sel ask' out decorate extra st =
     (let opts = (he_opts env)\<lparr>op_ScalePercent := ask_Percent ask'\<rparr>;
          reply = From req out opts;
          det1 = decorate (applyAsk (Detail out) ask' out);
          det2 = (if sel_Unknown sel then put ''profile_requested'' (AStr (sel_Profile sel)) det1 else det1);
          fired = join_fired (Fire (Outcomes (hs_registry st) (sel_Profile sel)) (rp_Verdict reply) (scoreOf reply)
                    (eo_Matched out) (conn_ClientIP (req_Conn req)) (codeOf reply)) extra;
          det3 = (if fi_Names fired \<noteq> [] then put ''outcomes'' (AStrings (fi_Names fired)) det2 else det2)
      in case publish_bans env (fi_Bans fired) st of
           (Some err, st') \<Rightarrow> (False, ErrorReply req codeGeoUnavailable, put ''geo'' (AStr err) det3, st')
         | (None, st') \<Rightarrow>
             (True, if fi_Actions fired \<noteq> [] then reply\<lparr>rp_Actions := fi_Actions fired\<rparr> else reply, det3, st'))"

definition skip_reply :: "Request \<Rightarrow> Reply" where
  "skip_reply req = (NewReply req VerdictAllow)\<lparr>rp_Reason := reason codeSkipped\<rparr>"

section \<open>The request phase\<close>

text \<open>Running the engine: the transactions that ended, and the outcome with the transaction kept, if any.\<close>

definition run_engine :: "henv \<Rightarrow> clock \<Rightarrow> Request \<Rightarrow> 's Engine \<Rightarrow> Input \<Rightarrow> 's hstate \<Rightarrow>
    's list \<times> (string + EngineOutcome \<times> 's Live option)" where
  "run_engine env ck req eng inp st =
     (if wantsResume env st req
      then (case ApplyKeep eng inp (ck_us ck) of
              (s, Inl e) \<Rightarrow> (option_list s, Inl e)
            | (_, Inr (out, live)) \<Rightarrow> ([], Inr (out, Some live)))
      else (case Apply eng inp (ck_us ck) of
              (s, Inl e) \<Rightarrow> (option_list s, Inl e)
            | (s, Inr out) \<Rightarrow> (option_list s, Inr (out, None))))"

text \<open>The handler once the engine has answered: the verdict, the rows, the list writes, the offer to continue.\<close>

definition conclude :: "henv \<Rightarrow> clock \<Rightarrow> Task \<Rightarrow> Selection \<Rightarrow> Ask \<Rightarrow> EngineOutcome \<Rightarrow> 's Live option \<Rightarrow> 's hstate \<Rightarrow>
    (Reply \<times> Details) \<times> 's hstate" where
  "conclude env ck t sel ask' out live st =
     (let req = tk_Req t;
          overload = FireOverload (Outcomes (hs_registry st) (sel_Profile sel)) (tk_Fill t) False
            (conn_ClientIP (req_Conn req)) ReasonQueueLimit;
          (ok, reply, det, st1) = answer env req sel ask' out (\<lambda>d. d) overload st
      in case live of
           None \<Rightarrow> ((reply, det), st1)
         | Some l \<Rightarrow>
             if \<not> ok then ((reply, det), end_tx [Discard l] st1)
             else (case offerContinue env ck req reply det l st1 of (reply', det', st2) \<Rightarrow> ((reply', det'), st2)))"

text \<open>The handler once the stored objects are there.\<close>

definition inspect_loaded :: "henv \<Rightarrow> clock \<Rightarrow> Task \<Rightarrow> 's Engine \<Rightarrow> Selection \<Rightarrow> Ask \<Rightarrow> Body list \<Rightarrow> 's hstate \<Rightarrow>
    (Reply \<times> Details) \<times> 's hstate" where
  "inspect_loaded env ck t eng sel ask' got st =
     (let req = tk_Req t; hdr = headers env (got ! 0); args = argsOf (got ! 1); b = got ! 2
      in case bodyError b of
        Some (code, why) \<Rightarrow> ((ErrorReply req code, engine_details [''body'' \<mapsto> AStr why]), st)
      | None \<Rightarrow> (case run_engine env ck req eng (input req args hdr b) st of
          (ended, Inl err) \<Rightarrow>
            ((ErrorReply req codeInternalError, engine_details [''error'' \<mapsto> AStr err]), end_tx ended st)
        | (ended, Inr (out, live)) \<Rightarrow> conclude env ck t sel ask' out live (end_tx ended st)))"

definition inspect_request :: "henv \<Rightarrow> clock \<Rightarrow> Task \<Rightarrow> 's hstate \<Rightarrow> (Reply \<times> Details) option \<times> 's hstate" where
  "inspect_request env ck t st0 =
     (let req = tk_Req t;
          ((eng, sel), reg) = Select (rt_Profile (req_Route req)) (hs_registry st0);
          st = st0\<lparr>hs_registry := reg\<rparr>
      in case eng of
        None \<Rightarrow> (Some (ErrorReply req codeUnknownProfile, no_details), st)
      | Some e \<Rightarrow>
         (let ask' = Evaluate (req_Prior req) (PriorRules (hs_registry st) (sel_Profile sel))
          in if ask_Skip ask' then
               (Some (skip_reply req,
                  engine_details [''skip'' \<mapsto> ABool True, ''actions'' \<mapsto> AActions (ask_Outcomes ask')]), st)
             else (case LoadMany (he_loader env) [st_Headers (req_Store req), st_Args (req_Store req), st_Body (req_Store req)] of
               None \<Rightarrow> (None, st)
             | Some got \<Rightarrow> (case inspect_loaded env ck t e sel ask' got st of (r, st1) \<Rightarrow> (Some r, st1)))))"

section \<open>The response phase\<close>

definition lost_details :: "bool \<Rightarrow> Details" where
  "lost_details personal =
     \<lparr>dt_EngineMS = 0,
      dt_Findings = [\<lparr>fg_Code = ''modsec-resume-lost'', fg_Severity = SeverityCritical, fg_Target = TargetURI,
        fg_Offset = None, fg_Length = None, fg_Rule = '''', fg_Confidence = None, fg_Evidence = '''',
        fg_Message = '''', fg_Tags = []\<rparr>],
      dt_Engine = [''phase'' \<mapsto> AStr PhaseResponse, ''resumed'' \<mapsto> ABool False, ''resume'' \<mapsto> AStr ''lost'',
        ''personal'' \<mapsto> ABool personal]\<rparr>"

definition note_response :: "bool \<Rightarrow> bool \<Rightarrow> Details \<Rightarrow> Details" where
  "note_response resumed personal det =
     put ''personal'' (ABool personal) (put ''resumed'' (ABool resumed) (put ''phase'' (AStr PhaseResponse) det))"

text \<open>What the response handler runs: the kept transaction, or a new one through all phases.\<close>

definition run_response :: "'s Live + 's Engine \<Rightarrow> Input \<Rightarrow> ResponseInput \<Rightarrow> int \<Rightarrow> 's list \<times> (string + EngineOutcome)" where
  "run_response source inp rsp us = (case source of
     Inl live \<Rightarrow> (case Resume_tx live rsp us of (s, r) \<Rightarrow> ([s], r))
   | Inr eng \<Rightarrow> (case ApplyResponse_tx eng inp rsp us of (s, r) \<Rightarrow> (option_list s, r)))"

text \<open>The rest of the response handler once it has a kept transaction or an engine; the request's own
  headers and arguments are only loaded, and only looked at, for a new transaction.\<close>

definition respond :: "henv \<Rightarrow> clock \<Rightarrow> Request \<Rightarrow> bool \<Rightarrow> Ask \<Rightarrow> Selection \<Rightarrow> 's Live + 's Engine \<Rightarrow> 's hstate \<Rightarrow>
    (Reply \<times> Details) option \<times> 's hstate" where
  "respond env ck req personal ask' sel source st =
     (let locs = [st_Headers (req_Store req), st_Body (req_Store req)] @
            (case source of Inl _ \<Rightarrow> [] | Inr _ \<Rightarrow> [st_Headers (req_RequestStore req), st_Args (req_RequestStore req)])
      in case LoadMany (he_loader env) locs of
        None \<Rightarrow> (None, st)
      | Some got \<Rightarrow>
         (let rspHdr = responseHeaders env req (got ! 0); rspBody = got ! 1
          in case bodyError rspBody of
            Some (code, why) \<Rightarrow>
              (Some (ErrorReply req code, engine_details [''body'' \<mapsto> AStr why]),
               end_tx (case source of Inl live \<Rightarrow> [Discard live] | Inr _ \<Rightarrow> []) st)
          | None \<Rightarrow>
             (let rsp = \<lparr>ri_Status = responseStatus req, ri_Proto = '''', ri_Headers = rspHdr, ri_Body = bd_Data rspBody, ri_BodyTruncated = False\<rparr>;
                  (ended, res) = run_response source (input req (argsOf (got ! 3)) (headers env (got ! 2)) no_body) rsp (ck_us ck);
                  st1 = end_tx ended st
              in case res of
                   Inl err \<Rightarrow> (Some (ErrorReply req codeInternalError, engine_details [''error'' \<mapsto> AStr err]), st1)
                 | Inr out \<Rightarrow>
                     (case answer env req sel ask' out (note_response (isl source) personal) no_fired st1 of
                        (ok, reply, det, st2) \<Rightarrow> (Some (reply, det), st2)))))"

definition inspectResponse :: "henv \<Rightarrow> clock \<Rightarrow> Request \<Rightarrow> bool \<Rightarrow> 's hstate \<Rightarrow> (Reply \<times> Details) option \<times> 's hstate" where
  "inspectResponse env ck req personal st0 =
     (let (live, st) = resumeState ck req st0;
          ask' = Evaluate (req_Prior req) (PriorRules (hs_registry st) (rt_Profile (req_Route req)))
      in if ask_Skip ask' then
           (Some (skip_reply req,
              engine_details [''phase'' \<mapsto> AStr PhaseResponse, ''skip'' \<mapsto> ABool True, ''actions'' \<mapsto> AActions (ask_Outcomes ask')]),
            end_tx (map Discard (option_list live)) st)
         else (case live of
           Some l \<Rightarrow> respond env ck req personal ask' \<lparr>sel_Profile = rt_Profile (req_Route req), sel_Unknown = False\<rparr> (Inl l) st
         | None \<Rightarrow>
             if (case req_Resume req of None \<Rightarrow> False | Some r \<Rightarrow> res_Require r)
             then (Some (Deny req codeResumeLost (he_opts env), lost_details personal), st)
             else
              (let ((eng, sel), reg) = Select (rt_Profile (req_Route req)) (hs_registry st);
                   st' = st\<lparr>hs_registry := reg\<rparr>
               in case eng of
                 None \<Rightarrow> (Some (ErrorReply req codeUnknownProfile, no_details), st')
               | Some e \<Rightarrow> respond env ck req personal ask' sel (Inr e) st')))"

section \<open>Frames\<close>

definition frameDropHeaders :: "string list" where
  "frameDropHeaders = [''content-type'', ''content-length'', ''transfer-encoding'']"

definition frameOpcode :: "Request \<Rightarrow> string" where
  "frameOpcode req = (case req_Stream req of None \<Rightarrow> ''unknown''
     | Some sm \<Rightarrow> if sm_Opcode sm = '''' then ''unknown'' else sm_Opcode sm)"

definition frameEngine :: "Request \<Rightarrow> engine_data" where
  "frameEngine req =
     (let e = [''phase'' \<mapsto> AStr PhaseFrame, ''conn'' \<mapsto> AStr (req_ConnID req), ''seq'' \<mapsto> AU64 (req_Seq req),
               ''opcode'' \<mapsto> AStr (frameOpcode req)]
      in case req_Stream req of
           None \<Rightarrow> e
         | Some sm \<Rightarrow>
             (let e1 = e(''direction'' \<mapsto> AStr (sm_Direction sm), ''fin'' \<mapsto> ABool (sm_Fin sm))
              in if sm_Subprotocol sm \<noteq> '''' then e1(''subprotocol'' \<mapsto> AStr (sm_Subprotocol sm)) else e1))"

text \<open>\<^verbatim>\<open>url.QueryEscape\<close>.\<close>

definition hex_digit :: "nat \<Rightarrow> char" where
  "hex_digit n = (if n < 10 then char_of (48 + n) else char_of (55 + n))"

definition escape_char :: "char \<Rightarrow> string" where
  "escape_char c =
     (if is_alnum c \<or> c \<in> set ''-_.~'' then [c]
      else if c = CHR '' '' then ''+''
      else [CHR ''%'', hex_digit (of_char c div 16), hex_digit (of_char c mod 16)])"

definition QueryEscape :: "string \<Rightarrow> string" where
  "QueryEscape s = concat (map escape_char s)"

definition frameInput :: "Request \<Rightarrow> Header list \<Rightarrow> Body \<Rightarrow> Input" where
  "frameInput req hdr b =
     (let payload = ''frame='' @ QueryEscape (bd_Data b);
          kept = filter (\<lambda>h. ToLower (fst h) \<notin> set frameDropHeaders) hdr;
          hasHost = list_ex (\<lambda>h. EqualFold (fst h) ''host'') kept;
          hs = kept @ (if \<not> hasHost \<and> http_Host (req_HTTP req) \<noteq> '''' then [(''Host'', http_Host (req_HTTP req))] else []) @
               [(''Content-Type'', ''application/x-www-form-urlencoded''), (''Content-Length'', Itoa (int (length payload)))]
      in \<lparr>in_RID = req_RID req, in_ClientIP = conn_ClientIP (req_Conn req), in_ClientPort = conn_ClientPort (req_Conn req),
          in_ServerIP = conn_ServerIP (req_Conn req), in_ServerPort = conn_ServerPort (req_Conn req),
          in_Method = ''POST'', in_URI = http_URI (req_HTTP req), in_Args = '''',
          in_Version = (if http_Version (req_HTTP req) = '''' then ''HTTP/1.1'' else http_Version (req_HTTP req)),
          in_Host = http_Host (req_HTTP req), in_Headers = hs, in_Body = payload, in_BodyTruncated = False\<rparr>)"

definition inspectFrame :: "henv \<Rightarrow> clock \<Rightarrow> Request \<Rightarrow> 's hstate \<Rightarrow> (Reply \<times> Details) option \<times> 's hstate" where
  "inspectFrame env ck req st0 =
     (let ((eng, sel), reg) = Select (rt_Profile (req_Route req)) (hs_registry st0);
          st = st0\<lparr>hs_registry := reg\<rparr>;
          base = engine_details (frameEngine req)
      in case eng of
        None \<Rightarrow> (Some (ErrorReply req codeUnknownProfile, base), st)
      | Some eng \<Rightarrow>
          if frameOpcode req = ''binary'' then
            (Some ((NewReply req VerdictAllow)\<lparr>rp_Reason := reason codeFrameBinary\<rparr>, put ''skip'' (AStr ''binary'') base), st)
          else
           (let ask' = Evaluate (req_Prior req) (PriorRules (hs_registry st) (sel_Profile sel))
            in if ask_Skip ask' then
                 (Some (skip_reply req, put ''actions'' (AActions (ask_Outcomes ask')) (put ''skip'' (ABool True) base)), st)
               else (case LoadMany (he_loader env) [st_Headers (req_RequestStore req), st_Body (req_Store req)] of
                 None \<Rightarrow> (None, st)
               | Some got \<Rightarrow>
                  (case bodyError (got ! 1) of
                     Some (code, why) \<Rightarrow> (Some (ErrorReply req code, put ''body'' (AStr why) base), st)
                   | None \<Rightarrow>
                      (case Apply eng (frameInput req (headers env (got ! 0)) (got ! 1)) (ck_us ck) of
                         (s, Inl err) \<Rightarrow>
                           (Some (ErrorReply req codeInternalError, put ''error'' (AStr err) base), end_tx (option_list s) st)
                       | (s, Inr out) \<Rightarrow>
                           (case answer env req sel ask' out
                               (\<lambda>d. d\<lparr>dt_Engine := dt_Engine d ++ frameEngine req\<rparr>) no_fired (end_tx (option_list s) st) of
                              (ok, reply, det, st2) \<Rightarrow> (Some (reply, det), st2)))))))"

section \<open>Receiving and evaluating\<close>

definition inspect :: "henv \<Rightarrow> clock \<Rightarrow> Task \<Rightarrow> 's hstate \<Rightarrow> (Reply \<times> Details) option \<times> 's hstate" where
  "inspect env ck t st =
     (if req_Phase (tk_Req t) = PhaseResponse then inspectResponse env ck (tk_Req t) (tk_Personal t) st
      else if req_Phase (tk_Req t) = PhaseFrame then inspectFrame env ck (tk_Req t) st
      else inspect_request env ck t st)"

definition shed_details :: "duration \<Rightarrow> string \<Rightarrow> Details" where
  "shed_details left shed =
     engine_details [''shed'' \<mapsto> AStr shed, ''budget_ms'' \<mapsto> AFloat (f64 (f64 (of_int (trunc_div left 1000)) / 1000))]"

definition evaluate_shed :: "henv \<Rightarrow> Task \<Rightarrow> duration \<Rightarrow> string \<Rightarrow> 's hstate \<Rightarrow> Reply \<times> Details \<times> 's hstate" where
  "evaluate_shed env t left shed st =
     (let req = tk_Req t; reply = ShedReply req shed; det = shed_details left shed
      in if shed = ReasonQueueLimit \<and> req_Phase req = PhaseRequest then
           (let fired = FireOverload (Outcomes (hs_registry st) (rt_Profile (req_Route req))) (tk_Fill t) True
                  (conn_ClientIP (req_Conn req)) shed;
                reply' = (if fi_Actions fired \<noteq> [] then reply\<lparr>rp_Actions := fi_Actions fired\<rparr> else reply);
                (err, st') = publish_bans env (fi_Bans fired) st;
                det1 = (case err of Some e \<Rightarrow> put ''geo'' (AStr e) det | None \<Rightarrow> det);
                det2 = (if fi_Names fired \<noteq> [] then put ''outcomes'' (AStrings (fi_Names fired)) det1 else det1)
            in (reply', det2, st'))
         else (reply, det, st))"

definition evaluate :: "henv \<Rightarrow> clock \<Rightarrow> Task \<Rightarrow> duration \<Rightarrow> string \<Rightarrow> 's hstate \<Rightarrow> 's hstate" where
  "evaluate env ck t left shed st =
     (if shed \<noteq> '''' then
        (case evaluate_shed env t left shed st of
           (reply, det, st') \<Rightarrow> send env ck (tk_Reply t) reply (Some (tk_Req t)) det st')
      else (case inspect env ck t st of
        (Some (reply, det), st') \<Rightarrow> send env ck (tk_Reply t) reply (Some (tk_Req t)) det st'
      | (None, st') \<Rightarrow> recoverInto env ck (tk_Reply t) (req_RID (tk_Req t)) st'))"

definition supports_phase :: "string \<Rightarrow> bool" where
  "supports_phase phase \<longleftrightarrow> phase = PhaseRequest \<or> phase = PhaseResponse \<or> phase = PhaseFrame"

definition Supports :: "henv \<Rightarrow> int \<Rightarrow> bool" where
  "Supports env v = list_ex (\<lambda>known. known = v) (he_Versions env)"

record nats_msg =
  nm_Subject :: string
  nm_Reply :: string
  nm_Data :: bytes

definition receive :: "henv \<Rightarrow> clock \<Rightarrow> nats_msg \<Rightarrow> 's hstate \<Rightarrow> 's hstate" where
  "receive env ck msg st = (case Parse (he_unmarshal env) (nm_Data msg) of
     Inl pe \<Rightarrow> send env ck (nm_Reply msg) (FallbackReply (pe_RID pe) (he_Name env) codeMalformed) None no_details st
   | Inr req \<Rightarrow>
       if \<not> Supports env (req_V req) then
         send env ck (nm_Reply msg) ((ErrorReply req codeUnsupportedVersion)\<lparr>rp_V := Protocol.Version\<rparr>) (Some req) no_details st
       else if req_Release req \<noteq> None then releaseState req st
       else if \<not> supports_phase (req_Phase req) then
         send env ck (nm_Reply msg) (ErrorReply req codeWrongPhase) (Some req) no_details st
       else st\<lparr>hs_tasks := hs_tasks st @ [\<lparr>tk_Req = req, tk_Reply = nm_Reply msg,
              tk_Personal = (he_inbox env \<noteq> '''' \<and> nm_Subject msg = he_inbox env), tk_Fill = 0, tk_enqueued = 0\<rparr>]\<rparr>)"

section \<open>What the parts of a handler keep\<close>

lemma From_reply [simp]:
  "rp_RID (From req out opt) = req_RID req" "rp_Continue (From req out opt) = None"
  "rp_Verdict (From req out opt) \<in> {VerdictAllow, VerdictScore, VerdictDeny, VerdictRedirect}"
  by (auto simp: From_def fromIntervention_def WithScore_def Let_def split: option.splits sum.splits)

lemma Deny_simps [simp]:
  "rp_RID (Deny req code opt) = req_RID req" "rp_Verdict (Deny req code opt) = VerdictDeny"
  "rp_Continue (Deny req code opt) = None" "rp_Reason (Deny req code opt) = reason code"
  by (simp_all add: Deny_def)

lemma skip_reply_simps [simp]:
  "rp_RID (skip_reply req) = req_RID req" "rp_Verdict (skip_reply req) = VerdictAllow"
  "rp_Continue (skip_reply req) = None" "rp_Reason (skip_reply req) = reason codeSkipped"
  "rp_Actions (skip_reply req) = []"
  by (simp_all add: skip_reply_def)

text \<open>The fields of the state a handler never touches before it sends.\<close>

definition quiet :: "'s hstate \<Rightarrow> 's hstate \<Rightarrow> bool" where
  "quiet st st' \<longleftrightarrow> hs_out st' = hs_out st \<and> hs_sink st' = hs_sink st \<and> hs_tasks st' = hs_tasks st"

lemma quiet_refl [simp]: "quiet st st" by (simp add: quiet_def)

lemma quiet_updates [simp]:
  "quiet st (end_tx ss st') = quiet st st'" "quiet st (st'\<lparr>hs_registry := r\<rparr>) = quiet st st'"
  "quiet st (st'\<lparr>hs_sticky := k\<rparr>) = quiet st st'" "quiet st (st'\<lparr>hs_lists := l\<rparr>) = quiet st st'"
  by (simp_all add: quiet_def end_tx_def)

lemma end_tx_fields [simp]:
  "hs_registry (end_tx ss st) = hs_registry st" "hs_sticky (end_tx ss st) = hs_sticky st"
  "hs_ended (end_tx ss st) = hs_ended st @ ss" "hs_lists (end_tx ss st) = hs_lists st"
  by (simp_all add: end_tx_def)

lemma publish_bans_quiet:
  "publish_bans env bans st = (err, st') \<Longrightarrow> \<exists>ws. st' = st\<lparr>hs_lists := hs_lists st @ ws\<rparr>"
  by (auto simp: publish_bans_def split: if_splits prod.splits intro: exI [of _ "[]"])

definition fired_by :: "henv \<Rightarrow> Request \<Rightarrow> Selection \<Rightarrow> Ask \<Rightarrow> EngineOutcome \<Rightarrow> Fired \<Rightarrow> 's hstate \<Rightarrow> Fired" where
  "fired_by env req sel ask' out extra st =
     (let reply = From req out ((he_opts env)\<lparr>op_ScalePercent := ask_Percent ask'\<rparr>)
      in join_fired (Fire (Outcomes (hs_registry st) (sel_Profile sel)) (rp_Verdict reply) (scoreOf reply)
           (eo_Matched out) (conn_ClientIP (req_Conn req)) (codeOf reply)) extra)"

lemma answer_effect:
  assumes a: "answer env req sel ask' out decorate extra st = (ok, reply, det, st')"
  shows "\<exists>ws. st' = st\<lparr>hs_lists := hs_lists st @ ws\<rparr>"
    and "reply = (if ok then (let r = From req out ((he_opts env)\<lparr>op_ScalePercent := ask_Percent ask'\<rparr>);
        acts = fi_Actions (fired_by env req sel ask' out extra st)
      in if acts \<noteq> [] then r\<lparr>rp_Actions := acts\<rparr> else r) else ErrorReply req codeGeoUnavailable)"
proof -
  define bans where "bans = fi_Bans (fired_by env req sel ask' out extra st)"
  obtain err st1 where p: "publish_bans env bans st = (err, st1)" by fastforce
  note p' = p [unfolded bans_def fired_by_def Let_def]
  show "\<exists>ws. st' = st\<lparr>hs_lists := hs_lists st @ ws\<rparr>"
    using publish_bans_quiet [OF p] a unfolding answer_def Let_def p' by (cases err) auto
  show "reply = (if ok then (let r = From req out ((he_opts env)\<lparr>op_ScalePercent := ask_Percent ask'\<rparr>);
        acts = fi_Actions (fired_by env req sel ask' out extra st)
      in if acts \<noteq> [] then r\<lparr>rp_Actions := acts\<rparr> else r) else ErrorReply req codeGeoUnavailable)"
    using a unfolding answer_def Let_def p' fired_by_def by (cases err) auto
qed

lemma answer_quiet:
  "answer env req sel ask' out decorate extra st = (ok, reply, det, st') \<Longrightarrow> quiet st0 st' = quiet st0 st \<and>
     rp_RID reply = req_RID req"
  using answer_effect [of env req sel ask' out decorate extra st ok reply det st'] by (auto simp: Let_def)

lemma offerContinue_quiet:
  "offerContinue env ck req reply det live st = (reply', det', st') \<Longrightarrow>
     quiet st0 st' = quiet st0 st \<and> rp_RID reply' = rp_RID reply"
  by (auto simp: offerContinue_def Let_def split: if_splits option.splits prod.splits bool.splits)

lemma resumeState_quiet: "resumeState ck req st = (live, st') \<Longrightarrow> quiet st0 st' = quiet st0 st"
  by (auto simp: resumeState_def split: option.splits prod.splits if_splits)

lemma conclude_quiet:
  assumes "conclude env ck t sel ask' out live st = ((reply, det), st')"
  shows "quiet st0 st' = quiet st0 st \<and> rp_RID reply = req_RID (tk_Req t)"
  using assms unfolding conclude_def Let_def
  by (auto split: prod.splits option.splits if_splits dest!: answer_quiet offerContinue_quiet)

lemma inspect_loaded_quiet:
  assumes "inspect_loaded env ck t eng sel ask' got st = ((reply, det), st')"
  shows "quiet st0 st' = quiet st0 st \<and> rp_RID reply = req_RID (tk_Req t)"
  using assms unfolding inspect_loaded_def Let_def
  by (auto split: prod.splits option.splits sum.splits dest!: conclude_quiet)

lemma inspect_request_quiet:
  assumes "inspect_request env ck t st = (res, st')"
  shows "quiet st st' \<and> (case res of None \<Rightarrow> True | Some (reply, det) \<Rightarrow> rp_RID reply = req_RID (tk_Req t))"
  using assms unfolding inspect_request_def Let_def
  by (auto split: prod.splits option.splits if_splits dest!: inspect_loaded_quiet)

lemma respond_quiet:
  assumes "respond env ck req personal ask' sel source st = (res, st')"
  shows "quiet st0 st' = quiet st0 st \<and> (case res of None \<Rightarrow> True | Some (reply, det) \<Rightarrow> rp_RID reply = req_RID req)"
  using assms unfolding respond_def Let_def
  by (auto split: prod.splits option.splits if_splits sum.splits dest!: answer_quiet)

lemma inspectResponse_quiet:
  assumes "inspectResponse env ck req personal st = (res, st')"
  shows "quiet st st' \<and> (case res of None \<Rightarrow> True | Some (reply, det) \<Rightarrow> rp_RID reply = req_RID req)"
  using assms unfolding inspectResponse_def Let_def
  by (auto split: prod.splits option.splits if_splits dest!: respond_quiet resumeState_quiet)

lemma inspectFrame_quiet:
  assumes "inspectFrame env ck req st = (res, st')"
  shows "quiet st st' \<and> (case res of None \<Rightarrow> True | Some (reply, det) \<Rightarrow> rp_RID reply = req_RID req)"
  using assms unfolding inspectFrame_def Let_def
  by (auto split: prod.splits option.splits if_splits sum.splits dest!: answer_quiet)

lemma inspect_quiet:
  assumes "inspect env ck t st = (res, st')"
  shows "quiet st st' \<and> (case res of None \<Rightarrow> True | Some (reply, det) \<Rightarrow> rp_RID reply = req_RID (tk_Req t))"
  using assms inspectResponse_quiet [of env ck "tk_Req t" "tk_Personal t" st res st']
    inspectFrame_quiet [of env ck "tk_Req t" st res st'] inspect_request_quiet [of env ck t st res st']
  unfolding inspect_def by (simp split: if_splits)

lemma evaluate_shed_quiet:
  assumes "evaluate_shed env t left shed st = (reply, det, st')"
  shows "quiet st st' \<and> rp_RID reply = req_RID (tk_Req t)"
  using assms unfolding evaluate_shed_def Let_def
  by (auto split: if_splits prod.splits dest!: publish_bans_quiet)

text \<open>An encoder that accepts every reply, as \<^verbatim>\<open>json.Marshal\<close> does on values without cycles, functions
  and non-finite floats.\<close>

definition encodes :: "henv \<Rightarrow> bool" where
  "encodes env \<longleftrightarrow> (\<forall>r. \<exists>p. he_marshal env r = Inr p)"

lemma send_out:
  assumes "encodes env"
  shows "\<exists>r p. he_marshal env r = Inr p \<and> rp_RID r = rp_RID reply \<and> score_ok r \<and>
    hs_out (send env ck subject reply req det st) = hs_out st @ (if subject = '''' then [] else [(subject, p)])"
    (is "\<exists>r p. ?P r p")
proof (cases "score_ok reply")
  case True
  obtain p where p: "he_marshal env reply = Inr p" using assms by (auto simp: encodes_def)
  then have "Marshal (he_marshal env) reply = Inr p"
    using True by (auto simp: Marshal_def score_ok_def split: option.splits)
  then have "?P reply p" using True p by (simp add: send_def)
  then show ?thesis by blast
next
  case False
  let ?f = "FallbackReply (rp_RID reply) (rp_Inspector reply) codeInternalError"
  obtain p where p: "he_marshal env ?f = Inr p" using assms by (auto simp: encodes_def)
  obtain e where "Marshal (he_marshal env) reply = Inl e"
    using False Marshal_range [of "he_marshal env" reply] by blast
  moreover have "Marshal (he_marshal env) ?f = Inr p" using p by (simp add: Marshal_def)
  ultimately have "?P ?f p" using p by (simp add: send_def score_ok_def)
  then show ?thesis by blast
qed

lemma send_keeps: "hs_tasks (send env ck subject reply req det st) = hs_tasks st"
  by (simp add: send_def Let_def split: option.splits sum.splits)

lemma evaluate_answers:
  assumes "encodes env" "tk_Reply t \<noteq> ''''"
  shows "\<exists>reply payload. he_marshal env reply = Inr payload \<and> rp_RID reply = req_RID (tk_Req t) \<and> score_ok reply \<and>
    hs_out (evaluate env ck t left shed st) = hs_out st @ [(tk_Reply t, payload)]"
proof (cases "shed = ''''")
  case False
  obtain reply det st1 where e: "evaluate_shed env t left shed st = (reply, det, st1)" by (metis surj_pair)
  then show ?thesis
    using send_out [OF assms(1), of reply ck "tk_Reply t" "Some (tk_Req t)" det st1] evaluate_shed_quiet [OF e] False assms(2)
    by (auto simp: evaluate_def quiet_def)
next
  case True
  obtain res st1 where i: "inspect env ck t st = (res, st1)" by fastforce
  note q = inspect_quiet [OF i]
  show ?thesis
  proof (cases res)
    case None
    then show ?thesis
      using send_out [OF assms(1), of "FallbackReply (req_RID (tk_Req t)) (he_Name env) codeInternalError" ck "tk_Reply t" None no_details st1]
        q True assms(2) i by (auto simp: evaluate_def recoverInto_def quiet_def)
  next
    case (Some rd)
    obtain reply det where rd: "rd = (reply, det)" by fastforce
    show ?thesis
      using send_out [OF assms(1), of reply ck "tk_Reply t" "Some (tk_Req t)" det st1] q True assms(2) i Some rd
      by (auto simp: evaluate_def quiet_def)
  qed
qed

text \<open>
  C5: every message given to a worker is answered exactly once, on its own reply subject and with its own
  id, whatever happens: shed, refused, inspected, engine failure, unavailable body, geo failure, or a
  panic of the loader; and the answer carries no score out of range.
\<close>

theorem evaluate_answers_once:
  assumes "encodes env" "tk_Reply t \<noteq> ''''"
  shows "\<exists>reply payload. he_marshal env reply = Inr payload \<and> rp_RID reply = req_RID (tk_Req t) \<and> score_ok reply \<and>
    hs_out (evaluate env ck t left shed st) = hs_out st @ [(tk_Reply t, payload)]"
  by (rule evaluate_answers [OF assms])

text \<open>
  What the three ends of a message are.  A refusal is an error with the given id and code, in the version
  of this program, sent to the message's reply subject; a release takes the transaction parked under its
  token out of the registry, and ends it, and no other.
\<close>

definition refused :: "henv \<Rightarrow> nats_msg \<Rightarrow> string \<Rightarrow> string \<Rightarrow> 's hstate \<Rightarrow> 's hstate \<Rightarrow> bool" where
  "refused env msg rid code st st' \<longleftrightarrow>
     (\<exists>reply p. rp_V reply = Protocol.Version \<and> rp_RID reply = rid \<and> rp_Verdict reply = VerdictError \<and> rp_Reason reply = reason code \<and>
        he_marshal env reply = Inr p \<and> hs_out st' = hs_out st @ [(nm_Reply msg, p)]) \<and>
     hs_tasks st' = hs_tasks st \<and> hs_sticky st' = hs_sticky st \<and> hs_ended st' = hs_ended st"

definition released_state :: "string \<Rightarrow> 's hstate \<Rightarrow> 's hstate \<Rightarrow> bool" where
  "released_state token st st' \<longleftrightarrow> hs_out st' = hs_out st \<and> hs_tasks st' = hs_tasks st \<and>
     (case hs_sticky st of
        None \<Rightarrow> hs_sticky st' = None \<and> hs_ended st' = hs_ended st
      | Some sk \<Rightarrow>
          (\<exists>sk'. hs_sticky st' = Some sk' \<and>
             (\<forall>k. map_of (rg_items sk') k = (if k = token then None else map_of (rg_items sk) k))) \<and>
          hs_ended st' = hs_ended st @ (case map_of (rg_items sk) token of None \<Rightarrow> [] | Some it \<Rightarrow> [Discard (si_live it)]))"

lemma send_refuses:
  assumes "encodes env" "rp_V reply = Protocol.Version" "rp_Verdict reply = VerdictError" "rp_Reason reply = reason code" "rp_Score reply = None"
    "nm_Reply msg \<noteq> ''''"
  shows "refused env msg (rp_RID reply) code st (send env ck (nm_Reply msg) reply req det st)"
proof -
  obtain p where p: "he_marshal env reply = Inr p" using assms(1) by (auto simp: encodes_def)
  then have "Marshal (he_marshal env) reply = Inr p" using assms(5) by (simp add: Marshal_def)
  then have "send env ck (nm_Reply msg) reply req det st = st\<lparr>hs_out := hs_out st @ [(nm_Reply msg, p)],
      hs_sink := snd (Add (he_event env) (ck_ts ck) req (Some reply) det (hs_sink st))\<rparr>"
    using assms(6) by (simp add: send_def)
  then show ?thesis using assms(2-4) p by (auto simp: refused_def)
qed

lemma releaseState_released: "req_Release req = Some rel \<Longrightarrow> released_state (rel_Token rel) st (releaseState req st)"
  by (auto simp: released_state_def releaseState_def Drop_def map_of_without end_tx_def split: option.splits)


section \<open>A wiring\<close>

text \<open>An environment with an encoder that accepts everything, no store and no lists, and rules whose engine
  finds nothing and records its calls.\<close>

definition sample_env :: henv where
  "sample_env = \<lparr>he_Name = ''modsec'', he_Versions = [Protocol.Version], he_inbox = ''waf.i.1'', he_opts = sample_options,
     he_loader = \<lparr>ld_store = None, ld_keys = None, ld_crypto = \<lparr>cl_SHA256 = (\<lambda>b. b), cl_Base64 = Some, cl_Open = (\<lambda>_ _ b. Some b)\<rparr>\<rparr>,
     he_lists = False, he_networked = (\<lambda>_. False), he_geo = (\<lambda>_ a. Inr [a]), he_unmarshal = (\<lambda>_. Inr sample_request),
     he_pairs = (\<lambda>_. Inr []), he_marshal = (\<lambda>r. Inr (rp_RID r)), he_event = (\<lambda>_. Inr [])\<rparr>"

definition sample_clock :: clock where
  "sample_clock = \<lparr>ck_now = 0, ck_ts = [], ck_us = 0\<rparr>"

definition calm_engine :: "(unit \<times> tx_call list) Engine" where
  "calm_engine = recorded_engine (null_engine\<lparr>eng_Tx := null_tx\<lparr>tx_Anomaly := (\<lambda>_. (0, 5))\<rparr>\<rparr>)"

definition sample_rules_of :: "'s Engine \<Rightarrow> 's Engine Registry" where
  "sample_rules_of eng = \<lparr>ry_dir = ''d'',
     ry_current = [(''default'', \<lparr>pf_engine = eng, pf_policy = \<lparr>pol_Rules = [], pol_Outcomes = []\<rparr>\<rparr>)], ry_unknown = Map.empty\<rparr>"

text \<open>The state of a handler as \<^verbatim>\<open>run\<close> wires it: the registry of kept transactions exists when its limit is positive.\<close>

definition fresh_state :: "'s Engine Registry \<Rightarrow> int \<Rightarrow> duration \<Rightarrow> Sink \<Rightarrow> 's hstate" where
  "fresh_state reg m ttl sink = \<lparr>hs_registry = reg, hs_sticky = (if m > 0 then Some (New_sticky m ttl) else None),
     hs_sink = sink, hs_out = [], hs_lists = [], hs_ended = [], hs_tasks = []\<rparr>"

abbreviation (input) sample_state :: "(unit \<times> tx_call list) hstate" where
  "sample_state \<equiv> fresh_state (sample_rules_of calm_engine) 8 (30 * Second) (NewSink True)"

lemma sample_encodes: "encodes sample_env" by (simp add: encodes_def sample_env_def)

theorem evaluate_answers_once_witness:
  "\<exists>payload. hs_out (evaluate sample_env sample_clock sample_task 0 [] sample_state) = [(''_INBOX.1'', payload)]"
  using evaluate_answers_once [OF sample_encodes, of sample_task sample_clock 0 "[]" sample_state]
  by (auto simp: sample_task_def fresh_state_def)


end
