(* ===== verification/Serving.thy ===== *)
theory Serving
  imports Handler
begin

text \<open>
  What the handlers of \<^verbatim>\<open>cmd/modsec\<close> promise over many messages.  \<open>serving\<close> is every state the process can
  reach once it is wired; its invariant \<open>txs_ok\<close> ties the registry of kept transactions, the engines of
  the rule sets and the transactions that ended to the record of the calls each transaction got.
\<close>

section \<open>What an answer rests on\<close>

definition inspected :: "'s Engine \<Rightarrow> Input \<Rightarrow> int \<Rightarrow> EngineOutcome \<Rightarrow> bool" where
  "inspected eng inp us out \<longleftrightarrow>
     snd (Apply eng inp us) = Inr out \<or> (\<exists>live. snd (ApplyKeep eng inp us) = Inr (out, live))"

lemma run_engine_inspected:
  "run_engine env ck req eng inp st = (ended, Inr (out, live)) \<Longrightarrow> inspected eng inp (ck_us ck) out"
  by (auto simp: run_engine_def inspected_def split: if_splits prod.splits sum.splits)

lemma offerContinue_verdict:
  "offerContinue env ck req reply det live st = (reply', det', st') \<Longrightarrow>
     rp_Verdict reply' = rp_Verdict reply \<and> rp_Actions reply' = rp_Actions reply"
  by (auto simp: offerContinue_def Let_def split: if_splits option.splits prod.splits bool.splits)

text \<open>The reply of the shared tail, before a kept transaction is offered.\<close>

definition base_reply :: "henv \<Rightarrow> Request \<Rightarrow> Selection \<Rightarrow> Ask \<Rightarrow> EngineOutcome \<Rightarrow> Fired \<Rightarrow> 's hstate \<Rightarrow> bool \<Rightarrow> Reply" where
  "base_reply env req sel ask' out extra st ok =
     (if ok then (let r = From req out ((he_opts env)\<lparr>op_ScalePercent := ask_Percent ask'\<rparr>);
          acts = fi_Actions (fired_by env req sel ask' out extra st)
        in if acts \<noteq> [] then r\<lparr>rp_Actions := acts\<rparr> else r) else ErrorReply req codeGeoUnavailable)"

lemma base_reply_simps [simp]:
  "rp_Verdict (base_reply env req sel ask' out extra st ok) =
     (if ok then rp_Verdict (From req out ((he_opts env)\<lparr>op_ScalePercent := ask_Percent ask'\<rparr>)) else VerdictError)"
  "rp_Continue (base_reply env req sel ask' out extra st ok) = None"
  by (simp_all add: base_reply_def Let_def)

lemma answer_base:
  "answer env req sel ask' out decorate extra st = (ok, reply, det, st') \<Longrightarrow>
     reply = base_reply env req sel ask' out extra st ok"
  using answer_effect(2) [of env req sel ask' out decorate extra st ok reply det st'] by (simp add: base_reply_def)

lemma conclude_verdict:
  assumes "conclude env ck t sel ask' out live st = ((reply, det), st')" "rp_Verdict reply \<noteq> VerdictError"
  shows "rp_Verdict reply = rp_Verdict (From (tk_Req t) out ((he_opts env)\<lparr>op_ScalePercent := ask_Percent ask'\<rparr>))"
  using assms unfolding conclude_def Let_def
  by (auto split: prod.splits option.splits if_splits dest!: answer_base offerContinue_verdict)

lemma bodyError_None: "bodyError b = None \<longleftrightarrow> Available b \<and> \<not> bd_Truncated b"
  by (simp add: bodyError_def)

lemma inspect_loaded_verdict:
  assumes "inspect_loaded env ck t eng sel ask' got st = ((reply, det), st')" "rp_Verdict reply \<noteq> VerdictError"
  shows "Available (got ! 2) \<and> \<not> bd_Truncated (got ! 2) \<and>
    (\<exists>out. inspected eng (input (tk_Req t) (argsOf (got ! 1)) (headers env (got ! 0)) (got ! 2)) (ck_us ck) out \<and>
       rp_Verdict reply = rp_Verdict (From (tk_Req t) out ((he_opts env)\<lparr>op_ScalePercent := ask_Percent ask'\<rparr>)))"
  using assms unfolding inspect_loaded_def Let_def
  by (auto split: prod.splits option.splits sum.splits dest!: run_engine_inspected conclude_verdict simp: bodyError_None)

lemma headers_seen:
  "(headers env b = [] \<or> Available b \<and> he_pairs env (bd_Data b) = Inr (headers env b)) \<and>
   (\<forall>pairs. Available b \<and> bd_Data b \<noteq> '''' \<and> he_pairs env (bd_Data b) = Inr pairs \<longrightarrow> headers env b = pairs)"
  by (auto simp: headers_def split: sum.split)

text \<open>
  C6: no request is let through without inspection: an answer of the request phase other than an error means that
  the message carries a skip the rules of its profile grant, or that the profile exists, its engine ran
  without an error and the verdict is the classification of what it found.  The engine saw the whole body: the body
  was available and not truncated.  It saw the query string and the headers only when they were available;
  when they were not, or the headers do not parse, the inspection goes on without them, which is why only the body is
  said to be whole.  Every object it saw has the digest its locator promises.
\<close>

theorem allowed_means_inspected:
  assumes "inspect_request env ck t st = (Some (reply, det), st')" "rp_Verdict reply \<noteq> VerdictError"
  shows "let req = tk_Req t; profile = profile_name (rt_Profile (req_Route req));
      ask' = Evaluate (req_Prior req) (PriorRules (hs_registry st) profile);
      locs = [st_Headers (req_Store req), st_Args (req_Store req), st_Body (req_Store req)]
    in ask_Skip ask' \<and> reply = skip_reply req \<or>
      (\<exists>eng got out hdr args. fst (fst (Select profile (hs_registry st))) = Some eng \<and>
        LoadMany (he_loader env) locs = Some got \<and>
        (\<forall>i < 3. Available (got ! i) \<longrightarrow> as_promised (he_loader env) (locs ! i) (got ! i)) \<and>
        Available (got ! 2) \<and> \<not> bd_Truncated (got ! 2) \<and>
        args = (if Available (got ! 1) then bd_Data (got ! 1) else '''') \<and>
        (hdr = [] \<or> Available (got ! 0) \<and> he_pairs env (bd_Data (got ! 0)) = Inr hdr) \<and>
        (\<forall>pairs. Available (got ! 0) \<and> bd_Data (got ! 0) \<noteq> '''' \<and> he_pairs env (bd_Data (got ! 0)) = Inr pairs \<longrightarrow> hdr = pairs) \<and>
        inspected eng (input req args hdr (got ! 2)) (ck_us ck) out \<and>
        rp_Verdict reply = rp_Verdict (From req out ((he_opts env)\<lparr>op_ScalePercent := ask_Percent ask'\<rparr>)))"
proof -
  define req where "req = tk_Req t"
  define locs where "locs = [st_Headers (req_Store req), st_Args (req_Store req), st_Body (req_Store req)]"
  obtain eng0 sel reg where sel: "Select (rt_Profile (req_Route req)) (hs_registry st) = ((eng0, sel), reg)" by (metis surj_pair)
  have "eng0 \<noteq> None" using assms sel by (cases eng0) (auto simp: inspect_request_def req_def Let_def)
  then obtain eng where eng: "eng0 = Some eng" by blast
  note known = Select_known [OF sel [unfolded eng]]
  have prof: "fst (fst (Select (profile_name (rt_Profile (req_Route req))) (hs_registry st))) = Some eng"
    using sel eng by (auto simp: Select_def selectFrom_def Let_def profile_name_def split: option.splits if_splits)
  define ask' where "ask' = Evaluate (req_Prior req) (PriorRules (hs_registry st) (sel_Profile sel))"
  have "ask_Skip ask' \<and> reply = skip_reply req \<or> (\<exists>got. \<not> ask_Skip ask' \<and> LoadMany (he_loader env) locs = Some got \<and>
      inspect_loaded env ck t eng sel ask' got st = ((reply, det), st'))"
    using assms(1) sel eng known
    by (auto simp: inspect_request_def req_def locs_def ask'_def Let_def split: if_splits option.splits prod.splits)
  then show ?thesis
  proof (elim disjE exE conjE)
    fix got
    assume load: "LoadMany (he_loader env) locs = Some got"
      and run: "inspect_loaded env ck t eng sel ask' got st = ((reply, det), st')"
    have seen: "\<forall>i < 3. Available (got ! i) \<longrightarrow> as_promised (he_loader env) (locs ! i) (got ! i)"
      using LoadMany_promised [OF load] by (simp add: locs_def)
    obtain out where out: "Available (got ! 2)" "\<not> bd_Truncated (got ! 2)"
      "inspected eng (input req (argsOf (got ! 1)) (headers env (got ! 0)) (got ! 2)) (ck_us ck) out"
      "rp_Verdict reply = rp_Verdict (From req out ((he_opts env)\<lparr>op_ScalePercent := ask_Percent ask'\<rparr>))"
      using inspect_loaded_verdict [OF run assms(2)] by (auto simp: req_def)
    have args: "argsOf (got ! 1) = (if Available (got ! 1) then bd_Data (got ! 1) else '''')" by (simp add: argsOf_def)
    have ask': "ask' = Evaluate (req_Prior req) (PriorRules (hs_registry st) (profile_name (rt_Profile (req_Route req))))"
      using known by (simp add: ask'_def)
    show ?thesis unfolding req_def [symmetric] Let_def ask' [symmetric] locs_def [symmetric]
      using load prof seen out args headers_seen [of env "got ! 0"] by blast
  qed (use known in \<open>simp add: ask'_def req_def\<close>)
qed


section \<open>The transactions a handler holds\<close>

definition live_open :: "('s \<Rightarrow> tx_call list) \<Rightarrow> 's Live \<Rightarrow> bool" where
  "live_open calls l \<longleftrightarrow> (\<exists>eng. recording_engine eng calls \<and> live_ops l = eng_Tx eng) \<and> CallClose \<notin> set (calls (live_tx l))"

definition engines_ok :: "('s \<Rightarrow> tx_call list) \<Rightarrow> 's Engine Registry \<Rightarrow> bool" where
  "engines_ok calls r \<longleftrightarrow> (\<forall>p \<in> set (ry_current r). recording_engine (pf_engine (snd p)) calls)"

definition parked_ok :: "('s \<Rightarrow> tx_call list) \<Rightarrow> 's Live Sticky option \<Rightarrow> bool" where
  "parked_ok calls k \<longleftrightarrow> (case k of None \<Rightarrow> True | Some sk \<Rightarrow> sticky_ok sk \<and> (\<forall>l \<in># states sk. live_open calls l))"

definition txs_ok :: "('s \<Rightarrow> tx_call list) \<Rightarrow> 's hstate \<Rightarrow> bool" where
  "txs_ok calls st \<longleftrightarrow> (\<forall>s \<in> set (hs_ended st). closed_once (calls s)) \<and> parked_ok calls (hs_sticky st) \<and>
     engines_ok calls (hs_registry st)"

lemma discard_ok [simp]: "live_open calls l \<Longrightarrow> closed_once (calls (Discard l))"
  by (auto simp: live_open_def intro: recording_engine.discard_closes)

lemma discards_ok: "(\<And>l. l \<in> set ls \<Longrightarrow> live_open calls l) \<Longrightarrow> s \<in> set (map Discard ls) \<Longrightarrow> closed_once (calls s)"
  by auto

lemma txs_ok_updates [simp]:
  "txs_ok calls (end_tx ss st) \<longleftrightarrow> txs_ok calls st \<and> (\<forall>s \<in> set ss. closed_once (calls s))"
  "txs_ok calls (st\<lparr>hs_lists := ws\<rparr>) \<longleftrightarrow> txs_ok calls st"
  "txs_ok calls (st\<lparr>hs_out := o'\<rparr>) \<longleftrightarrow> txs_ok calls st"
  "txs_ok calls (st\<lparr>hs_sink := sk\<rparr>) \<longleftrightarrow> txs_ok calls st"
  "txs_ok calls (st\<lparr>hs_tasks := ts\<rparr>) \<longleftrightarrow> txs_ok calls st"
  by (auto simp: txs_ok_def end_tx_def)

lemma Select_ok:
  assumes "txs_ok calls st" "Select name (hs_registry st) = ((eng, sel), reg)"
  shows "txs_ok calls (st\<lparr>hs_registry := reg\<rparr>) \<and> (case eng of None \<Rightarrow> True | Some e \<Rightarrow> recording_engine e calls)"
  using assms Select_fields [OF assms(2)]
  by (auto simp: txs_ok_def engines_ok_def split: option.splits dest!: map_of_SomeD)

lemma Park_ok:
  assumes "parked_ok calls (Some sk)" "live_open calls l" "Park now rid l sk = (ok, dead, sk')"
  shows "parked_ok calls (Some sk') \<and> (\<forall>d \<in> set dead. live_open calls d)"
proof -
  have "sticky_ok sk" using assms(1) by (simp add: parked_ok_def)
  note e = Park_effect [OF this assms(3)]
  have sub: "set_mset (mset dead + states sk') \<subseteq> insert l (set_mset (states sk))"
    unfolding e(2) [symmetric] by (cases ok) auto
  then show ?thesis using assms(1,2) e(1) by (auto simp: parked_ok_def)
qed

lemma Take_ok:
  assumes "parked_ok calls (Some sk)" "Take now rid sk = (x, dead, sk')"
  shows "parked_ok calls (Some sk') \<and> (\<forall>d \<in> set dead. live_open calls d) \<and> (\<forall>l. x = Some l \<longrightarrow> live_open calls l)"
  using Take_effect [of sk now rid x dead sk'] assms by (auto simp: parked_ok_def)

lemma removed_ok:
  assumes "parked_ok calls (Some sk)" "sticky_ok sk'" "states sk = mset dead + states sk'"
  shows "parked_ok calls (Some sk') \<and> (\<forall>d \<in> set dead. live_open calls d)"
  using assms by (auto simp: parked_ok_def)

lemma txs_ok_sticky:
  "txs_ok calls st \<Longrightarrow> hs_sticky st = Some sk \<Longrightarrow> parked_ok calls (Some sk)"
  "txs_ok calls st \<Longrightarrow> parked_ok calls k \<Longrightarrow> txs_ok calls (st\<lparr>hs_sticky := k\<rparr>)"
  by (auto simp: txs_ok_def)

lemma offerContinue_ok:
  assumes "txs_ok calls st" "live_open calls l" "offerContinue env ck req reply det l st = (reply', det', st')"
  shows "txs_ok calls st'"
proof (cases "hs_sticky st")
  case None
  then show ?thesis using assms by (auto simp: offerContinue_def split: if_splits)
next
  case (Some sk)
  obtain ok dead sk' where p: "Park (ck_now ck) (case req_Resume req of None \<Rightarrow> '''' | Some r \<Rightarrow> res_Token r) l sk = (ok, dead, sk')"
    by (metis surj_pair)
  note k = Park_ok [OF txs_ok_sticky(1) [OF assms(1) Some] assms(2) p]
  have "txs_ok calls (st\<lparr>hs_sticky := Some sk'\<rparr>)" using k txs_ok_sticky(2) [OF assms(1)] by blast
  moreover have "st' = end_tx [Discard l] st \<or> st' = end_tx (map Discard dead) (st\<lparr>hs_sticky := Some sk'\<rparr>) \<or>
      st' = end_tx [Discard l] (end_tx (map Discard dead) (st\<lparr>hs_sticky := Some sk'\<rparr>))"
    using assms(3) unfolding offerContinue_def Some Let_def option.case p
    by (cases ok) (simp_all split: if_splits)
  ultimately show ?thesis using assms(1,2) k by (elim disjE) simp_all
qed

lemma answer_ok: "answer env req sel ask' out decorate extra st = (ok, reply, det, st') \<Longrightarrow> txs_ok calls st' = txs_ok calls st"
  using answer_effect(1) [of env req sel ask' out decorate extra st ok reply det st'] by auto

lemma run_engine_ok:
  assumes eng: "recording_engine eng calls" and run: "run_engine env ck req eng inp st = (ended, res)"
  shows "(\<forall>s \<in> set ended. closed_once (calls s)) \<and> (case res of Inr (out, Some l) \<Rightarrow> live_open calls l | _ \<Rightarrow> True)"
proof (cases "wantsResume env st req")
  case True
  obtain s r where k: "ApplyKeep eng inp (ck_us ck) = (s, r)" by fastforce
  show ?thesis
  proof (cases r)
    case (Inl e)
    then show ?thesis
      using run True k recording_engine.keep_err [OF eng, of inp "ck_us ck"]
      by (cases s) (auto simp: run_engine_def option_list_def)
  next
    case (Inr ol)
    obtain out l where ol: "ol = (out, l)" by fastforce
    obtain s' where s: "s = Some s'" using k Inr by (auto simp: ApplyKeep_def split: sum.splits)
    have "live_open calls l"
      using recording_engine.keep_open [OF eng] k Inr ol s request_calls_open [of inp] eng by (auto simp: live_open_def)
    then show ?thesis using run True k Inr ol by (auto simp: run_engine_def)
  qed
next
  case False
  obtain s r where k: "Apply eng inp (ck_us ck) = (s, r)" by fastforce
  have "\<forall>x \<in> set (option_list s). closed_once (calls x)"
    using recording_engine.apply_closes [OF eng] k by (cases s) (auto simp: option_list_def)
  then show ?thesis using run False k by (auto simp: run_engine_def split: sum.splits)
qed

lemma conclude_ok:
  assumes "txs_ok calls st" "\<And>l. live = Some l \<Longrightarrow> live_open calls l" "conclude env ck t sel ask' out live st = (r, st')"
  shows "txs_ok calls st'"
proof -
  obtain ok reply det st1 where a: "answer env (tk_Req t) sel ask' out (\<lambda>d. d)
      (FireOverload (Outcomes (hs_registry st) (sel_Profile sel)) (tk_Fill t) False
            (conn_ClientIP (req_Conn (tk_Req t))) ReasonQueueLimit) st = (ok, reply, det, st1)" by (metis surj_pair)
  have st1: "txs_ok calls st1" using answer_ok [OF a] assms(1) by simp
  show ?thesis
  proof (cases live)
    case None
    then show ?thesis using assms(3) a st1 by (simp add: conclude_def)
  next
    case (Some l)
    obtain reply' det' st2 where c: "offerContinue env ck (tk_Req t) reply det l st1 = (reply', det', st2)" by (metis surj_pair)
    have "txs_ok calls st2" using offerContinue_ok [OF st1 assms(2) [OF Some] c] .
    then show ?thesis using assms(2) [OF Some] assms(3) a st1 Some c by (auto simp: conclude_def split: if_splits)
  qed
qed

lemma inspect_loaded_ok:
  assumes "txs_ok calls st" "recording_engine eng calls" "inspect_loaded env ck t eng sel ask' got st = (r, st')"
  shows "txs_ok calls st'"
proof -
  define inp where "inp = input (tk_Req t) (argsOf (got ! 1)) (headers env (got ! 0)) (got ! 2)"
  obtain ended res where run: "run_engine env ck (tk_Req t) eng inp st = (ended, res)" by fastforce
  note e = run_engine_ok [OF assms(2) run]
  then have st1: "txs_ok calls (end_tx ended st)" using assms(1) by simp
  show ?thesis
  proof (cases "bodyError (got ! 2)")
    case (Some cw)
    then show ?thesis using assms by (cases cw) (auto simp: inspect_loaded_def)
  next
    case None
    show ?thesis
    proof (cases res)
      case (Inl err)
      then show ?thesis using assms(3) None run st1 by (auto simp: inspect_loaded_def inp_def)
    next
      case (Inr ol)
      obtain out live where ol: "ol = (out, live)" by fastforce
      have "conclude env ck t sel ask' out live (end_tx ended st) = (r, st')"
        using assms(3) None run Inr ol by (simp add: inspect_loaded_def inp_def Let_def)
      moreover have "live_open calls l" if "live = Some l" for l using e Inr ol that by simp
      ultimately show ?thesis using conclude_ok [OF st1] by blast
    qed
  qed
qed

lemma inspect_request_ok:
  assumes "txs_ok calls st" "inspect_request env ck t st = (r, st')"
  shows "txs_ok calls st'"
proof -
  obtain eng sel reg where sel: "Select (rt_Profile (req_Route (tk_Req t))) (hs_registry st) = ((eng, sel), reg)" by (metis surj_pair)
  note k = Select_ok [OF assms(1) sel]
  show ?thesis
  proof (cases eng)
    case None
    then show ?thesis using assms(2) k sel by (auto simp: inspect_request_def Let_def)
  next
    case (Some e)
    then show ?thesis
      using assms(2) k sel inspect_loaded_ok [of calls "st\<lparr>hs_registry := reg\<rparr>" e]
      by (auto simp: inspect_request_def Let_def split: if_splits option.splits prod.splits)
  qed
qed

lemma resumeState_ok:
  assumes "txs_ok calls st" "resumeState ck req st = (live, st')"
  shows "txs_ok calls st' \<and> (\<forall>l. live = Some l \<longrightarrow> live_open calls l)"
proof (cases "\<exists>sk r. hs_sticky st = Some sk \<and> req_Resume req = Some r \<and> res_Token r \<noteq> ''''")
  case True
  then obtain sk r where sk: "hs_sticky st = Some sk" "req_Resume req = Some r" "res_Token r \<noteq> ''''" by blast
  obtain x dead sk' where t: "Take (ck_now ck) (res_Token r) sk = (x, dead, sk')" by (metis surj_pair)
  note k = Take_ok [OF txs_ok_sticky(1) [OF assms(1) sk(1)] t]
  have "txs_ok calls (st\<lparr>hs_sticky := Some sk'\<rparr>)" using k txs_ok_sticky(2) [OF assms(1)] by blast
  then show ?thesis using assms(2) k sk t by (auto simp: resumeState_def)
next
  case False
  then show ?thesis using assms by (auto simp: resumeState_def split: option.splits)
qed

definition source_ok :: "('s \<Rightarrow> tx_call list) \<Rightarrow> 's Live + 's Engine \<Rightarrow> bool" where
  "source_ok calls source = (case source of Inl l \<Rightarrow> live_open calls l | Inr e \<Rightarrow> recording_engine e calls)"

lemma run_response_ok:
  assumes "source_ok calls source" "run_response source inp rsp us = (ended, res)"
  shows "\<forall>s \<in> set ended. closed_once (calls s)"
proof (cases source)
  case (Inl l)
  then obtain eng where "recording_engine eng calls" "live_ops l = eng_Tx eng" "CallClose \<notin> set (calls (live_tx l))"
    using assms(1) by (auto simp: source_ok_def live_open_def)
  then show ?thesis
    using assms(2) Inl by (auto simp: run_response_def split: prod.splits dest: recording_engine.resume_closes)
next
  case (Inr eng)
  obtain s r where a: "ApplyResponse_tx eng inp rsp us = (s, r)" by fastforce
  show ?thesis
    using assms Inr a recording_engine.apply_response_closes [of eng calls inp rsp us]
    by (cases s) (auto simp: source_ok_def run_response_def option_list_def)
qed

lemma respond_ok:
  assumes "txs_ok calls st" "source_ok calls source" "respond env ck req personal ask' sel source st = (r, st')"
  shows "txs_ok calls st'"
proof (cases "LoadMany (he_loader env) ([st_Headers (req_Store req), st_Body (req_Store req)] @
    (case source of Inl _ \<Rightarrow> [] | Inr _ \<Rightarrow> [st_Headers (req_RequestStore req), st_Args (req_RequestStore req)]))")
  case None
  then show ?thesis using assms unfolding respond_def Let_def by simp
next
  case (Some got)
  define inp where "inp = input req (argsOf (got ! 3)) (headers env (got ! 2)) no_body"
  define rsp where "rsp = \<lparr>ri_Status = responseStatus req, ri_Proto = '''', ri_Headers = responseHeaders env req (got ! 0),
    ri_Body = bd_Data (got ! 1), ri_BodyTruncated = False\<rparr>"
  obtain ended res where run: "run_response source inp rsp (ck_us ck) = (ended, res)" by fastforce
  have st1: "txs_ok calls (end_tx ended st)" using run_response_ok [OF assms(2) run] assms(1) by simp
  show ?thesis
  proof (cases "bodyError (got ! 1)")
    case (Some cw)
    with \<open>LoadMany _ _ = _\<close> show ?thesis
      using assms unfolding respond_def Let_def by (cases cw; cases source) (auto simp: source_ok_def)
  next
    case None
    with \<open>LoadMany _ _ = _\<close> run [unfolded inp_def rsp_def] st1 show ?thesis
      using assms(3) unfolding respond_def Let_def
      by (cases res) (auto split: prod.splits dest!: answer_ok [where calls = calls])
  qed
qed

lemma inspectResponse_ok:
  assumes "txs_ok calls st" "inspectResponse env ck req personal st = (r, st')"
  shows "txs_ok calls st'"
proof -
  obtain live st1 where res: "resumeState ck req st = (live, st1)" by fastforce
  note k = resumeState_ok [OF assms(1) res]
  obtain eng sel reg where sel: "Select (rt_Profile (req_Route req)) (hs_registry st1) = ((eng, sel), reg)" by (metis surj_pair)
  note s = Select_ok [OF conjunct1 [OF k] sel]
  show ?thesis
  proof (cases live)
    case (Some l)
    then show ?thesis
      using assms(2) k res respond_ok [of calls st1 "Inl l"]
      by (auto simp: inspectResponse_def Let_def option_list_def source_ok_def split: if_splits)
  next
    case None
    show ?thesis
    proof (cases eng)
      case None
      with \<open>live = None\<close> show ?thesis
        using assms(2) k res sel s by (auto simp: inspectResponse_def Let_def option_list_def split: if_splits)
    next
      case (Some e)
      with \<open>live = None\<close> show ?thesis
        using assms(2) k res sel s respond_ok [of calls "st1\<lparr>hs_registry := reg\<rparr>" "Inr e"]
        by (auto simp: inspectResponse_def Let_def option_list_def source_ok_def split: if_splits)
    qed
  qed
qed

lemma inspectFrame_ok:
  assumes "txs_ok calls st" "inspectFrame env ck req st = (r, st')"
  shows "txs_ok calls st'"
proof -
  obtain eng sel reg where sel: "Select (rt_Profile (req_Route req)) (hs_registry st) = ((eng, sel), reg)" by (metis surj_pair)
  note k = Select_ok [OF assms(1) sel]
  show ?thesis
  proof (cases eng)
    case None
    then show ?thesis using assms(2) k sel by (auto simp: inspectFrame_def Let_def)
  next
    case (Some e)
    have closed: "\<forall>x \<in> set (option_list s). closed_once (calls x)" if "Apply e inp us = (s, res)" for inp us s res
      using k Some that recording_engine.apply_closes [of e calls inp us] by (cases s) (auto simp: option_list_def)
    show ?thesis
      using assms(2) k sel Some
      by (auto simp: inspectFrame_def Let_def split: if_splits option.splits prod.splits sum.splits
          dest!: answer_ok [where calls = calls] closed)
  qed
qed

lemma inspect_ok: "txs_ok calls st \<Longrightarrow> inspect env ck t st = (r, st') \<Longrightarrow> txs_ok calls st'"
  using inspectResponse_ok [of calls st env ck "tk_Req t" "tk_Personal t" r st']
    inspectFrame_ok [of calls st env ck "tk_Req t" r st'] inspect_request_ok [of calls st env ck t r st']
  by (auto simp: inspect_def split: if_splits)

lemma send_ok [simp]: "txs_ok calls (send env ck subject reply req det st) = txs_ok calls st"
  by (simp add: send_def Let_def split: option.splits sum.splits)

lemma recoverInto_ok [simp]: "txs_ok calls (recoverInto env ck subject rid st) = txs_ok calls st"
  by (simp add: recoverInto_def)

lemma evaluate_shed_ok: "evaluate_shed env t left shed st = (reply, det, st') \<Longrightarrow> txs_ok calls st' = txs_ok calls st"
  by (auto simp: evaluate_shed_def Let_def split: if_splits prod.splits dest!: publish_bans_quiet)

lemma evaluate_ok: "txs_ok calls st \<Longrightarrow> txs_ok calls (evaluate env ck t left shed st)"
  by (auto simp: evaluate_def split: prod.splits option.splits dest: evaluate_shed_ok inspect_ok)

lemma releaseState_ok:
  assumes "txs_ok calls st"
  shows "txs_ok calls (releaseState req st)"
proof (cases "\<exists>sk rel. hs_sticky st = Some sk \<and> req_Release req = Some rel")
  case True
  then obtain sk rel where sk: "hs_sticky st = Some sk" "req_Release req = Some rel" by blast
  obtain dead sk' where d: "Drop (rel_Token rel) sk = (dead, sk')" by fastforce
  have "sticky_ok sk" using txs_ok_sticky(1) [OF assms sk(1)] by (simp add: parked_ok_def)
  note k = removed_ok [OF txs_ok_sticky(1) [OF assms sk(1)] Drop_effect(1,2) [OF this d]]
  have "txs_ok calls (st\<lparr>hs_sticky := Some sk'\<rparr>)" using k txs_ok_sticky(2) [OF assms] by blast
  then show ?thesis using k sk d by (auto simp: releaseState_def)
next
  case False
  then show ?thesis using assms by (auto simp: releaseState_def split: option.splits)
qed

lemma receive_ok: "txs_ok calls st \<Longrightarrow> txs_ok calls (receive env ck msg st)"
  by (auto simp: receive_def releaseState_ok split: sum.splits)

section \<open>Serving\<close>

text \<open>
  Anything the process does with the handler after it is wired, in any order: messages, tasks of the
  pool, ticks and the end of the loop of the registry of kept transactions, and new rule sets.  The
  engines of every rule set record their calls.
\<close>

definition sticky_tick :: "bool \<Rightarrow> instant \<Rightarrow> 's hstate \<Rightarrow> 's hstate" where
  "sticky_tick done' now st = (case hs_sticky st of None \<Rightarrow> st
     | Some sk \<Rightarrow> (case Run_event done' now sk of
         (dead, sk') \<Rightarrow> end_tx (map Discard dead) (st\<lparr>hs_sticky := Some sk'\<rparr>)))"

inductive serving :: "henv \<Rightarrow> ('s \<Rightarrow> tx_call list) \<Rightarrow> 's hstate \<Rightarrow> bool" for env calls where
  wired: "engines_ok calls reg \<Longrightarrow> serving env calls (fresh_state reg m ttl sink)"
| message: "serving env calls st \<Longrightarrow> serving env calls (receive env ck msg st)"
| work: "serving env calls st \<Longrightarrow> serving env calls (evaluate env ck t left shed st)"
| tick: "serving env calls st \<Longrightarrow> serving env calls (sticky_tick done' now st)"
| rules: "serving env calls st \<Longrightarrow> engines_ok calls reg \<Longrightarrow> serving env calls (st\<lparr>hs_registry := reg\<rparr>)"

lemma sticky_tick_ok:
  assumes "txs_ok calls st"
  shows "txs_ok calls (sticky_tick done' now st)"
proof (cases "hs_sticky st")
  case (Some sk)
  obtain dead sk' where d: "Run_event done' now sk = (dead, sk')" by fastforce
  have "sticky_ok sk" using txs_ok_sticky(1) [OF assms Some] by (simp add: parked_ok_def)
  note e = Run_event_effect [OF this d]
  note k = removed_ok [OF txs_ok_sticky(1) [OF assms Some], of sk' dead]
  have "txs_ok calls (st\<lparr>hs_sticky := Some sk'\<rparr>)" using e k txs_ok_sticky(2) [OF assms] by blast
  then show ?thesis using e k Some d by (auto simp: sticky_tick_def)
qed (use assms in \<open>simp add: sticky_tick_def\<close>)

lemma serving_ok: "serving env calls st \<Longrightarrow> txs_ok calls st"
proof (induction rule: serving.induct)
  case (wired reg m ttl sink)
  then show ?case
    by (simp add: txs_ok_def fresh_state_def parked_ok_def New_sticky_def sticky_ok_def states_def)
next
  case (rules st reg)
  then show ?case by (simp add: txs_ok_def)
qed (simp_all add: receive_ok evaluate_ok sticky_tick_ok)

section \<open>Counting transactions\<close>

text \<open>The transactions that ended and those that are kept.\<close>

definition total :: "'s hstate \<Rightarrow> nat" where
  "total st = length (hs_ended st) + (case hs_sticky st of None \<Rightarrow> 0 | Some sk \<Rightarrow> size (states sk))"

definition kept_ok :: "'s hstate \<Rightarrow> bool" where
  "kept_ok st \<longleftrightarrow> (case hs_sticky st of None \<Rightarrow> True | Some sk \<Rightarrow> sticky_ok sk)"

lemma total_updates [simp]:
  "total (end_tx ss st) = total st + length ss" "total (st\<lparr>hs_registry := reg\<rparr>) = total st" "total (st\<lparr>hs_lists := ws\<rparr>) = total st"
  "total (st\<lparr>hs_out := o'\<rparr>) = total st" "total (st\<lparr>hs_sink := snk\<rparr>) = total st" "total (st\<lparr>hs_tasks := ts\<rparr>) = total st"
  "hs_sticky st = Some sk \<Longrightarrow> total (st\<lparr>hs_sticky := Some sk'\<rparr>) + size (states sk) = total st + size (states sk')"
  by (simp_all add: total_def)

lemma kept_ok_updates [simp]:
  "kept_ok (end_tx ss st) = kept_ok st" "kept_ok (st\<lparr>hs_registry := reg\<rparr>) = kept_ok st" "kept_ok (st\<lparr>hs_lists := ws\<rparr>) = kept_ok st"
  by (simp_all add: kept_ok_def)

lemma kept_ok_sticky: "kept_ok st \<Longrightarrow> hs_sticky st = Some sk \<Longrightarrow> sticky_ok sk"
  by (simp add: kept_ok_def)

lemma offerContinue_counts:
  assumes "kept_ok st" "hs_sticky st = Some sk" "offerContinue env ck req reply det l st = (reply', det', st')"
  shows "total st' = Suc (total st)"
proof (cases "rp_Verdict reply = VerdictDeny \<or> rp_Verdict reply = VerdictRedirect")
  case True
  then show ?thesis using assms(3) by (auto simp: offerContinue_def)
next
  case False
  obtain ok dead sk' where p: "Park (ck_now ck) (case req_Resume req of None \<Rightarrow> '''' | Some r \<Rightarrow> res_Token r) l sk = (ok, dead, sk')"
    by (metis surj_pair)
  note e = arg_cong [OF Park_effect(2) [OF kept_ok_sticky [OF assms(1,2)] p], of size]
  note t = total_updates(7) [OF assms(2), of sk']
  have "st' = (if ok then end_tx (map Discard dead) (st\<lparr>hs_sticky := Some sk'\<rparr>)
      else end_tx [Discard l] (end_tx (map Discard dead) (st\<lparr>hs_sticky := Some sk'\<rparr>)))"
    using assms(2,3) False p by (cases ok) (auto simp: offerContinue_def Let_def)
  then show ?thesis using e t by (cases ok) auto
qed

lemma answer_counts: "answer env req sel ask' out decorate extra st = (ok, reply, det, st') \<Longrightarrow> total st' = total st \<and> hs_sticky st' = hs_sticky st"
  using answer_effect(1) [of env req sel ask' out decorate extra st ok reply det st'] by auto

text \<open>
  What a task makes the engine begin: \<open>engine_input\<close> is the engine and the input the handlers reach for a
  message, if they get as far as the engine with a new transaction, and the engine begins one unless
  it refuses it.
\<close>

definition new_tx :: "'s Engine \<Rightarrow> Input \<Rightarrow> nat" where
  "new_tx eng inp = (case eng_NewTransaction eng (in_RID inp) of Inl _ \<Rightarrow> 0 | Inr _ \<Rightarrow> 1)"

definition loads :: "henv \<Rightarrow> Locator option list \<Rightarrow> nat \<Rightarrow> Body list option" where
  "loads env locs b = (case LoadMany (he_loader env) locs of
     Some got \<Rightarrow> if bodyError (got ! b) = None then Some got else None | None \<Rightarrow> None)"

definition request_input :: "henv \<Rightarrow> Request \<Rightarrow> 's hstate \<Rightarrow> ('s Engine \<times> Input) option" where
  "request_input env req st = (case Select (rt_Profile (req_Route req)) (hs_registry st) of ((eng, sel), reg) \<Rightarrow>
     Option.bind eng (\<lambda>e.
       if ask_Skip (Evaluate (req_Prior req) (PriorRules reg (sel_Profile sel))) then None
       else map_option (\<lambda>got. (e, input req (argsOf (got ! 1)) (headers env (got ! 0)) (got ! 2)))
         (loads env [st_Headers (req_Store req), st_Args (req_Store req), st_Body (req_Store req)] 2)))"

definition frame_input :: "henv \<Rightarrow> Request \<Rightarrow> 's hstate \<Rightarrow> ('s Engine \<times> Input) option" where
  "frame_input env req st = (case Select (rt_Profile (req_Route req)) (hs_registry st) of ((eng, sel), reg) \<Rightarrow>
     Option.bind eng (\<lambda>e.
       if frameOpcode req = ''binary'' \<or> ask_Skip (Evaluate (req_Prior req) (PriorRules reg (sel_Profile sel))) then None
       else map_option (\<lambda>got. (e, frameInput req (headers env (got ! 0)) (got ! 1)))
         (loads env [st_Headers (req_RequestStore req), st_Body (req_Store req)] 1)))"

definition response_input :: "henv \<Rightarrow> clock \<Rightarrow> Request \<Rightarrow> 's hstate \<Rightarrow> ('s Engine \<times> Input) option" where
  "response_input env ck req st =
     (if fst (resumeState ck req st) \<noteq> None \<or> ask_Skip (Evaluate (req_Prior req) (PriorRules (hs_registry st) (rt_Profile (req_Route req)))) \<or>
         (case req_Resume req of None \<Rightarrow> False | Some r \<Rightarrow> res_Require r) then None
      else Option.bind (fst (fst (Select (rt_Profile (req_Route req)) (hs_registry st)))) (\<lambda>e.
        map_option (\<lambda>got. (e, input req (argsOf (got ! 3)) (headers env (got ! 2)) no_body))
          (loads env [st_Headers (req_Store req), st_Body (req_Store req), st_Headers (req_RequestStore req), st_Args (req_RequestStore req)] 1)))"

definition engine_input :: "henv \<Rightarrow> clock \<Rightarrow> Request \<Rightarrow> 's hstate \<Rightarrow> ('s Engine \<times> Input) option" where
  "engine_input env ck req st =
     (if req_Phase req = PhaseResponse then response_input env ck req st
      else if req_Phase req = PhaseFrame then frame_input env req st
      else request_input env req st)"

definition begun :: "('s Engine \<times> Input) option \<Rightarrow> nat" where
  "begun reached = (case reached of None \<Rightarrow> 0 | Some (eng, inp) \<Rightarrow> new_tx eng inp)"

lemma begun_simps [simp]: "begun None = 0" "begun (Some (eng, inp)) = new_tx eng inp"
  by (simp_all add: begun_def)

lemma begin_counts: "begin_tx eng inp = r \<Longrightarrow> new_tx eng inp = (case r of Inl (e, s) \<Rightarrow> length (option_list s) | Inr _ \<Rightarrow> 1)"
  by (auto simp: begin_tx_def new_tx_def option_list_def Let_def split: sum.splits prod.splits option.splits)

lemma Apply_counts: "Apply eng inp us = (s, res) \<Longrightarrow> length (option_list s) = new_tx eng inp \<and> (\<not> isl res \<longrightarrow> new_tx eng inp = 1)"
  using begin_counts [OF refl, of eng inp] by (auto simp: Apply_def option_list_def Let_def split: sum.splits prod.splits)

lemma ApplyKeep_counts:
  "ApplyKeep eng inp us = (s, res) \<Longrightarrow> new_tx eng inp = (if isl res then length (option_list s) else 1)"
  using begin_counts [OF refl, of eng inp] by (auto simp: ApplyKeep_def option_list_def split: sum.splits prod.splits)

lemma ApplyResponse_counts: "ApplyResponse_tx eng inp rsp us = (s, res) \<Longrightarrow> length (option_list s) = new_tx eng inp"
  using begin_counts [OF refl, of eng inp] by (auto simp: ApplyResponse_tx_def option_list_def split: sum.splits prod.splits)

lemma run_engine_counts:
  assumes "run_engine env ck req eng inp st = (ended, res)"
  shows "(case res of Inl _ \<Rightarrow> length ended = new_tx eng inp | Inr (out, None) \<Rightarrow> length ended = 1 \<and> new_tx eng inp = 1
    | Inr (out, Some l) \<Rightarrow> ended = [] \<and> new_tx eng inp = 1 \<and> hs_sticky st \<noteq> None)"
proof (cases "wantsResume env st req")
  case True
  obtain s r where k: "ApplyKeep eng inp (ck_us ck) = (s, r)" by fastforce
  have "hs_sticky st \<noteq> None" using True by (auto simp: wantsResume_def split: if_splits)
  then show ?thesis using assms True k ApplyKeep_counts [OF k] by (cases r) (auto simp: run_engine_def split: prod.splits)
next
  case False
  obtain s r where k: "Apply eng inp (ck_us ck) = (s, r)" by fastforce
  then show ?thesis using Apply_counts [OF k] assms False by (cases r) (auto simp: run_engine_def)
qed

lemma conclude_counts:
  assumes "kept_ok st" "live \<noteq> None \<Longrightarrow> hs_sticky st \<noteq> None" "conclude env ck t sel ask' out live st = (r, st')"
  shows "total st' = total st + (if live = None then 0 else 1)"
proof -
  obtain ok reply det st1 where a: "answer env (tk_Req t) sel ask' out (\<lambda>d. d)
      (FireOverload (Outcomes (hs_registry st) (sel_Profile sel)) (tk_Fill t) False
            (conn_ClientIP (req_Conn (tk_Req t))) ReasonQueueLimit) st = (ok, reply, det, st1)" by (metis surj_pair)
  note c = answer_counts [OF a]
  show ?thesis
  proof (cases live)
    case None
    then show ?thesis using assms(3) a c by (simp add: conclude_def)
  next
    case (Some l)
    then obtain sk where sk: "hs_sticky st1 = Some sk" using assms(2) c by auto
    have ok1: "kept_ok st1" using assms(1) c by (simp add: kept_ok_def)
    obtain reply' det' st2 where o: "offerContinue env ck (tk_Req t) reply det l st1 = (reply', det', st2)" by (metis surj_pair)
    show ?thesis using assms(3) a c Some o offerContinue_counts [OF ok1 sk o] by (auto simp: conclude_def split: if_splits)
  qed
qed

lemma inspect_loaded_counts:
  assumes "kept_ok st" "inspect_loaded env ck t eng sel ask' got st = ((reply, det), st')"
  defines "inp \<equiv> input (tk_Req t) (argsOf (got ! 1)) (headers env (got ! 0)) (got ! 2)"
  shows "total st' = total st + (if bodyError (got ! 2) = None then new_tx eng inp else 0) \<and>
    (rp_Verdict reply \<noteq> VerdictError \<longrightarrow> bodyError (got ! 2) = None \<and> new_tx eng inp = 1)"
proof -
  obtain ended res where run: "run_engine env ck (tk_Req t) eng inp st = (ended, res)" by fastforce
  note e = run_engine_counts [OF run]
  show ?thesis
  proof (cases "bodyError (got ! 2)")
    case (Some cw)
    then show ?thesis using assms(2) by (cases cw) (auto simp: inspect_loaded_def)
  next
    case None
    show ?thesis
    proof (cases res)
      case (Inl err)
      then show ?thesis using assms(2) None run e by (auto simp: inspect_loaded_def inp_def)
    next
      case (Inr ol)
      obtain out live where ol: "ol = (out, live)" by fastforce
      have c: "conclude env ck t sel ask' out live (end_tx ended st) = ((reply, det), st')"
        using assms(2) None run Inr ol by (simp add: inspect_loaded_def inp_def Let_def)
      have "total st' = total (end_tx ended st) + (if live = None then 0 else 1)"
        by (rule conclude_counts [OF _ _ c]) (use assms(1) e Inr ol in \<open>auto split: option.splits\<close>)
      then show ?thesis using e Inr ol None by (cases live) auto
    qed
  qed
qed

lemma inspect_request_counts:
  assumes "kept_ok st" "inspect_request env ck t st = (r, st')"
  shows "total st' = total st + begun (request_input env (tk_Req t) st) \<and>
    (\<forall>reply det. r = Some (reply, det) \<and> rp_Verdict reply \<noteq> VerdictError \<and> reply \<noteq> skip_reply (tk_Req t) \<longrightarrow>
      begun (request_input env (tk_Req t) st) = 1)"
proof -
  obtain eng sel reg where sel: "Select (rt_Profile (req_Route (tk_Req t))) (hs_registry st) = ((eng, sel), reg)" by (metis surj_pair)
  show ?thesis
  proof (cases eng)
    case None
    then show ?thesis using assms(2) sel by (auto simp: inspect_request_def request_input_def Let_def)
  next
    case (Some e)
    then show ?thesis
      using assms sel inspect_loaded_counts [of "st\<lparr>hs_registry := reg\<rparr>" env ck t e]
      by (auto simp: inspect_request_def request_input_def loads_def Let_def split: if_splits option.splits prod.splits)
  qed
qed


lemma resumeState_counts:
  assumes "kept_ok st" "resumeState ck req st = (live, st')"
  shows "total st' + (if live = None then 0 else 1) = total st \<and> kept_ok st'"
proof (cases "\<exists>sk r. hs_sticky st = Some sk \<and> req_Resume req = Some r \<and> res_Token r \<noteq> ''''")
  case True
  then obtain sk r where sk: "hs_sticky st = Some sk" "req_Resume req = Some r" "res_Token r \<noteq> ''''" by blast
  obtain x dead sk' where t: "Take (ck_now ck) (res_Token r) sk = (x, dead, sk')" by (metis surj_pair)
  note k = kept_ok_sticky [OF assms(1) sk(1)]
  note e = arg_cong [OF Take_effect(2) [OF k t], of size] and u = total_updates(7) [OF sk(1), of sk']
  have "live = x" "st' = end_tx (map Discard dead) (st\<lparr>hs_sticky := Some sk'\<rparr>)" using assms(2) sk t by (auto simp: resumeState_def)
  then show ?thesis using e u Take_effect(1) [OF k t] by (cases x) (auto simp: kept_ok_def)
next
  case False
  then show ?thesis using assms by (auto simp: resumeState_def split: option.splits)
qed

lemma resumeState_registry: "resumeState ck req st = (live, st') \<Longrightarrow> hs_registry st' = hs_registry st"
  by (auto simp: resumeState_def split: option.splits if_splits prod.splits)

lemma run_response_counts:
  assumes "run_response source inp rsp us = (ended, res)"
  shows "length ended = (case source of Inl _ \<Rightarrow> 1 | Inr eng \<Rightarrow> new_tx eng inp)"
proof (cases source)
  case (Inr eng)
  obtain s r where "ApplyResponse_tx eng inp rsp us = (s, r)" by fastforce
  then show ?thesis using assms Inr ApplyResponse_counts by (auto simp: run_response_def)
qed (use assms in \<open>auto simp: run_response_def split: prod.splits\<close>)

lemma respond_counts:
  assumes "respond env ck req personal ask' sel source st = (r, st')" "\<And>locs. LoadMany (he_loader env) locs \<noteq> None"
  shows "total st' = total st + (case source of Inl _ \<Rightarrow> 1 | Inr e \<Rightarrow>
    begun (map_option (\<lambda>got. (e, input req (argsOf (got ! 3)) (headers env (got ! 2)) no_body))
      (loads env [st_Headers (req_Store req), st_Body (req_Store req), st_Headers (req_RequestStore req), st_Args (req_RequestStore req)] 1)))"
proof -
  obtain got where got: "LoadMany (he_loader env) ([st_Headers (req_Store req), st_Body (req_Store req)] @
    (case source of Inl _ \<Rightarrow> [] | Inr _ \<Rightarrow> [st_Headers (req_RequestStore req), st_Args (req_RequestStore req)])) = Some got"
    using assms(2) by blast
  define inp where "inp = input req (argsOf (got ! 3)) (headers env (got ! 2)) no_body"
  define rsp where "rsp = \<lparr>ri_Status = responseStatus req, ri_Proto = '''', ri_Headers = responseHeaders env req (got ! 0),
    ri_Body = bd_Data (got ! 1), ri_BodyTruncated = False\<rparr>"
  obtain ended res where run: "run_response source inp rsp (ck_us ck) = (ended, res)" by fastforce
  note e = run_response_counts [OF run]
  show ?thesis
  proof (cases "bodyError (got ! 1)")
    case (Some cw)
    then show ?thesis using assms(1) got unfolding respond_def Let_def loads_def by (cases cw; cases source) auto
  next
    case None
    have "total st' = total st + length ended"
      using assms(1) got None run [unfolded inp_def rsp_def] unfolding respond_def Let_def
      by (cases res) (auto split: prod.splits dest!: answer_counts)
    then show ?thesis using e got None by (cases source) (auto simp: loads_def inp_def)
  qed
qed

lemma inspectResponse_counts:
  assumes "kept_ok st" "inspectResponse env ck req personal st = (r, st')" "\<And>locs. LoadMany (he_loader env) locs \<noteq> None"
  shows "total st' = total st + begun (response_input env ck req st)"
proof -
  obtain live st1 where res: "resumeState ck req st = (live, st1)" by fastforce
  note k = resumeState_counts [OF assms(1) res] and reg = resumeState_registry [OF res]
  obtain eng sel reg' where sel: "Select (rt_Profile (req_Route req)) (hs_registry st) = ((eng, sel), reg')" by (metis surj_pair)
  show ?thesis
  proof (cases live)
    case (Some l)
    have "total st' = Suc (total st1) \<or> (\<exists>ask' s. respond env ck req personal ask' s (Inl l) st1 = (r, st'))"
      using assms(2) res Some by (auto simp: inspectResponse_def Let_def option_list_def split: if_splits)
    then show ?thesis using k Some res respond_counts [OF _ assms(3)] by (fastforce simp: response_input_def)
  next
    case None
    show ?thesis
      using assms(2) res sel None k reg
      by (cases eng) (auto simp: inspectResponse_def response_input_def Let_def option_list_def split: if_splits
        dest!: respond_counts [OF _ assms(3)])
  qed
qed

lemma inspectFrame_counts:
  assumes "inspectFrame env ck req st = (r, st')" "\<And>locs. LoadMany (he_loader env) locs \<noteq> None"
  shows "total st' = total st + begun (frame_input env req st)"
proof -
  obtain eng sel reg where sel: "Select (rt_Profile (req_Route req)) (hs_registry st) = ((eng, sel), reg)" by (metis surj_pair)
  show ?thesis
  proof (cases eng)
    case None
    then show ?thesis using assms sel by (auto simp: inspectFrame_def frame_input_def Let_def)
  next
    case (Some e)
    obtain got where got: "LoadMany (he_loader env) [st_Headers (req_RequestStore req), st_Body (req_Store req)] = Some got"
      using assms(2) by blast
    obtain s res where run: "Apply e (frameInput req (headers env (got ! 0)) (got ! 1)) (ck_us ck) = (s, res)" by fastforce
    note frame = assms(1) [unfolded inspectFrame_def Let_def sel Some, simplified got, simplified]
    show ?thesis
    proof (cases "frameOpcode req = ''binary'' \<or> ask_Skip (Evaluate (req_Prior req) (PriorRules reg (sel_Profile sel)))")
      case True
      then show ?thesis using frame sel Some by (auto simp: frame_input_def split: if_splits)
    next
      case False
      show ?thesis
      proof (cases "bodyError (got ! 1)")
        case None
        have "total st' = total st + length (option_list s)"
        proof (cases res)
          case (Inr out)
          obtain ok reply det st2 where a: "answer env req sel (Evaluate (req_Prior req) (PriorRules reg (sel_Profile sel))) out
            (\<lambda>d. d\<lparr>dt_Engine := dt_Engine d ++ frameEngine req\<rparr>) no_fired (end_tx (option_list s) (st\<lparr>hs_registry := reg\<rparr>)) =
              (ok, reply, det, st2)" by (rule prod_cases4)
          show ?thesis using frame False None run Inr a answer_counts [OF a] by simp
        qed (use frame False None run in auto)
        then show ?thesis using Apply_counts [OF run] sel Some False None got by (simp add: frame_input_def loads_def)
      qed (use frame False got sel Some in \<open>auto simp: frame_input_def loads_def split: prod.splits\<close>)
    qed
  qed
qed

lemma send_counts [simp]: "total (send env ck subject reply req det st) = total st"
  by (simp add: send_def Let_def split: option.splits sum.splits)

lemma recoverInto_counts [simp]: "total (recoverInto env ck subject rid st) = total st"
  by (simp add: recoverInto_def)

lemma evaluate_shed_counts: "evaluate_shed env t left shed st = (reply, det, st') \<Longrightarrow> total st' = total st"
  by (auto simp: evaluate_shed_def Let_def split: if_splits prod.splits dest!: publish_bans_quiet)

lemma evaluate_counts:
  assumes "kept_ok st" "\<And>locs. LoadMany (he_loader env) locs \<noteq> None"
  shows "total (evaluate env ck t left shed st) = total st + (if shed = '''' then begun (engine_input env ck (tk_Req t) st) else 0)"
proof (cases "shed = ''''")
  case True
  obtain r st1 where i: "inspect env ck t st = (r, st1)" by fastforce
  have "total st1 = total st + begun (engine_input env ck (tk_Req t) st)"
  proof (cases "req_Phase (tk_Req t) = PhaseResponse")
    case True
    then show ?thesis using i inspectResponse_counts [OF assms(1) _ assms(2)] by (simp add: inspect_def engine_input_def)
  next
    case False
    then show ?thesis
      using i inspectFrame_counts [OF _ assms(2)] inspect_request_counts [OF assms(1)]
      by (cases "req_Phase (tk_Req t) = PhaseFrame") (auto simp: inspect_def engine_input_def)
  qed
  then show ?thesis using True i by (auto simp: evaluate_def split: option.splits prod.splits)
qed (auto simp: evaluate_def split: prod.splits dest!: evaluate_shed_counts)

lemma releaseState_counts:
  assumes "kept_ok st"
  shows "total (releaseState req st) = total st"
proof (cases "\<exists>sk rel. hs_sticky st = Some sk \<and> req_Release req = Some rel")
  case True
  then obtain sk rel where sk: "hs_sticky st = Some sk" "req_Release req = Some rel" by blast
  obtain dead sk' where d: "Drop (rel_Token rel) sk = (dead, sk')" by fastforce
  note e = arg_cong [OF Drop_effect(2) [OF kept_ok_sticky [OF assms sk(1)] d], of size] and u = total_updates(7) [OF sk(1), of sk']
  show ?thesis using e u sk d by (auto simp: releaseState_def)
qed (auto simp: releaseState_def split: option.splits)

lemma receive_counts: "kept_ok st \<Longrightarrow> total (receive env ck msg st) = total st"
  by (auto simp: receive_def releaseState_counts split: sum.splits)

lemma sticky_tick_counts:
  assumes "kept_ok st"
  shows "total (sticky_tick done' now st) = total st"
proof (cases "hs_sticky st")
  case (Some sk)
  obtain dead sk' where d: "Run_event done' now sk = (dead, sk')" by fastforce
  have e: "size (states sk) = size (mset dead) + size (states sk')" using Run_event_effect [OF kept_ok_sticky [OF assms Some] d] by simp
  show ?thesis using e total_updates(7) [OF Some, of sk'] Some d by (auto simp: sticky_tick_def)
qed (simp add: sticky_tick_def)

lemma txs_ok_kept: "txs_ok calls st \<Longrightarrow> kept_ok st"
  by (auto simp: txs_ok_def parked_ok_def kept_ok_def split: option.splits)

text \<open>
  C9: over any interleaving of messages, tasks, ticks and reloads no engine transaction leaks and none is closed
  twice.  Every transaction that ended got exactly one close, as its last call; every kept one is still open; and
  when the loop of the registry ends, nothing is kept and all of them are closed.  Messages and ticks only move
  transactions from the kept to the ended ones.  A task accounts for every transaction on every path, the answers
  with an error included: what was kept or ended before, and the one transaction the engine began for it, if
  it did, are kept or ended after it.  (The loader must not panic: a task that panics while it has a kept
  transaction in hand loses it.)  A request answered with neither an error nor a skip did begin one.
\<close>

theorem transactions_close_once:
  assumes "serving env calls st"
  shows "(\<forall>s \<in> set (hs_ended st). closed_once (calls s)) \<and>
    (case hs_sticky st of None \<Rightarrow> True | Some sk \<Rightarrow> (\<forall>l \<in># states sk. CallClose \<notin> set (calls (live_tx l)))) \<and>
    (let st' = sticky_tick True now st in
      (\<forall>s \<in> set (hs_ended st'). closed_once (calls s)) \<and>
      (case hs_sticky st' of None \<Rightarrow> True | Some sk \<Rightarrow> states sk = {#})) \<and>
    total (receive env ck msg st) = total st \<and> total (sticky_tick done' now st) = total st \<and>
    ((\<forall>locs. LoadMany (he_loader env) locs \<noteq> None) \<longrightarrow>
      total (evaluate env ck t left shed st) = total st + (if shed = '''' then begun (engine_input env ck (tk_Req t) st) else 0)) \<and>
    (\<forall>reply det st'. inspect_request env ck t st = (Some (reply, det), st') \<and> rp_Verdict reply \<noteq> VerdictError \<and>
      reply \<noteq> skip_reply (tk_Req t) \<longrightarrow> begun (request_input env (tk_Req t) st) = 1 \<and> total st' = Suc (total st))"
proof -
  note ok = serving_ok [OF assms] and closed = sticky_tick_ok [OF serving_ok [OF assms], of True now]
  note kept = txs_ok_kept [OF ok]
  have "case hs_sticky (sticky_tick True now st) of None \<Rightarrow> True | Some sk \<Rightarrow> states sk = {#}"
    by (auto simp: sticky_tick_def Run_event_def Close_sticky_def states_def split: option.splits)
  then have "(\<forall>s \<in> set (hs_ended st). closed_once (calls s)) \<and>
    (case hs_sticky st of None \<Rightarrow> True | Some sk \<Rightarrow> (\<forall>l \<in># states sk. CallClose \<notin> set (calls (live_tx l)))) \<and>
    (let st' = sticky_tick True now st in
      (\<forall>s \<in> set (hs_ended st'). closed_once (calls s)) \<and>
      (case hs_sticky st' of None \<Rightarrow> True | Some sk \<Rightarrow> states sk = {#}))"
    using ok closed unfolding Let_def txs_ok_def parked_ok_def live_open_def by (auto split: option.splits)
  moreover have "begun (request_input env (tk_Req t) st) = 1 \<and> total st' = Suc (total st)"
    if "inspect_request env ck t st = (Some (reply, det), st')" "rp_Verdict reply \<noteq> VerdictError" "reply \<noteq> skip_reply (tk_Req t)"
    for reply det st'
    using inspect_request_counts [OF kept that(1)] that(2,3) by simp
  moreover have "total (evaluate env ck t left shed st) = total st + (if shed = '''' then begun (engine_input env ck (tk_Req t) st) else 0)"
    if "\<forall>locs. LoadMany (he_loader env) locs \<noteq> None"
    using evaluate_counts [OF kept] that by blast
  ultimately show ?thesis using receive_counts [OF kept] sticky_tick_counts [OF kept] by blast
qed


section \<open>An offer to continue\<close>

lemma offerContinue_parked:
  assumes "offerContinue env ck req reply det l st = (reply', det', st')" "rp_Continue reply = None" "rp_Continue reply' = Some c"
    and ok: "\<And>sk. hs_sticky st = Some sk \<Longrightarrow> sticky_ok sk"
  shows "rp_Verdict reply \<noteq> VerdictDeny \<and> rp_Verdict reply \<noteq> VerdictRedirect \<and>
    (\<exists>sk. hs_sticky st' = Some sk \<and> c = \<lparr>ct_Subject = he_inbox env, ct_TTLMS = trunc_div (rg_ttl sk) Millisecond\<rparr> \<and>
      (\<forall>at' \<le> ck_now ck + rg_ttl sk. held_at at' (case req_Resume req of None \<Rightarrow> '''' | Some r \<Rightarrow> res_Token r) sk = Some l))"
proof -
  define token where "token = (case req_Resume req of None \<Rightarrow> '''' | Some r \<Rightarrow> res_Token r)"
  have live: "rp_Verdict reply \<noteq> VerdictDeny \<and> rp_Verdict reply \<noteq> VerdictRedirect"
    using assms(1-3) by (auto simp: offerContinue_def split: if_splits)
  obtain sk where sk: "hs_sticky st = Some sk"
    using assms(1-3) live by (auto simp: offerContinue_def split: option.splits)
  obtain dead sk' where p: "Park (ck_now ck) token l sk = (True, dead, sk')"
    using assms(1-3) live sk by (auto simp: offerContinue_def Let_def token_def split: prod.splits bool.splits)
  note e = Park_effect [OF ok [OF sk] p]
  have "hs_sticky st' = Some sk'" "c = \<lparr>ct_Subject = he_inbox env, ct_TTLMS = trunc_div (rg_ttl sk') Millisecond\<rparr>"
    using assms(1,3) live sk p by (auto simp: offerContinue_def Let_def token_def)
  moreover have "held_at u token sk' = Some l" if "u \<le> ck_now ck + rg_ttl sk'" for u
    using e(4) e(5) [of token] that by (simp add: held_at_def)
  ultimately show ?thesis using live unfolding token_def by blast
qed

lemma conclude_continues:
  assumes "conclude env ck t sel ask' out live st = ((reply, det), st')" "rp_Continue reply = Some c"
  shows "\<exists>l reply0 det0 st0. live = Some l \<and> hs_sticky st0 = hs_sticky st \<and> rp_Continue reply0 = None \<and>
    offerContinue env ck (tk_Req t) reply0 det0 l st0 = (reply, det, st')"
proof -
  obtain ok reply0 det0 st0 where a: "answer env (tk_Req t) sel ask' out (\<lambda>d. d)
      (FireOverload (Outcomes (hs_registry st) (sel_Profile sel)) (tk_Fill t) False
            (conn_ClientIP (req_Conn (tk_Req t))) ReasonQueueLimit) st = (ok, reply0, det0, st0)" by (metis surj_pair)
  have r0: "rp_Continue reply0 = None" "hs_sticky st0 = hs_sticky st"
    using answer_effect [OF a] by (auto simp: Let_def)
  show ?thesis
  proof (cases live)
    case None
    then show ?thesis using assms a r0 by (simp add: conclude_def)
  next
    case (Some l)
    then show ?thesis using assms a r0 by (auto simp: conclude_def split: if_splits prod.splits)
  qed
qed

text \<open>
  C10: an offer to continue is kept: a reply that carries one is neither a denial nor a redirect, names the
  inbox of this process and the lifetime of the registry, and until that lifetime is over a response
  message with the token of the request gets exactly the transaction the engine ran for that request.
\<close>

theorem continue_means_parked:
  assumes "inspect_request env ck t st = (Some (reply, det), st')" "rp_Continue reply = Some c"
    and ok: "case hs_sticky st of None \<Rightarrow> True | Some sk \<Rightarrow> sticky_ok sk"
  shows "\<exists>sk r live eng inp out. hs_sticky st' = Some sk \<and> req_Resume (tk_Req t) = Some r \<and>
    fst (fst (Select (rt_Profile (req_Route (tk_Req t))) (hs_registry st))) = Some eng \<and>
    snd (ApplyKeep eng inp (ck_us ck)) = Inr (out, live) \<and>
    rp_Verdict reply \<notin> {VerdictDeny, VerdictRedirect} \<and>
    c = \<lparr>ct_Subject = he_inbox env, ct_TTLMS = trunc_div (rg_ttl sk) Millisecond\<rparr> \<and>
    (\<forall>ck' req'. ck_now ck' \<le> ck_now ck + rg_ttl sk \<and> map_option res_Token (req_Resume req') = Some (res_Token r) \<longrightarrow>
      fst (resumeState ck' req' st') = Some live)"
proof -
  define req where "req = tk_Req t"
  obtain eng0 sel reg where sel: "Select (rt_Profile (req_Route req)) (hs_registry st) = ((eng0, sel), reg)" by (metis surj_pair)
  obtain eng where eng: "eng0 = Some eng" using assms(1,2) sel by (cases eng0) (auto simp: inspect_request_def req_def Let_def)
  have reg: "st\<lparr>hs_registry := reg\<rparr> = st" using Select_known [OF sel [unfolded eng]] by simp
  define ask' where "ask' = Evaluate (req_Prior req) (PriorRules (hs_registry st) (sel_Profile sel))"
  obtain got where run: "inspect_loaded env ck t eng sel ask' got st = ((reply, det), st')"
    using assms(1,2) sel eng reg Select_known [OF sel [unfolded eng]]
    by (auto simp: inspect_request_def req_def ask'_def Let_def split: if_splits option.splits prod.splits)
  define inp where "inp = input req (argsOf (got ! 1)) (headers env (got ! 0)) (got ! 2)"
  obtain ended out live where e: "run_engine env ck req eng inp st = (ended, Inr (out, live))"
    and c: "conclude env ck t sel ask' out live (end_tx ended st) = ((reply, det), st')"
    using run assms(2) by (auto simp: inspect_loaded_def Let_def req_def inp_def split: option.splits prod.splits sum.splits)
  obtain l reply0 det0 st0 where l: "live = Some l" "hs_sticky st0 = hs_sticky st" "rp_Continue reply0 = None"
    and o': "offerContinue env ck req reply0 det0 l st0 = (reply, det, st')"
    using conclude_continues [OF c assms(2)] by (auto simp: req_def)
  have keep: "snd (ApplyKeep eng inp (ck_us ck)) = Inr (out, l)" and want: "wantsResume env st req"
    using e l(1) by (auto simp: run_engine_def split: if_splits prod.splits sum.splits)
  from want obtain r where r: "req_Resume req = Some r" "res_Token r \<noteq> ''''"
    by (auto simp: wantsResume_def split: if_splits option.splits)
  have "sticky_ok sk" if "hs_sticky st0 = Some sk" for sk using ok l(2) that by (auto split: option.splits)
  from offerContinue_parked [OF o' l(3) assms(2) this] obtain sk where
    sk: "rp_Verdict reply0 \<notin> {VerdictDeny, VerdictRedirect}" "hs_sticky st' = Some sk"
      "c = \<lparr>ct_Subject = he_inbox env, ct_TTLMS = trunc_div (rg_ttl sk) Millisecond\<rparr>"
    and held: "\<And>u. u \<le> ck_now ck + rg_ttl sk \<Longrightarrow> held_at u (res_Token r) sk = Some l"
    using r by auto
  have "fst (resumeState ck' req' st') = Some l"
    if time: "ck_now ck' \<le> ck_now ck + rg_ttl sk" and tok: "map_option res_Token (req_Resume req') = Some (res_Token r)" for ck' req'
  proof -
    obtain r' where r': "req_Resume req' = Some r'" "res_Token r' = res_Token r" using tok by auto
    have "fst (Take (ck_now ck') (res_Token r) sk) = held_at (ck_now ck') (res_Token r) sk"
      by (auto simp: Take_def held_at_def Let_def split: option.splits)
    then show ?thesis using held [OF time] r' r(2) sk(2)
      by (auto simp: resumeState_def split: prod.splits)
  qed
  moreover have "rp_Verdict reply = rp_Verdict reply0"
    using o' by (auto simp: offerContinue_def Let_def split: if_splits option.splits prod.splits bool.splits)
  ultimately show ?thesis using sk keep r(1) sel eng unfolding req_def by auto
qed


section \<open>A run\<close>

definition kept_task :: Task where
  "kept_task = sample_task\<lparr>tk_Req := sample_request\<lparr>req_Resume := Some \<lparr>res_Want = True, res_Token = ''t1'', res_Require = False\<rparr>\<rparr>\<rparr>"

lemma kept_task_reply:
  "\<exists>reply det st'. inspect_request sample_env sample_clock kept_task sample_state = (Some (reply, det), st') \<and>
     rp_Verdict reply = VerdictAllow \<and> rp_Continue reply = Some \<lparr>ct_Subject = ''waf.i.1'', ct_TTLMS = 30000\<rparr>"
proof -
  have "map_option (\<lambda>(r, d). (rp_Verdict r, rp_Continue r)) (fst (inspect_request sample_env sample_clock kept_task sample_state)) =
      Some (VerdictAllow, Some \<lparr>ct_Subject = ''waf.i.1'', ct_TTLMS = 30000\<rparr>)" by code_simp
  then show ?thesis by (cases "inspect_request sample_env sample_clock kept_task sample_state") auto
qed

theorem allowed_means_inspected_witness:
  "\<exists>eng inp out. fst (fst (Select ''default'' (hs_registry sample_state))) = Some eng \<and> inspected eng inp 0 out"
proof -
  obtain reply det st' where r: "inspect_request sample_env sample_clock kept_task sample_state = (Some (reply, det), st')"
      "rp_Verdict reply = VerdictAllow" "rp_Continue reply \<noteq> None" using kept_task_reply by blast
  then have "reply \<noteq> skip_reply (tk_Req kept_task)" by auto
  moreover have "rp_Verdict reply \<noteq> VerdictError" using r(2) by simp
  moreover have "profile_name (rt_Profile (req_Route (tk_Req kept_task))) = ''default''"
    by (simp add: kept_task_def sample_request_def profile_name_def)
  ultimately show ?thesis
    using allowed_means_inspected [OF r(1)] by (auto simp: Let_def sample_clock_def)
qed

theorem transactions_close_once_witness:
  "let st = sticky_tick True 1 (evaluate sample_env sample_clock kept_task 0 [] sample_state)
   in list_all (\<lambda>s. closed_once (snd s)) (hs_ended st)"
proof -
  have "recording_engine calm_engine snd" unfolding calm_engine_def by (rule recorded_engine_recording)
  then have "engines_ok snd (sample_rules_of calm_engine)" by (simp add: engines_ok_def sample_rules_of_def)
  then have "serving sample_env snd (evaluate sample_env sample_clock kept_task 0 [] sample_state)"
    by (intro serving.work serving.wired)
  from transactions_close_once [OF this] show ?thesis by (simp add: Let_def list_all_iff)
qed

theorem continue_means_parked_witness:
  "\<exists>live st'. snd (inspect_request sample_env sample_clock kept_task sample_state) = st' \<and>
     fst (resumeState (sample_clock\<lparr>ck_now := 5\<rparr>) (tk_Req kept_task) st') = Some live"
proof -
  obtain reply det st' c where r: "inspect_request sample_env sample_clock kept_task sample_state = (Some (reply, det), st')"
      "rp_Continue reply = Some c" "ct_TTLMS c = 30000" using kept_task_reply by fastforce
  have ok: "case hs_sticky sample_state of None \<Rightarrow> True | Some sk \<Rightarrow> sticky_ok sk"
    by (simp add: fresh_state_def New_sticky_def sticky_ok_def)
  from continue_means_parked [OF r(1,2) ok] obtain sk rs live where
    k: "hs_sticky st' = Some sk" "req_Resume (tk_Req kept_task) = Some rs" "ct_TTLMS c = trunc_div (rg_ttl sk) Millisecond"
    and found: "\<forall>ck' req'. ck_now ck' \<le> ck_now sample_clock + rg_ttl sk \<and> map_option res_Token (req_Resume req') = Some (res_Token rs) \<longrightarrow>
      fst (resumeState ck' req' st') = Some live" by (elim exE conjE) (metis Continue.select_convs(2))
  have "5 \<le> rg_ttl sk" using k(3) r(3) by (auto simp: trunc_div_def split: if_splits)
  then show ?thesis using found [rule_format, of "sample_clock\<lparr>ck_now := 5\<rparr>" "tk_Req kept_task"] k(2) r(1)
    by (simp add: sample_clock_def)
qed

end
