(* ===== verification/Config.thy ===== *)
theory Config
  imports Go_Float
begin

text \<open>
  Configuration, \<^verbatim>\<open>internal/config\<close>: the environment variables and their defaults (\<open>Load\<close>,
  \<^verbatim>\<open>config.go\<close>), the file inspector.conf with its directives and its redis block (\<open>parseQueueFile\<close>,
  \<^verbatim>\<open>file.go\<close>), and the log settings (\<^verbatim>\<open>logship.go\<close>).  What the process asks the operating system for is the
  record \<open>sys\<close>: the environment, the files, the host name, the working directory.  It also holds what is
  decided by tables of other packages: the scheme and host \<^verbatim>\<open>url.Parse\<close> finds, the Unicode classes of a
  name with bytes outside ASCII, and the level names of placitum-shared.  Error values keep what the
  messages of the Go code say: the variable, the line number, the offending text.
\<close>

section \<open>Durations\<close>

text \<open>\<^verbatim>\<open>time.ParseDuration\<close>: a sign and a sequence of decimal numbers with units, summed in 64 bits.\<close>

definition unit_ns :: "string \<rightharpoonup> int" where
  "unit_ns = map_of [(''ns'', 1), (''us'', 1000), ([CHR 0xC2, CHR 0xB5, CHR ''s''], 1000),
     ([CHR 0xCE, CHR 0xBC, CHR ''s''], 1000), (''ms'', 1000000), (''s'', 1000000000),
     (''m'', 60000000000), (''h'', 3600000000000)]"

fun leadingInt :: "int \<Rightarrow> string \<Rightarrow> (int \<times> string) option" where
  "leadingInt x [] = Some (x, [])"
| "leadingInt x (c # cs) =
     (if \<not> is_digit c then Some (x, c # cs)
      else if x > 2 ^ 63 div 10 then None
      else (let y = x * 10 + (of_char c - 48) in if y > 2 ^ 63 then None else leadingInt y cs))"

fun leadingFraction :: "bool \<Rightarrow> int \<Rightarrow> rat \<Rightarrow> string \<Rightarrow> int \<times> rat \<times> string" where
  "leadingFraction over x scale [] = (x, scale, [])"
| "leadingFraction over x scale (c # cs) =
     (if \<not> is_digit c then (x, scale, c # cs)
      else if over \<or> x > (2 ^ 63 - 1) div 10 then leadingFraction True x scale cs
      else (let y = x * 10 + (of_char c - 48)
            in if y > 2 ^ 63 then leadingFraction True x scale cs else leadingFraction False y (f64 (scale * 10)) cs))"

definition is_number_char :: "char \<Rightarrow> bool" where
  "is_number_char c \<longleftrightarrow> c = CHR ''.'' \<or> is_digit c"

text \<open>One number with its unit: the nanoseconds and the rest of the text.\<close>

definition duration_part :: "string \<Rightarrow> (int \<times> string) option" where
  "duration_part s = (case s of [] \<Rightarrow> None
     | c # _ \<Rightarrow>
       if \<not> is_number_char c then None
       else (case leadingInt 0 s of None \<Rightarrow> None
         | Some (v, s1) \<Rightarrow>
            (let (f, scale, s2) = (case s1 of CHR ''.'' # r \<Rightarrow> leadingFraction False 0 1 r | _ \<Rightarrow> (0, 1, s1));
                 pre = length s1 \<noteq> length s;
                 post = (case s1 of CHR ''.'' # r \<Rightarrow> length r \<noteq> length s2 | _ \<Rightarrow> False);
                 u = takeWhile (\<lambda>c. \<not> is_number_char c) s2;
                 rest = dropWhile (\<lambda>c. \<not> is_number_char c) s2
             in if \<not> pre \<and> \<not> post then None
                else if u = [] then None
                else (case unit_ns u of None \<Rightarrow> None
                  | Some unit \<Rightarrow>
                     if v > 2 ^ 63 div unit then None
                     else if f > 0 then
                       (let w = v * unit + \<lfloor>f64 (f64 (of_int f) * f64 (f64 (of_int unit) / scale))\<rfloor>
                        in if w > 2 ^ 63 then None else Some (w, rest))
                     else Some (v * unit, rest)))))"

lemma leadingInt_length: "leadingInt x s = Some (v, r) \<Longrightarrow> length r \<le> length s"
  by (induction x s rule: leadingInt.induct) (auto simp: Let_def split: if_splits)

lemma leadingFraction_length: "leadingFraction over x scale s = (f, sc, r) \<Longrightarrow> length r \<le> length s"
  by (induction over x scale s rule: leadingFraction.induct) (auto simp: Let_def split: if_splits)

lemma duration_part_shorter: "duration_part s = Some (v, r) \<Longrightarrow> length r < length s"
proof -
  assume a: "duration_part s = Some (v, r)"
  obtain v1 s1 where s1: "leadingInt 0 s = Some (v1, s1)"
    using a by (auto simp: duration_part_def split: list.splits if_splits option.splits)
  obtain f scale s2 where s2: "(case s1 of CHR ''.'' # r \<Rightarrow> leadingFraction False 0 1 r | _ \<Rightarrow> (0, 1, s1)) = (f, scale, s2)"
    by (metis surj_pair)
  have le: "length s2 \<le> length s1"
    using s2 by (auto split: list.splits char.splits bool.splits dest: leadingFraction_length)
  have "r = dropWhile (\<lambda>c. \<not> is_number_char c) s2 \<and> takeWhile (\<lambda>c. \<not> is_number_char c) s2 \<noteq> []"
    using a s1 s2 unfolding duration_part_def Let_def
    by (cases s) (simp_all split: if_splits option.splits)
  then have "length r < length s2"
    by (metis append_Nil length_append length_greater_0_conv less_add_same_cancel2 takeWhile_dropWhile_id)
  then show ?thesis using le leadingInt_length [OF s1] by simp
qed

function duration_loop :: "int \<Rightarrow> string \<Rightarrow> int option" where
  "duration_loop d s = (if s = [] then Some d
     else (case duration_part s of None \<Rightarrow> None
       | Some (v, r) \<Rightarrow> (let d' = (d + v) mod 2 ^ 64 in if d' > 2 ^ 63 then None else duration_loop d' r)))"
  by pat_completeness auto
termination
  by (relation "measure (\<lambda>(d, s). length s)") (auto dest: duration_part_shorter)

declare duration_loop.simps [simp del]

definition ParseDuration :: "string \<Rightarrow> duration option" where
  "ParseDuration s =
     (let neg = (case s of c # _ \<Rightarrow> c = CHR ''-'' | [] \<Rightarrow> False);
          r = (case s of c # r \<Rightarrow> if c = CHR ''-'' \<or> c = CHR ''+'' then r else s | [] \<Rightarrow> s)
      in if r = ''0'' then Some 0
         else if r = [] then None
         else (case duration_loop 0 r of None \<Rightarrow> None
           | Some d \<Rightarrow> if neg then Some (i64 (- d)) else if d > 2 ^ 63 - 1 then None else Some d))"

section \<open>The environment\<close>

record sys =
  sy_LookupEnv :: "string \<rightharpoonup> string"
  sy_GOMAXPROCS :: int
  sy_IsFile :: "string \<Rightarrow> bool"
  sy_ReadFile :: "string \<Rightarrow> string + bytes"
  sy_Abs :: "string \<Rightarrow> string + string"
  sy_Hostname :: "string + string"
  sy_URL :: "string \<Rightarrow> (string \<times> string) option"
  sy_WideName :: "string \<Rightarrow> bool"
  sy_Level :: "string \<Rightarrow> string + int"

datatype conf_error =
    UnexpectedBrace | UnknownBlock string | BlockTwice string | NotClosed string
  | MissingSemicolon | EmptyDirective | NoValue string | BadName string | OneValue string
  | SetTwice string | BadMax string | BadFull string | BadExpand string | UnknownDirective string
  | RedisTwice string | UnknownRedisKey string | BadRedisURL string string

datatype config_error =
    VarNotInt string | VarNotDuration string | VarNotPositive string | BadLevel string
  | ConfUnreadable string string | ConfError string nat conf_error
  | NoServers | EmptyNames | BadWorkers int | BadDepth int | BadQueueFull string | BadQueueExpand string
  | BadResumeMax int | BadResumeTTL int | NegativeBudget | NoVersions | NoAbs string string

definition env :: "sys \<Rightarrow> string \<Rightarrow> string \<Rightarrow> string" where
  "env s name def = (case sy_LookupEnv s name of Some v \<Rightarrow> if v \<noteq> '''' then v else def | None \<Rightarrow> def)"

definition envIntIfSet :: "sys \<Rightarrow> string \<Rightarrow> int \<Rightarrow> config_error + int" where
  "envIntIfSet s name def = (case sy_LookupEnv s name of
     None \<Rightarrow> Inr def
   | Some raw \<Rightarrow> if raw = '''' then Inr def
       else (case Atoi (TrimSpace raw) of None \<Rightarrow> Inl (VarNotInt name) | Some v \<Rightarrow> Inr v))"

definition envInt :: "sys \<Rightarrow> string \<Rightarrow> int \<Rightarrow> config_error + int" where
  "envInt s name def = envIntIfSet s name def"

definition splitList :: "string \<Rightarrow> string list" where
  "splitList s = filter (\<lambda>p. p \<noteq> '''') (map TrimSpace (Split s (CHR '','')))"

definition envIntList :: "sys \<Rightarrow> string \<Rightarrow> int list \<Rightarrow> config_error + int list" where
  "envIntList s name def = (case sy_LookupEnv s name of
     None \<Rightarrow> Inr def
   | Some raw \<Rightarrow> if raw = '''' then Inr def
       else traverse (\<lambda>part. case Atoi part of None \<Rightarrow> Inl (VarNotInt name) | Some v \<Rightarrow> Inr v) (splitList raw))"

definition envDuration :: "sys \<Rightarrow> string \<Rightarrow> duration \<Rightarrow> config_error + duration" where
  "envDuration s name def = (case sy_LookupEnv s name of
     None \<Rightarrow> Inr def
   | Some raw \<Rightarrow> if raw = '''' then Inr def
       else (case ParseDuration (TrimSpace raw) of
         None \<Rightarrow> Inl (VarNotDuration name)
       | Some d \<Rightarrow> if d \<le> 0 then Inl (VarNotPositive name) else Inr d))"

definition parseLevel :: "sys \<Rightarrow> string \<Rightarrow> config_error + int" where
  "parseLevel s l = (case sy_Level s l of Inl e \<Rightarrow> Inl (BadLevel e) | Inr v \<Rightarrow> Inr v)"

text \<open>The value of a variable that is set to more than white space.\<close>

definition set_trimmed :: "sys \<Rightarrow> string \<Rightarrow> string option" where
  "set_trimmed s name = (case sy_LookupEnv s name of
     Some v \<Rightarrow> if TrimSpace v \<noteq> '''' then Some (TrimSpace v) else None | None \<Rightarrow> None)"

definition envOverride :: "sys \<Rightarrow> string \<Rightarrow> string \<Rightarrow> string" where
  "envOverride s name current = (case set_trimmed s name of Some v \<Rightarrow> v | None \<Rightarrow> current)"

section \<open>The file inspector.conf\<close>

abbreviation QueueFullDrop :: string where "QueueFullDrop \<equiv> ''drop''"
abbreviation QueueFullWait :: string where "QueueFullWait \<equiv> ''wait''"
abbreviation QueueExpandOff :: string where "QueueExpandOff \<equiv> ''off''"
abbreviation QueueExpandAsk :: string where "QueueExpandAsk \<equiv> ''ask''"
abbreviation InternalFromExchange :: string where "InternalFromExchange \<equiv> ''exchange''"

record queueFile =
  qf_Max :: "int option"
  qf_Full :: string
  qf_Expand :: string
  qf_RedisURL :: string
  qf_RedisInternal :: string

definition empty_file :: queueFile where
  "empty_file = \<lparr>qf_Max = None, qf_Full = '''', qf_Expand = '''', qf_RedisURL = '''', qf_RedisInternal = ''''\<rparr>"

definition confPath :: "sys \<Rightarrow> string \<Rightarrow> string" where
  "confPath s envName = (case set_trimmed s envName of
     Some v \<Rightarrow> v
   | None \<Rightarrow> (case find (sy_IsFile s) [''inspector.conf'', ''/app/inspector.conf''] of Some c \<Rightarrow> c | None \<Rightarrow> ''''))"

definition confText :: "string \<Rightarrow> string" where
  "confText line = TrimSpace (case Index line ''#'' of Some i \<Rightarrow> take i line | None \<Rightarrow> line)"

definition requireSemicolon :: "string \<Rightarrow> conf_error + string" where
  "requireSemicolon text =
     (if \<not> HasSuffix text '';'' then Inl MissingSemicolon else Inr (TrimSpace (TrimSuffix text '';'')))"

definition isConfName :: "sys \<Rightarrow> string \<Rightarrow> bool" where
  "isConfName s n \<longleftrightarrow> n \<noteq> '''' \<and>
     (if list_all (\<lambda>c. (of_char c :: nat) < 128) n then list_all (\<lambda>c. c = CHR ''_'' \<or> is_alnum c) n else sy_WideName s n)"

definition splitDirective :: "sys \<Rightarrow> string \<Rightarrow> conf_error + string \<times> string" where
  "splitDirective s stmt0 =
     (let stmt = TrimSpace stmt0
      in if stmt = '''' then Inl EmptyDirective
         else (case Cut stmt '' '' of
           None \<Rightarrow> Inl (NoValue stmt)
         | Some (key, rest) \<Rightarrow>
             if \<not> isConfName s key then Inl (BadName key)
             else (let value' = TrimSpace rest
                   in if value' = '''' \<or> ContainsAny value' [CHR '' '', CHR 0x09] then Inl (OneValue key)
                      else Inr (key, value'))))"

definition isRedisURL :: "sys \<Rightarrow> string \<Rightarrow> bool" where
  "isRedisURL s u = (case sy_URL s u of
     None \<Rightarrow> False
   | Some (scheme, host) \<Rightarrow> host \<noteq> '''' \<and> (scheme = ''redis'' \<or> scheme = ''rediss''))"

text \<open>What the loop over the lines keeps: the file so far, the names already seen, the open block and its line.\<close>

record conf_state =
  cs_out :: queueFile
  cs_seen :: "string list"
  cs_block :: string
  cs_opened :: nat

definition see :: "string \<Rightarrow> conf_state \<Rightarrow> conf_state" where
  "see key st = st\<lparr>cs_seen := key # cs_seen st\<rparr>"

definition parseRedisKey :: "sys \<Rightarrow> string \<Rightarrow> conf_state \<Rightarrow> conf_error + conf_state" where
  "parseRedisKey s text st =
     and_then (requireSemicolon text) (\<lambda>stmt.
     and_then (splitDirective s stmt) (\<lambda>(key, value').
       let ident = ''redis.'' @ key
       in if ident \<in> set (cs_seen st) then Inl (RedisTwice key)
          else if key \<noteq> ''url'' \<and> key \<noteq> ''internal'' then Inl (UnknownRedisKey key)
          else if \<not> isRedisURL s value' then Inl (BadRedisURL key value')
          else (let st' = see ident st
                in Inr (if key = ''url'' then st'\<lparr>cs_out := (cs_out st')\<lparr>qf_RedisURL := value'\<rparr>\<rparr>
                        else st'\<lparr>cs_out := (cs_out st')\<lparr>qf_RedisInternal := value'\<rparr>\<rparr>))))"

definition set_directive :: "string \<Rightarrow> string \<Rightarrow> queueFile \<Rightarrow> conf_error + queueFile" where
  "set_directive key value' out =
     (if key = ''queue_max'' then
        (case Atoi value' of
           Some v \<Rightarrow> if v < 1 then Inl (BadMax value') else Inr (out\<lparr>qf_Max := Some v\<rparr>)
         | None \<Rightarrow> Inl (BadMax value'))
      else if key = ''queue_full'' then
        (if value' \<in> {QueueFullDrop, QueueFullWait} then Inr (out\<lparr>qf_Full := value'\<rparr>) else Inl (BadFull value'))
      else if key = ''queue_expand'' then
        (if value' \<in> {QueueExpandOff, QueueExpandAsk} then Inr (out\<lparr>qf_Expand := value'\<rparr>) else Inl (BadExpand value'))
      else Inl (UnknownDirective key))"

definition parse_line :: "sys \<Rightarrow> nat \<Rightarrow> string \<Rightarrow> conf_state \<Rightarrow> conf_error + conf_state" where
  "parse_line s n line st =
     (let text = confText line
      in if text = '''' then Inr st
         else if cs_block st \<noteq> '''' then
           (if text = ''}'' then Inr (st\<lparr>cs_block := ''''\<rparr>) else parseRedisKey s text st)
         else if text = ''}'' then Inl UnexpectedBrace
         else (case CutSuffix text ''{'' of
           Some head0 \<Rightarrow>
             (let head = TrimSpace head0
              in if head \<noteq> ''redis'' then Inl (UnknownBlock head)
                 else if head \<in> set (cs_seen st) then Inl (BlockTwice head)
                 else Inr ((see head st)\<lparr>cs_block := head, cs_opened := n\<rparr>))
         | None \<Rightarrow>
             and_then (requireSemicolon text) (\<lambda>stmt.
             and_then (splitDirective s stmt) (\<lambda>(key, value').
               if key \<in> set (cs_seen st) then Inl (SetTwice key)
               else and_then (set_directive key value' (cs_out st)) (\<lambda>out. Inr ((see key st)\<lparr>cs_out := out\<rparr>))))))"

fun parse_lines :: "sys \<Rightarrow> nat \<Rightarrow> string list \<Rightarrow> conf_state \<Rightarrow> (nat \<times> conf_error) + conf_state" where
  "parse_lines s n [] st = Inr st"
| "parse_lines s n (line # rest) st = (case parse_line s n line st of
     Inl e \<Rightarrow> Inl (n, e) | Inr st' \<Rightarrow> parse_lines s (Suc n) rest st')"

definition parseQueueFile :: "sys \<Rightarrow> string \<Rightarrow> string \<Rightarrow> config_error + queueFile" where
  "parseQueueFile s name src =
     (case parse_lines s 1 (Split src (CHR 0x0A)) \<lparr>cs_out = empty_file, cs_seen = [], cs_block = '''', cs_opened = 0\<rparr> of
        Inl (n, e) \<Rightarrow> Inl (ConfError name n e)
      | Inr st \<Rightarrow> if cs_block st \<noteq> '''' then Inl (ConfError name (cs_opened st) (NotClosed (cs_block st)))
                  else Inr (cs_out st))"

definition loadQueueFile :: "sys \<Rightarrow> string \<Rightarrow> config_error + queueFile" where
  "loadQueueFile s path = (case sy_ReadFile s path of
     Inl e \<Rightarrow> Inl (ConfUnreadable path e) | Inr raw \<Rightarrow> parseQueueFile s path raw)"

definition exchangeRedis :: "sys \<Rightarrow> queueFile \<Rightarrow> string" where
  "exchangeRedis s file = (case set_trimmed s ''REDIS_URL'' of Some v \<Rightarrow> v | None \<Rightarrow> qf_RedisURL file)"

definition internalRedis :: "sys \<Rightarrow> string \<Rightarrow> queueFile \<Rightarrow> string \<Rightarrow> string \<times> string" where
  "internalRedis s path file exchange = (case set_trimmed s ''REDIS_INTERNAL_URL'' of
     Some v \<Rightarrow> (v, ''REDIS_INTERNAL_URL'')
   | None \<Rightarrow>
       if qf_RedisInternal file \<noteq> '''' then (qf_RedisInternal file, path)
       else if exchange \<noteq> '''' then (exchange, InternalFromExchange)
       else ('''', ''''))"

text \<open>What is logged of it: the level, the message and the attributes; \<open>redacted\<close> is \<^verbatim>\<open>url.Parse\<close> followed by
  \<^verbatim>\<open>Redacted\<close>, which hides the password.\<close>

definition redactURL :: "(string \<Rightarrow> string option) \<Rightarrow> string \<Rightarrow> string" where
  "redactURL redacted s = (case redacted s of None \<Rightarrow> ''<unparsable>'' | Some u \<Rightarrow> u)"

datatype log_level = LevelInfo | LevelWarn

definition LogInternalRedis :: "(string \<Rightarrow> string option) \<Rightarrow> string \<Rightarrow> string \<Rightarrow> log_level \<times> string \<times> (string \<times> string) list" where
  "LogInternalRedis redacted addr origin =
     (let hint = ''set internal in the redis block of inspector.conf or REDIS_INTERNAL_URL''
      in if origin = '''' then (LevelWarn, ''internal redis is not configured'', [(''detail'', hint)])
         else if origin = InternalFromExchange
         then (LevelWarn, ''internal redis falls back to the exchange'', [(''url'', redactURL redacted addr), (''from'', origin), (''detail'', hint)])
         else (LevelInfo, ''internal redis'', [(''url'', redactURL redacted addr), (''from'', origin)]))"

text \<open>The address is logged only as its redaction says: two addresses that differ in what it hides log the same line.\<close>

lemma log_hides_secrets: "redacted a = redacted b \<Longrightarrow> LogInternalRedis redacted a origin = LogInternalRedis redacted b origin"
  by (simp only: LogInternalRedis_def redactURL_def)

record queueSettings =
  qs_Max :: int
  qs_Full :: string
  qs_Expand :: string

definition applyQueueFile :: "queueSettings \<Rightarrow> queueFile \<Rightarrow> queueSettings" where
  "applyQueueFile c file =
     \<lparr>qs_Max = (case qf_Max file of Some m \<Rightarrow> m | None \<Rightarrow> qs_Max c),
      qs_Full = (if qf_Full file \<noteq> '''' then qf_Full file else qs_Full c),
      qs_Expand = (if qf_Expand file \<noteq> '''' then qf_Expand file else qs_Expand c)\<rparr>"

section \<open>Loading\<close>

record Config =
  cf_Servers :: "string list"
  cf_Subject :: string
  cf_Name :: string
  cf_Queue :: string
  cf_ProfilesDir :: string
  cf_DataDir :: string
  cf_Workers :: int
  cf_QueueDepth :: int
  cf_QueueFull :: string
  cf_QueueExpand :: string
  cf_ConfPath :: string
  cf_ReserveMS :: int
  cf_MinBudgetMS :: int
  cf_DenyRuleIDs :: "string list"
  cf_DenyTags :: "string list"
  cf_RedisURL :: string
  cf_InternalURL :: string
  cf_InternalFrom :: string
  cf_GeoAddr :: string
  cf_GeoTimeout :: duration
  cf_GeoNegMax :: int
  cf_SecretsDir :: string
  cf_StatusMapPath :: string
  cf_Versions :: "int list"
  cf_LogLevel :: int
  cf_HeartbeatEvery :: duration
  cf_ResumeMax :: int
  cf_ResumeTTL :: duration

definition validate_config :: "sys \<Rightarrow> Config \<Rightarrow> config_error + Config" where
  "validate_config s c =
     (if cf_Servers c = [] then Inl NoServers
      else if cf_Subject c = '''' \<or> cf_Name c = '''' \<or> cf_Queue c = '''' then Inl EmptyNames
      else if cf_Workers c < 1 then Inl (BadWorkers (cf_Workers c))
      else if cf_QueueDepth c < 1 then Inl (BadDepth (cf_QueueDepth c))
      else if cf_QueueFull c \<notin> {QueueFullDrop, QueueFullWait} then Inl (BadQueueFull (cf_QueueFull c))
      else if cf_QueueExpand c \<notin> {QueueExpandOff, QueueExpandAsk} then Inl (BadQueueExpand (cf_QueueExpand c))
      else if cf_ResumeMax c < 0 then Inl (BadResumeMax (cf_ResumeMax c))
      else if cf_ResumeMax c > 0 \<and> cf_ResumeTTL c \<le> 0 then Inl (BadResumeTTL (cf_ResumeMax c))
      else if cf_ReserveMS c < 0 \<or> cf_MinBudgetMS c < 0 then Inl NegativeBudget
      else if cf_Versions c = [] then Inl NoVersions
      else (case sy_Abs s (cf_ProfilesDir c) of
        Inl e \<Rightarrow> Inl (NoAbs ''WAF_MODSEC_PROFILES'' e)
      | Inr profiles \<Rightarrow>
          (case sy_Abs s (if cf_DataDir c = '''' then profiles @ ''.applied'' else cf_DataDir c) of
             Inl e \<Rightarrow> Inl (NoAbs ''WAF_MODSEC_DATA'' e)
           | Inr data \<Rightarrow> Inr (c\<lparr>cf_ProfilesDir := profiles, cf_DataDir := data\<rparr>))))"

definition default_queue :: queueSettings where
  "default_queue = \<lparr>qs_Max = 256, qs_Full = QueueFullDrop, qs_Expand = QueueExpandOff\<rparr>"

text \<open>The file is only read when a path was found; without one its zero value stays.\<close>

definition conf_file :: "sys \<Rightarrow> string \<Rightarrow> config_error + queueFile" where
  "conf_file s path = (if path \<noteq> '''' then loadQueueFile s path else Inr empty_file)"

definition Load_config :: "sys \<Rightarrow> config_error + Config" where
  "Load_config s =
     and_then (envInt s ''WAF_MODSEC_WORKERS'' (sy_GOMAXPROCS s)) (\<lambda>workers.
     let path = confPath s ''WAF_MODSEC_CONF'' in
     and_then (conf_file s path) (\<lambda>file.
     let q = (if path \<noteq> '''' then applyQueueFile default_queue file else default_queue);
         redis = exchangeRedis s file;
         (internal, internalFrom) = internalRedis s path file redis in
     and_then (envIntIfSet s ''WAF_MODSEC_QUEUE_DEPTH'' (qs_Max q)) (\<lambda>depth.
     and_then (envInt s ''WAF_MODSEC_RESERVE_MS'' 2) (\<lambda>reserve.
     and_then (envInt s ''WAF_MODSEC_MIN_BUDGET_MS'' 3) (\<lambda>minBudget.
     and_then (envIntList s ''WAF_MODSEC_VERSIONS'' [2]) (\<lambda>versions.
     and_then (parseLevel s (env s ''WAF_MODSEC_LOG'' ''info'')) (\<lambda>level.
     and_then (envDuration s ''WAF_MODSEC_GEO_TIMEOUT'' (500 * Millisecond)) (\<lambda>geoTimeout.
     and_then (envInt s ''WAF_MODSEC_GEO_NEG_MAX'' 0) (\<lambda>geoNegMax.
     and_then (envDuration s ''WAF_HEARTBEAT_EVERY'' (4 * Second)) (\<lambda>heartbeat.
     and_then (envInt s ''WAF_MODSEC_RESUME_MAX'' (i64 (depth * 4))) (\<lambda>resumeMax.
     and_then (envDuration s ''WAF_MODSEC_RESUME_TTL'' (30 * Second)) (\<lambda>resumeTTL.
       validate_config s
        (let name = env s ''WAF_MODSEC_NAME'' ''modsec'' in
         \<lparr>cf_Servers = splitList (env s ''NATS_URL'' ''nats://127.0.0.1:4222''),
          cf_Subject = env s ''WAF_MODSEC_SUBJECT'' ''waf.req.modsec'',
          cf_Name = name,
          cf_Queue = env s ''WAF_MODSEC_QUEUE'' name,
          cf_ProfilesDir = env s ''WAF_MODSEC_PROFILES'' ''./profiles'',
          cf_DataDir = env s ''WAF_MODSEC_DATA'' '''',
          cf_Workers = workers,
          cf_QueueDepth = depth,
          cf_QueueFull = envOverride s ''WAF_MODSEC_QUEUE_FULL'' (qs_Full q),
          cf_QueueExpand = envOverride s ''WAF_MODSEC_QUEUE_EXPAND'' (qs_Expand q),
          cf_ConfPath = path,
          cf_ReserveMS = reserve,
          cf_MinBudgetMS = minBudget,
          cf_DenyRuleIDs = splitList (env s ''WAF_MODSEC_DENY_RULE_IDS'' ''''),
          cf_DenyTags = splitList (env s ''WAF_MODSEC_DENY_TAGS'' ''''),
          cf_RedisURL = redis,
          cf_InternalURL = internal,
          cf_InternalFrom = internalFrom,
          cf_GeoAddr = env s ''WAF_MODSEC_GEO_ADDR'' '''',
          cf_GeoTimeout = geoTimeout,
          cf_GeoNegMax = geoNegMax,
          cf_SecretsDir = env s ''WAF_MODSEC_SECRETS'' '''',
          cf_StatusMapPath = env s ''WAF_MODSEC_STATUS_MAP'' ''./status_map.yaml'',
          cf_Versions = versions,
          cf_LogLevel = level,
          cf_HeartbeatEvery = heartbeat,
          cf_ResumeMax = resumeMax,
          cf_ResumeTTL = resumeTTL\<rparr>)))))))))))))"

section \<open>Log settings\<close>

text \<open>An unset variable reads as the empty string.\<close>

definition Getenv :: "sys \<Rightarrow> string \<Rightarrow> string" where
  "Getenv s name = (case sy_LookupEnv s name of Some v \<Rightarrow> v | None \<Rightarrow> '''')"

definition LogShip :: "sys \<Rightarrow> bool" where
  "LogShip s \<longleftrightarrow> ToLower (TrimSpace (Getenv s ''WAF_LOG_SHIP'')) \<notin> {''off'', ''0'', ''no'', ''false''}"

definition LogWriter :: "sys \<Rightarrow> string \<Rightarrow> string" where
  "LogWriter s fallback =
     (if TrimSpace (Getenv s ''WAF_LOG_WRITER'') \<noteq> '''' then TrimSpace (Getenv s ''WAF_LOG_WRITER'')
      else (case sy_Hostname s of Inr name \<Rightarrow> if name \<noteq> '''' then name else fallback | Inl _ \<Rightarrow> fallback))"

section \<open>What a loaded configuration guarantees\<close>

lemma envInt_i64: "envInt s name def = Inr v \<Longrightarrow> is_i64 def \<Longrightarrow> is_i64 v"
  by (auto simp: envInt_def envIntIfSet_def split: option.splits if_splits dest: Atoi_i64)

lemma envDuration_pos: "envDuration s name def = Inr d \<Longrightarrow> 0 < def \<Longrightarrow> 0 < d"
  by (auto simp: envDuration_def split: option.splits if_splits)

lemma splitList_items: "p \<in> set (splitList s) \<Longrightarrow> p \<noteq> '''' \<and> CHR '','' \<notin> set p"
  by (auto simp: splitList_def dest: Split_parts TrimSpace_set [THEN subsetD])

lemma validate_config_ok:
  assumes "validate_config s c = Inr c'"
  shows "cf_Servers c' \<noteq> [] \<and> cf_Subject c' \<noteq> '''' \<and> cf_Name c' \<noteq> '''' \<and> cf_Queue c' \<noteq> '''' \<and>
    1 \<le> cf_Workers c' \<and> 1 \<le> cf_QueueDepth c' \<and>
    cf_QueueFull c' \<in> {QueueFullDrop, QueueFullWait} \<and> cf_QueueExpand c' \<in> {QueueExpandOff, QueueExpandAsk} \<and>
    0 \<le> cf_ResumeMax c' \<and> (cf_ResumeMax c' > 0 \<longrightarrow> 0 < cf_ResumeTTL c') \<and>
    0 \<le> cf_ReserveMS c' \<and> 0 \<le> cf_MinBudgetMS c' \<and> cf_Versions c' \<noteq> []"
    and "\<exists>profiles data. c' = c\<lparr>cf_ProfilesDir := profiles, cf_DataDir := data\<rparr> \<and> sy_Abs s (cf_ProfilesDir c) = Inr profiles"
  using assms by (auto simp: validate_config_def split: if_splits sum.splits)

lemma Load_config_parts:
  assumes "Load_config s = Inr c"
  shows "\<exists>file c0 workers depth resumeMax geo beat ttl.
    conf_file s (confPath s ''WAF_MODSEC_CONF'') = Inr file \<and> validate_config s c0 = Inr c \<and>
    envInt s ''WAF_MODSEC_WORKERS'' (sy_GOMAXPROCS s) = Inr workers \<and> cf_Workers c0 = workers \<and>
    envIntIfSet s ''WAF_MODSEC_QUEUE_DEPTH'' (qs_Max (applyQueueFile default_queue file)) = Inr depth \<and> cf_QueueDepth c0 = depth \<and>
    envInt s ''WAF_MODSEC_RESUME_MAX'' (i64 (depth * 4)) = Inr resumeMax \<and> cf_ResumeMax c0 = resumeMax \<and>
    envDuration s ''WAF_MODSEC_GEO_TIMEOUT'' (500 * Millisecond) = Inr geo \<and> cf_GeoTimeout c0 = geo \<and>
    envDuration s ''WAF_HEARTBEAT_EVERY'' (4 * Second) = Inr beat \<and> cf_HeartbeatEvery c0 = beat \<and>
    envDuration s ''WAF_MODSEC_RESUME_TTL'' (30 * Second) = Inr ttl \<and> cf_ResumeTTL c0 = ttl \<and>
    cf_Servers c0 = splitList (env s ''NATS_URL'' ''nats://127.0.0.1:4222'') \<and>
    cf_QueueFull c0 = envOverride s ''WAF_MODSEC_QUEUE_FULL'' (qs_Full (applyQueueFile default_queue file)) \<and>
    cf_QueueExpand c0 = envOverride s ''WAF_MODSEC_QUEUE_EXPAND'' (qs_Expand (applyQueueFile default_queue file)) \<and>
    cf_RedisURL c0 = exchangeRedis s file \<and>
    (cf_InternalURL c0, cf_InternalFrom c0) = internalRedis s (confPath s ''WAF_MODSEC_CONF'') file (exchangeRedis s file)"
proof -
  let ?path = "confPath s ''WAF_MODSEC_CONF''"
  have "Load_config s = Inr c" by (fact assms)
  then obtain workers qf where w: "envInt s ''WAF_MODSEC_WORKERS'' (sy_GOMAXPROCS s) = Inr workers" "conf_file s ?path = Inr qf"
    unfolding Load_config_def by (auto simp: Let_def and_then_Inr)
  have q: "(if ?path \<noteq> '''' then applyQueueFile default_queue qf else default_queue) = applyQueueFile default_queue qf"
    using w(2) by (auto simp: conf_file_def applyQueueFile_def empty_file_def default_queue_def split: if_splits)
  obtain internal from' where i: "internalRedis s ?path qf (exchangeRedis s qf) = (internal, from')" by fastforce
  show ?thesis
    using assms unfolding Load_config_def Let_def w and_then_simps q i prod.case and_then_Inr
    by (elim exE conjE) (intro exI conjI, (rule w | assumption | simp add: i)+)
qed

text \<open>
  C23: a configuration that loads can be run: it names servers, a subject, a queue and versions, its
  workers and its queue are positive and its queue mode is one of the known words, the intervals that
  become tickers and timeouts are positive, its limits are 64-bit numbers, and a process that may keep
  transactions gives them a positive lifetime.
\<close>

theorem loaded_config_is_valid:
  assumes "Load_config s = Inr c" "is_i64 (sy_GOMAXPROCS s)"
  shows "cf_Servers c \<noteq> [] \<and> list_all (\<lambda>p. p \<noteq> '''' \<and> CHR '','' \<notin> set p) (cf_Servers c) \<and>
    cf_Subject c \<noteq> '''' \<and> cf_Name c \<noteq> '''' \<and> cf_Queue c \<noteq> '''' \<and> cf_Versions c \<noteq> [] \<and>
    1 \<le> cf_Workers c \<and> is_i64 (cf_Workers c) \<and> 1 \<le> cf_QueueDepth c \<and>
    cf_QueueFull c \<in> {QueueFullDrop, QueueFullWait} \<and> cf_QueueExpand c \<in> {QueueExpandOff, QueueExpandAsk} \<and>
    0 \<le> cf_ReserveMS c \<and> 0 \<le> cf_MinBudgetMS c \<and>
    0 < cf_GeoTimeout c \<and> 0 < cf_HeartbeatEvery c \<and>
    0 \<le> cf_ResumeMax c \<and> is_i64 (cf_ResumeMax c) \<and> 0 < cf_ResumeTTL c"
proof -
  obtain qf c0 workers depth resumeMax geo beat ttl where
    v: "validate_config s c0 = Inr c" and w: "envInt s ''WAF_MODSEC_WORKERS'' (sy_GOMAXPROCS s) = Inr workers" "cf_Workers c0 = workers"
    and r: "envInt s ''WAF_MODSEC_RESUME_MAX'' (i64 (depth * 4)) = Inr resumeMax" "cf_ResumeMax c0 = resumeMax"
    and d: "envDuration s ''WAF_MODSEC_GEO_TIMEOUT'' (500 * Millisecond) = Inr geo" "cf_GeoTimeout c0 = geo"
      "envDuration s ''WAF_HEARTBEAT_EVERY'' (4 * Second) = Inr beat" "cf_HeartbeatEvery c0 = beat"
      "envDuration s ''WAF_MODSEC_RESUME_TTL'' (30 * Second) = Inr ttl" "cf_ResumeTTL c0 = ttl"
    and srv: "cf_Servers c0 = splitList (env s ''NATS_URL'' ''nats://127.0.0.1:4222'')"
    using Load_config_parts [OF assms(1)] by (elim exE conjE) auto
  obtain profiles data where c: "c = c0\<lparr>cf_ProfilesDir := profiles, cf_DataDir := data\<rparr>" using validate_config_ok(2) [OF v] by blast
  have "is_i64 workers" "is_i64 resumeMax" using envInt_i64 [OF w(1) assms(2)] envInt_i64 [OF r(1)] by simp_all
  moreover have "0 < geo" "0 < beat" "0 < ttl"
    using envDuration_pos [OF d(1)] envDuration_pos [OF d(3)] envDuration_pos [OF d(5)] by simp_all
  moreover have "list_all (\<lambda>p. p \<noteq> '''' \<and> CHR '','' \<notin> set p) (cf_Servers c0)"
    using splitList_items unfolding srv list_all_iff by blast
  ultimately show ?thesis using validate_config_ok(1) [OF v] w(2) r(2) d(2,4,6) unfolding c by simp
qed

text \<open>
  The value of a variable without the blanks around it, empty when it is not set; and what a setting read from a
  variable as a number is.
\<close>

definition variable :: "sys \<Rightarrow> string \<Rightarrow> string" where
  "variable s name = (case sy_LookupEnv s name of None \<Rightarrow> '''' | Some v \<Rightarrow> TrimSpace v)"

definition number_or :: "sys \<Rightarrow> string \<Rightarrow> int \<Rightarrow> int \<Rightarrow> bool" where
  "number_or s name def v \<longleftrightarrow>
     (if sy_LookupEnv s name = None \<or> sy_LookupEnv s name = Some '''' then v = def else Atoi (variable s name) = Some v)"

lemma set_trimmed_variable: "set_trimmed s name = (if variable s name \<noteq> '''' then Some (variable s name) else None)"
  by (auto simp: set_trimmed_def variable_def split: option.split)

lemma envIntIfSet_number: "envIntIfSet s name def = Inr v \<Longrightarrow> number_or s name def v"
  by (auto simp: envIntIfSet_def number_or_def variable_def split: option.splits if_splits)


section \<open>A printed file is read back\<close>

definition unlines :: "string list \<Rightarrow> string" where
  "unlines ls = concat (map (\<lambda>l. l @ [CHR 0x0A]) ls)"

definition directive :: "string \<Rightarrow> string \<Rightarrow> string" where
  "directive key value' = key @ '' '' @ value' @ '';''"

definition directive_if :: "bool \<Rightarrow> string \<Rightarrow> string \<Rightarrow> string list" where
  "directive_if b key value' = (if b then [directive key value'] else [])"

definition print_queue :: "queueFile \<Rightarrow> string list" where
  "print_queue f =
     directive_if (qf_Max f \<noteq> None) ''queue_max'' (Itoa (the (qf_Max f))) @
     directive_if (qf_Full f \<noteq> '''') ''queue_full'' (qf_Full f) @
     directive_if (qf_Expand f \<noteq> '''') ''queue_expand'' (qf_Expand f) @
     [''redis {''] @ directive_if (qf_RedisURL f \<noteq> '''') ''url'' (qf_RedisURL f) @
     directive_if (qf_RedisInternal f \<noteq> '''') ''internal'' (qf_RedisInternal f) @ [''}'']"

definition plain_value :: "string \<Rightarrow> bool" where
  "plain_value v \<longleftrightarrow> v \<noteq> '''' \<and> list_all (\<lambda>c. is_graphic c \<and> c \<noteq> CHR ''#'') v"

definition queue_file_ok :: "sys \<Rightarrow> queueFile \<Rightarrow> bool" where
  "queue_file_ok s f \<longleftrightarrow>
     (case qf_Max f of None \<Rightarrow> True | Some m \<Rightarrow> 1 \<le> m \<and> is_i64 m) \<and>
     qf_Full f \<in> {'''', QueueFullDrop, QueueFullWait} \<and> qf_Expand f \<in> {'''', QueueExpandOff, QueueExpandAsk} \<and>
     (qf_RedisURL f = '''' \<or> plain_value (qf_RedisURL f) \<and> isRedisURL s (qf_RedisURL f)) \<and>
     (qf_RedisInternal f = '''' \<or> plain_value (qf_RedisInternal f) \<and> isRedisURL s (qf_RedisInternal f))"

lemma Split_unlines: "(\<And>l. l \<in> set ls \<Longrightarrow> CHR 0x0A \<notin> set l) \<Longrightarrow> Split (unlines ls) (CHR 0x0A) = ls @ [[]]"
  by (induction ls) (simp_all add: unlines_def Split_append)

lemma Index_absent: "c \<notin> set l \<Longrightarrow> Index l [c] = None"
  by (induction l) (auto simp: Index.simps [of _ "[c]"] HasPrefix_def)

lemma confText_plain:
  assumes "CHR ''#'' \<notin> set l" "l \<noteq> []" "is_graphic (hd l)" "is_graphic (last l)"
  shows "confText l = l"
  using assms by (simp add: confText_def Index_absent TrimSpace_edges)

text \<open>A directive line with a plain key and a plain value is read as that key and value.\<close>

definition plain_key :: "string \<Rightarrow> bool" where
  "plain_key k \<longleftrightarrow> k \<noteq> '''' \<and> list_all (\<lambda>c. is_alnum c \<or> c = CHR ''_'') k"

lemma alnum_graphic:
  "is_alnum c \<or> c = CHR ''_'' \<Longrightarrow> is_graphic c \<and> c \<noteq> CHR ''#'' \<and> c \<noteq> CHR ''}'' \<and> (of_char c :: nat) < 128"
  by (auto simp: is_alnum_def is_digit_def is_upper_def is_lower_def is_graphic_def)

lemma directive_chars:
  assumes "plain_key k" "plain_value v"
  shows "CHR ''#'' \<notin> set (directive k v)" "CHR 0x0A \<notin> set (directive k v)" "directive k v \<noteq> []"
    "is_graphic (hd (directive k v))" "last (directive k v) = CHR '';''" "hd (directive k v) \<noteq> CHR ''}''"
proof -
  have k: "\<forall>c \<in> set k. is_graphic c \<and> c \<noteq> CHR ''#'' \<and> c \<noteq> CHR ''}''"
    using assms(1) alnum_graphic unfolding plain_key_def list_all_iff by blast
  have v: "\<forall>c \<in> set v. is_graphic c \<and> c \<noteq> CHR ''#''" using assms(2) by (auto simp: plain_value_def list_all_iff)
  have nl: "\<not> is_graphic (CHR 0x0A)" by (simp add: is_graphic_def)
  show "CHR ''#'' \<notin> set (directive k v)" "CHR 0x0A \<notin> set (directive k v)" using k v nl by (auto simp: directive_def)
  show "directive k v \<noteq> []" "last (directive k v) = CHR '';''" by (simp_all add: directive_def)
  obtain a r where ar: "k = a # r" using assms(1) by (cases k) (auto simp: plain_key_def)
  then show "is_graphic (hd (directive k v))" "hd (directive k v) \<noteq> CHR ''}''" using k by (auto simp: directive_def)
qed

lemma directive_confText:
  assumes "plain_key k" "plain_value v"
  shows "confText (directive k v) = directive k v"
proof (rule confText_plain)
  show "is_graphic (last (directive k v))" using directive_chars(5) [OF assms] by (simp add: is_graphic_def)
qed (use directive_chars [OF assms] in simp_all)

lemma directive_read:
  assumes "plain_key k" "plain_value v"
  shows "and_then (requireSemicolon (directive k v)) (splitDirective s) = Inr (k, v)"
proof -
  have v: "v \<noteq> []" "\<And>c. c \<in> set v \<Longrightarrow> is_graphic c" using assms(2) by (auto simp: plain_value_def list_all_iff)
  have k: "k \<noteq> []" "\<And>c. c \<in> set k \<Longrightarrow> is_graphic c" "list_all (\<lambda>c. (of_char c :: nat) < 128) k"
    "list_all (\<lambda>c. c = CHR ''_'' \<or> is_alnum c) k"
    using assms(1) alnum_graphic unfolding plain_key_def list_all_iff by blast+
  have semi: "requireSemicolon (directive k v) = Inr (TrimSpace (k @ '' '' @ v))"
    by (simp add: requireSemicolon_def directive_def HasSuffix_append TrimSuffix_def)
  have trim: "TrimSpace (k @ '' '' @ v) = k @ '' '' @ v"
    using k v by (intro TrimSpace_edges) (simp add: last_append)
  have sp: "\<not> is_graphic (CHR '' '')" "\<not> is_graphic (CHR 0x09)" by (simp_all add: is_graphic_def)
  then have cut: "Cut (k @ '' '' @ v) '' '' = Some (k, v)" using Cut_skip [of "CHR '' ''" k v] k(2) by auto
  have "\<not> ContainsAny v [CHR '' '', CHR 0x09]" using v(2) sp by (auto simp: ContainsAny_def list_ex_iff)
  moreover have "isConfName s k" using k by (simp add: isConfName_def)
  ultimately show ?thesis
    unfolding semi and_then_simps splitDirective_def trim Let_def
    using cut v k TrimSpace_graphic [of v] by auto
qed

text \<open>What a directive does outside a block and inside the redis block.\<close>

lemma parse_directive:
  assumes "plain_key k" "plain_value v" "cs_block st = ''''" "k \<notin> set (cs_seen st)" "set_directive k v (cs_out st) = Inr out"
  shows "parse_line s n (directive k v) st = Inr ((see k st)\<lparr>cs_out := out\<rparr>)"
proof -
  have "\<not> HasSuffix (directive k v) ''{''" using directive_chars(5) [OF assms(1,2)] by (auto simp: HasSuffix_append)
  moreover have "directive k v \<noteq> ''}''" using directive_chars(6) [OF assms(1,2)] by auto
  moreover obtain stmt where "requireSemicolon (directive k v) = Inr stmt" "splitDirective s stmt = Inr (k, v)"
    using directive_read [OF assms(1,2), of s] by (auto simp: and_then_Inr)
  ultimately show ?thesis
    using assms directive_chars(3) [OF assms(1,2)] by (simp add: parse_line_def directive_confText CutSuffix_def Let_def)
qed

lemma parse_redis_directive:
  assumes "plain_key k" "plain_value v" "cs_block st \<noteq> ''''" "''redis.'' @ k \<notin> set (cs_seen st)" "k = ''url'' \<or> k = ''internal''" "isRedisURL s v"
  shows "parse_line s n (directive k v) st = Inr (let st' = see (''redis.'' @ k) st in
    if k = ''url'' then st'\<lparr>cs_out := (cs_out st')\<lparr>qf_RedisURL := v\<rparr>\<rparr> else st'\<lparr>cs_out := (cs_out st')\<lparr>qf_RedisInternal := v\<rparr>\<rparr>)"
proof -
  have "directive k v \<noteq> ''}''" using directive_chars(6) [OF assms(1,2)] by auto
  moreover obtain stmt where "requireSemicolon (directive k v) = Inr stmt" "splitDirective s stmt = Inr (k, v)"
    using directive_read [OF assms(1,2), of s] by (auto simp: and_then_Inr)
  ultimately show ?thesis
    using assms directive_chars(3) [OF assms(1,2)]
    by (auto simp: parse_line_def directive_confText parseRedisKey_def Let_def)
qed

text \<open>Reading some lines takes the file, the names seen and the block from one value to another.\<close>

definition reads :: "sys \<Rightarrow> string list \<Rightarrow> queueFile \<times> string list \<times> string \<Rightarrow> queueFile \<times> string list \<times> string \<Rightarrow> bool" where
  "reads s ls = (\<lambda>(out, seen, blk) (out', seen', blk'). \<forall>n op. \<exists>op'.
     parse_lines s n ls \<lparr>cs_out = out, cs_seen = seen, cs_block = blk, cs_opened = op\<rparr> =
       Inr \<lparr>cs_out = out', cs_seen = seen', cs_block = blk', cs_opened = op'\<rparr>)"

lemma parse_lines_append:
  "parse_lines s n (a @ b) st = (case parse_lines s n a st of Inl e \<Rightarrow> Inl e | Inr st' \<Rightarrow> parse_lines s (n + length a) b st')"
  by (induction a arbitrary: n st) (auto split: sum.splits)

lemma reads_append: "reads s a x y \<Longrightarrow> reads s b y z \<Longrightarrow> reads s (a @ b) x z"
  unfolding reads_def by (auto simp: parse_lines_append split: prod.splits) (metis sum.simps(6))

lemma reads_directive:
  assumes "b \<Longrightarrow> plain_value v \<and> set_directive k v out = Inr out'" "\<not> b \<Longrightarrow> out' = out" "plain_key k" "k \<notin> set seen"
  shows "reads s (directive_if b k v) (out, seen, '''') (out', if b then k # seen else seen, '''')"
  using assms parse_directive [of k v _ out' s] by (auto simp: reads_def directive_if_def see_def)

lemma reads_redis:
  assumes "b \<Longrightarrow> plain_value v \<and> isRedisURL s v" "plain_key k" "''redis.'' @ k \<notin> set seen" "k = ''url'' \<or> k = ''internal''" "blk \<noteq> ''''"
    and "out' = (if \<not> b then out else if k = ''url'' then out\<lparr>qf_RedisURL := v\<rparr> else out\<lparr>qf_RedisInternal := v\<rparr>)"
  shows "reads s (directive_if b k v) (out, seen, blk) (out', if b then (''redis.'' @ k) # seen else seen, blk)"
  using assms parse_redis_directive [of k v _ s] by (auto simp: reads_def directive_if_def see_def Let_def)

lemma braces:
  "confText ''redis {'' = ''redis {''" "confText ''}'' = ''}''" "TrimSpace ''redis '' = ''redis''" "confText [] = []"
  by code_simp+

lemma reads_braces:
  "''redis'' \<notin> set seen \<Longrightarrow> reads s [''redis {''] (out, seen, '''') (out, ''redis'' # seen, ''redis'')"
  "reads s [''}''] (out, seen, ''redis'') (out, seen, '''')"
  by (auto simp: reads_def parse_line_def Let_def braces CutSuffix_def HasSuffix_def HasPrefix_def see_def)

lemma plain_words: "plain_value QueueFullDrop" "plain_value QueueFullWait" "plain_value QueueExpandOff" "plain_value QueueExpandAsk"
  "plain_key ''queue_max''" "plain_key ''queue_full''" "plain_key ''queue_expand''" "plain_key ''url''" "plain_key ''internal''"
  by code_simp+

lemma plain_Itoa: "1 \<le> m \<Longrightarrow> plain_value (Itoa m)"
proof -
  assume m: "1 \<le> m"
  have "is_graphic c \<and> c \<noteq> CHR ''#''" if "c \<in> set (Itoa m)" for c
    using Itoa_nonneg [OF _ that] m digit_graphic [of c] by (auto simp: is_digit_def)
  moreover have "Itoa m \<noteq> []" using m by (simp add: Itoa_def)
  ultimately show ?thesis by (auto simp: plain_value_def list_all_iff)
qed

lemma print_queue_reads:
  assumes ok: "queue_file_ok s f"
  shows "\<exists>seen. reads s (print_queue f) (empty_file, [], '''') (f, seen, '''')"
proof -
  let ?m = "qf_Max f \<noteq> None" and ?u = "qf_Full f \<noteq> ''''" and ?e = "qf_Expand f \<noteq> ''''"
  let ?f1 = "empty_file\<lparr>qf_Max := qf_Max f\<rparr>"
  let ?f2 = "?f1\<lparr>qf_Full := qf_Full f\<rparr>"
  let ?f3 = "?f2\<lparr>qf_Expand := qf_Expand f\<rparr>"
  let ?f4 = "?f3\<lparr>qf_RedisURL := qf_RedisURL f\<rparr>"
  let ?s1 = "if ?m then [''queue_max''] else []"
  let ?s2 = "if ?u then ''queue_full'' # ?s1 else ?s1"
  let ?s3 = "if ?e then ''queue_expand'' # ?s2 else ?s2"
  let ?s4 = "''redis'' # ?s3"
  let ?s5 = "if qf_RedisURL f \<noteq> '''' then (''redis.'' @ ''url'') # ?s4 else ?s4"
  let ?s6 = "if qf_RedisInternal f \<noteq> '''' then (''redis.'' @ ''internal'') # ?s5 else ?s5"
  have l1: "reads s (directive_if ?m ''queue_max'' (Itoa (the (qf_Max f)))) (empty_file, [], '''') (?f1, ?s1, '''')"
    using ok by (intro reads_directive)
      (auto simp: queue_file_ok_def set_directive_def Atoi_Itoa empty_file_def plain_words intro: plain_Itoa)
  have l2: "reads s (directive_if ?u ''queue_full'' (qf_Full f)) (?f1, ?s1, '''') (?f2, ?s2, '''')"
    using ok by (intro reads_directive) (auto simp: queue_file_ok_def set_directive_def empty_file_def plain_words)
  have l3: "reads s (directive_if ?e ''queue_expand'' (qf_Expand f)) (?f2, ?s2, '''') (?f3, ?s3, '''')"
    using ok by (intro reads_directive) (auto simp: queue_file_ok_def set_directive_def empty_file_def plain_words)
  have l4: "reads s [''redis {''] (?f3, ?s3, '''') (?f3, ?s4, ''redis'')" by (rule reads_braces) auto
  have l5: "reads s (directive_if (qf_RedisURL f \<noteq> '''') ''url'' (qf_RedisURL f)) (?f3, ?s4, ''redis'') (?f4, ?s5, ''redis'')"
    using ok by (intro reads_redis) (auto simp: queue_file_ok_def empty_file_def plain_words)
  have l6: "reads s (directive_if (qf_RedisInternal f \<noteq> '''') ''internal'' (qf_RedisInternal f)) (?f4, ?s5, ''redis'') (f, ?s6, ''redis'')"
    using ok by (intro reads_redis) (auto simp: queue_file_ok_def empty_file_def plain_words)
  show ?thesis unfolding print_queue_def
    by (intro exI reads_append) (rule l1 l2 l3 l4 l5 l6 reads_braces)+
qed

lemma print_queue_lines: "queue_file_ok s f \<Longrightarrow> l \<in> set (print_queue f) \<Longrightarrow> CHR 0x0A \<notin> set l"
  using directive_chars(2) plain_words plain_Itoa
  by (auto simp: print_queue_def directive_if_def queue_file_ok_def split: if_splits)

text \<open>
  C25: what inspector.conf can say is read as it is written: the file printed from any settings (a limit,
  the two queue words, the two Redis addresses, each present or not) is parsed back to those settings.
\<close>

theorem queue_file_roundtrip:
  assumes "queue_file_ok s f"
  shows "parseQueueFile s name (unlines (print_queue f)) = Inr f"
proof -
  obtain seen where "reads s (print_queue f) (empty_file, [], '''') (f, seen, '''')" using print_queue_reads [OF assms] by blast
  then obtain op' where op: "parse_lines s 1 (print_queue f) \<lparr>cs_out = empty_file, cs_seen = [], cs_block = '''', cs_opened = 0\<rparr> =
      Inr \<lparr>cs_out = f, cs_seen = seen, cs_block = '''', cs_opened = op'\<rparr>" unfolding reads_def by blast
  have "Split (unlines (print_queue f)) (CHR 0x0A) = print_queue f @ [[]]"
    using print_queue_lines [OF assms] by (rule Split_unlines)
  then show ?thesis by (simp add: parseQueueFile_def parse_lines_append op parse_line_def braces del: One_nat_def)
qed

text \<open>
  The other direction, on any text: a file that is accepted sets only valid values, and every name is
  set at most once; a second directive or block of a name is refused, wherever it stands.
\<close>

lemma splitDirective_name:
  "splitDirective s stmt = Inr (k, v) \<Longrightarrow> isConfName s k \<and> v \<noteq> ''''"
  by (auto simp: splitDirective_def Let_def split: if_splits option.splits)

definition file_ok :: "sys \<Rightarrow> queueFile \<Rightarrow> bool" where
  "file_ok s f \<longleftrightarrow> (case qf_Max f of None \<Rightarrow> True | Some m \<Rightarrow> 1 \<le> m \<and> is_i64 m) \<and>
     qf_Full f \<in> {'''', QueueFullDrop, QueueFullWait} \<and> qf_Expand f \<in> {'''', QueueExpandOff, QueueExpandAsk} \<and>
     (qf_RedisURL f = '''' \<or> isRedisURL s (qf_RedisURL f)) \<and> (qf_RedisInternal f = '''' \<or> isRedisURL s (qf_RedisInternal f))"

definition conf_ok :: "sys \<Rightarrow> conf_state \<Rightarrow> bool" where
  "conf_ok s st \<longleftrightarrow> distinct (cs_seen st) \<and> file_ok s (cs_out st)"

lemma set_directive_cases:
  "set_directive k v out = Inr out' \<Longrightarrow>
     k = ''queue_max'' \<and> (\<exists>m. Atoi v = Some m \<and> 1 \<le> m \<and> out' = out\<lparr>qf_Max := Some m\<rparr>) \<or>
     k = ''queue_full'' \<and> v \<in> {QueueFullDrop, QueueFullWait} \<and> out' = out\<lparr>qf_Full := v\<rparr> \<or>
     k = ''queue_expand'' \<and> v \<in> {QueueExpandOff, QueueExpandAsk} \<and> out' = out\<lparr>qf_Expand := v\<rparr>"
  by (simp add: set_directive_def split: if_splits option.splits)

lemma set_directive_ok:
  assumes "set_directive k v out = Inr out'" "file_ok s out"
  shows "file_ok s out'"
  using set_directive_cases [OF assms(1)]
proof (elim disjE conjE exE)
  fix m assume "Atoi v = Some m" "1 \<le> m" "out' = out\<lparr>qf_Max := Some m\<rparr>"
  then show ?thesis using assms(2) Atoi_i64 [of v m] by (simp add: file_ok_def)
next
  assume "v \<in> {QueueFullDrop, QueueFullWait}" "out' = out\<lparr>qf_Full := v\<rparr>"
  then show ?thesis using assms(2) by (simp add: file_ok_def)
next
  assume "v \<in> {QueueExpandOff, QueueExpandAsk}" "out' = out\<lparr>qf_Expand := v\<rparr>"
  then show ?thesis using assms(2) by (simp add: file_ok_def)
qed

lemma parse_line_ok:
  assumes "parse_line s n line st = Inr st'" "conf_ok s st"
  shows "conf_ok s st'"
proof (cases "cs_block st = ''''")
  case True
  show ?thesis
  proof (cases "CutSuffix (confText line) ''{''")
    case (Some h)
    then have "st' = st \<or> (\<exists>k b n. k \<notin> set (cs_seen st) \<and> st' = (see k st)\<lparr>cs_block := b, cs_opened := n\<rparr>)"
      using assms True by (simp add: parse_line_def Let_def split: if_splits) blast
    then show ?thesis using assms(2) by (auto simp: see_def conf_ok_def)
  next
    case None
    show ?thesis
    proof (cases "confText line = ''''")
      case False
      then obtain k v out where "k \<notin> set (cs_seen st)" "set_directive k v (cs_out st) = Inr out" "st' = (see k st)\<lparr>cs_out := out\<rparr>"
        using assms(1) True None by (simp add: parse_line_def Let_def and_then_Inr split: if_splits prod.splits) blast
      then show ?thesis using assms(2) set_directive_ok [of k v "cs_out st" out] by (simp add: conf_ok_def see_def)
    qed (use assms in \<open>simp add: parse_line_def\<close>)
  qed
next
  case False
  show ?thesis
  proof (cases "confText line = '''' \<or> confText line = ''}''")
    case True
    then show ?thesis using assms False by (auto simp: parse_line_def conf_ok_def)
  next
    case False
    with \<open>cs_block st \<noteq> ''''\<close> have "parseRedisKey s (confText line) st = Inr st'" using assms(1) by (simp add: parse_line_def Let_def)
    then show ?thesis using assms(2)
      by (auto simp: parseRedisKey_def and_then_Inr Let_def see_def conf_ok_def file_ok_def split: if_splits)
  qed
qed

lemma parse_lines_ok: "parse_lines s n ls st = Inr st' \<Longrightarrow> conf_ok s st \<Longrightarrow> conf_ok s st'"
  by (induction s n ls st rule: parse_lines.induct) (auto split: sum.splits dest: parse_line_ok)

theorem accepted_file_is_valid:
  assumes "parseQueueFile s name src = Inr f"
  shows "file_ok s f"
proof -
  let ?st = "\<lparr>cs_out = empty_file, cs_seen = [], cs_block = '''', cs_opened = 0\<rparr>"
  obtain st where st: "parse_lines s 1 (Split src (CHR 0x0A)) ?st = Inr st" "f = cs_out st"
    using assms by (auto simp: parseQueueFile_def split: sum.splits prod.splits if_splits)
  have "conf_ok s ?st" by (simp add: conf_ok_def file_ok_def empty_file_def)
  from parse_lines_ok [OF st(1) this] show ?thesis unfolding conf_ok_def st(2) by blast
qed

section \<open>A process\<close>

definition sample_sys :: sys where
  "sample_sys = \<lparr>sy_LookupEnv = [''REDIS_URL'' \<mapsto> '' redis://r:6379 '', ''WAF_MODSEC_QUEUE_DEPTH'' \<mapsto> ''9'',
       ''WAF_HEARTBEAT_EVERY'' \<mapsto> ''1s''], sy_GOMAXPROCS = 4,
     sy_IsFile = (\<lambda>_. False), sy_ReadFile = (\<lambda>_. Inl ''missing''), sy_Abs = (\<lambda>p. Inr (''/'' @ p)), sy_Hostname = Inr ''h1'',
     sy_URL = (\<lambda>u. if HasPrefix u ''redis://'' then Some (''redis'', drop 8 u) else None), sy_WideName = (\<lambda>_. False),
     sy_Level = (\<lambda>_. Inr 0)\<rparr>"

lemma sample_config: "\<exists>c. Load_config sample_sys = Inr c \<and> cf_DenyRuleIDs c = [] \<and> cf_Workers c = 4"
proof -
  have t: "TrimSpace '' redis://r:6379 '' = ''redis://r:6379''" "TrimSpace ''9'' = ''9''" "Atoi ''9'' = Some 9"
    "TrimSpace ''1s'' = ''1s''" "ParseDuration ''1s'' = Some 1000000000" "splitList '''' = []" "splitList ''nats://127.0.0.1:4222'' \<noteq> []" "i64 36 = 36"
    by code_simp+
  then show ?thesis
    by (simp add: Load_config_def envInt_def envIntIfSet_def envIntList_def envDuration_def parseLevel_def env_def
        conf_file_def confPath_def set_trimmed_def envOverride_def exchangeRedis_def internalRedis_def validate_config_def
        sample_sys_def default_queue_def empty_file_def Let_def)
qed

theorem loaded_config_is_valid_witness: "\<exists>c. Load_config sample_sys = Inr c \<and> 1 \<le> cf_Workers c \<and> 0 < cf_HeartbeatEvery c"
proof -
  obtain c where c: "Load_config sample_sys = Inr c" using sample_config by blast
  have "is_i64 (sy_GOMAXPROCS sample_sys)" by (simp add: sample_sys_def is_i64_def)
  from loaded_config_is_valid [OF c this] show ?thesis using c by blast
qed


theorem queue_file_roundtrip_witness:
  "parseQueueFile sample_sys ''inspector.conf''
     (unlines (print_queue \<lparr>qf_Max = Some 512, qf_Full = QueueFullWait, qf_Expand = '''', qf_RedisURL = ''redis://r:6379'', qf_RedisInternal = ''''\<rparr>)) =
   Inr \<lparr>qf_Max = Some 512, qf_Full = QueueFullWait, qf_Expand = '''', qf_RedisURL = ''redis://r:6379'', qf_RedisInternal = ''''\<rparr>"
proof (rule queue_file_roundtrip)
  have "plain_value ''redis://r:6379''" "isRedisURL sample_sys ''redis://r:6379''" by code_simp+
  then show "queue_file_ok sample_sys \<lparr>qf_Max = Some 512, qf_Full = QueueFullWait, qf_Expand = '''', qf_RedisURL = ''redis://r:6379'', qf_RedisInternal = ''''\<rparr>"
    by (simp add: queue_file_ok_def is_i64_def)
qed

end
