(* ===== verification/Desired_Pack.thy ===== *)
theory Desired_Pack
  imports Rule_Sets
begin

text \<open>
  The desired state, \<^verbatim>\<open>internal/desired\<close>: the pack that names rule files by their hashes (\<open>ParsePack\<close>,
  \<open>RuntimeProfiles\<close>), fetching the blobs from Redis (\<open>FetchBlobs\<close>, \<open>mgetHashes\<close>), and expanding both to the
  manifest of a rule tree (\<open>Expand\<close>); \<^verbatim>\<open>pack.go\<close>, \<^verbatim>\<open>blobs.go\<close>, \<^verbatim>\<open>manifest.go\<close> and \<^verbatim>\<open>settings.go\<close>.  A Go map is
  an association list with distinct keys, in whose order the loops over the map run; the map of blobs is only
  looked up and is a function.  The JSON decoder, the level names, SHA-256 and the MGET of the Redis client are
  arguments.
\<close>

section \<open>Packs\<close>

abbreviation BlobPrefix :: string where "BlobPrefix \<equiv> ''waf.blob.''"
abbreviation packPrefix :: string where "packPrefix \<equiv> ''pack-''"
abbreviation volumePrefix :: string where "volumePrefix \<equiv> ''crs-prof-''"

record Settings =
  sg_LogLevel :: string
  sg_level :: int

record Pack =
  pk_V :: int
  pk_Kind :: string
  pk_Rev :: int
  pk_SHA256 :: string
  pk_Prefix :: string
  pk_Files :: "(string \<times> string) list"
  pk_Profiles :: "(string \<times> string) list"
  pk_Policies :: "(string \<times> string) list"
  pk_Data :: "(string \<times> string) list"
  pk_Blobs :: int
  pk_Bytes :: int
  pk_Settings :: "Settings option"

datatype desired_error =
    PackJSON string | PackKind | PackRev | PackSHA256 | PackEmpty | PackLevel string
  | NoDefaultProfile | UnsafeName string | DataUnsafe string | DataMissing string string
  | ProfileMissing string string | ProfileEmpty string | PolicyMissing string string
  | UnknownFile string string | FileMissing string string
  | RedisFailed string | RedisMissing string | RedisType string | RedisMismatch string

definition validate_settings :: "(string \<Rightarrow> string + int) \<Rightarrow> Settings option \<Rightarrow> desired_error + Settings option" where
  "validate_settings parse s = (case s of
     None \<Rightarrow> Inr None
   | Some s' \<Rightarrow> (case parse (sg_LogLevel s') of Inl e \<Rightarrow> Inl (PackLevel e) | Inr l \<Rightarrow> Inr (Some (s'\<lparr>sg_level := l\<rparr>))))"

text \<open>The level of the logger, which the settings change when they name another one.\<close>

definition apply_settings :: "Settings option \<Rightarrow> int \<Rightarrow> int" where
  "apply_settings s level = (case s of None \<Rightarrow> level | Some s' \<Rightarrow> if level = sg_level s' then level else sg_level s')"

definition ParsePack :: "(bytes \<Rightarrow> string + Pack) \<Rightarrow> (string \<Rightarrow> string + int) \<Rightarrow> bytes \<Rightarrow> desired_error + Pack" where
  "ParsePack unmarshal parse raw = (case unmarshal raw of
     Inl e \<Rightarrow> Inl (PackJSON e)
   | Inr p \<Rightarrow>
       if pk_V p \<noteq> 1 \<or> pk_Kind p \<noteq> ''rules-pack'' then Inl PackKind
       else if pk_Rev p < 1 then Inl PackRev
       else if pk_SHA256 p = '''' \<or> \<not> HasPrefix (pk_SHA256 p) ''sha256:'' then Inl PackSHA256
       else (let p1 = (if pk_Prefix p = '''' then p\<lparr>pk_Prefix := BlobPrefix\<rparr> else p)
             in if pk_Files p1 = [] \<or> pk_Profiles p1 = [] then Inl PackEmpty
                else (case validate_settings parse (pk_Settings p1) of
                  Inl e \<Rightarrow> Inl e | Inr s \<Rightarrow> Inr (p1\<lparr>pk_Settings := s\<rparr>))))"

definition BlobKey :: "Pack \<Rightarrow> string \<Rightarrow> string" where
  "BlobKey p hash = pk_Prefix p @ TrimPrefix hash ''sha256:''"

text \<open>The name a profile of the pack gets in the tree, if it is one of the process's profiles.\<close>

definition runtime_dest :: "Pack \<Rightarrow> string \<Rightarrow> string option" where
  "runtime_dest p name =
     (if HasPrefix name volumePrefix then None
      else (case CutPrefix name packPrefix of
        Some short \<Rightarrow> if map_of (pk_Profiles p) short \<noteq> None then None else Some short
      | None \<Rightarrow> Some name))"

definition RuntimeProfiles :: "Pack \<Rightarrow> (string \<times> string) list" where
  "RuntimeProfiles p = fold (\<lambda>(name, hash) out. case runtime_dest p name of
       None \<Rightarrow> out | Some dest \<Rightarrow> (dest, hash) # filter (\<lambda>q. fst q \<noteq> dest) out) (pk_Profiles p) []"

definition parseUUIDList :: "string \<Rightarrow> string list" where
  "parseUUIDList text = filter (\<lambda>x. x \<noteq> '''') (map TrimSpace (Split text (CHR 0x0A)))"

section \<open>The manifest\<close>

record File =
  fl_Name :: string
  fl_Text :: string

record Manifest =
  mf_V :: int
  mf_Rev :: int
  mf_ConfigHash :: string
  mf_Profiles :: "(string \<times> File list) list"
  mf_Data :: "(string \<times> string) list"
  mf_Settings :: "Settings option"

definition manifest_names :: "Manifest \<Rightarrow> string list" where
  "manifest_names m = sort (map fst (mf_Profiles m))"

definition safeName :: "string \<Rightarrow> bool" where
  "safeName name \<longleftrightarrow> \<not> (name = '''' \<or> name = ''.'' \<or> name = ''..'' \<or> ContainsAny name [CHR ''/'', CHR 0x5C] \<or>
     Contains name ''..'')"

text \<open>\<^verbatim>\<open>fmt.Sprintf("%02d-%s.conf", i, id)\<close>.\<close>

definition conf_name :: "nat \<Rightarrow> string \<Rightarrow> string" where
  "conf_name i ident = (if i < 10 then ''0'' else '''') @ nat_digits i @ ''-'' @ ident @ ''.conf''"

definition expand_data :: "(string \<rightharpoonup> bytes) \<Rightarrow> string \<times> string \<Rightarrow> desired_error + string \<times> string" where
  "expand_data blobs = (\<lambda>(name, hash).
     if \<not> safeName name then Inl (DataUnsafe name)
     else (case blobs hash of None \<Rightarrow> Inl (DataMissing name hash) | Some b \<Rightarrow> Inr (name, b)))"

definition expand_file :: "Pack \<Rightarrow> (string \<rightharpoonup> bytes) \<Rightarrow> string \<Rightarrow> nat \<times> string \<Rightarrow> desired_error + File" where
  "expand_file p blobs name = (\<lambda>(i, ident). case map_of (pk_Files p) ident of
     None \<Rightarrow> Inl (UnknownFile name ident)
   | Some fhash \<Rightarrow> (case blobs fhash of
       None \<Rightarrow> Inl (FileMissing ident fhash)
     | Some b \<Rightarrow> Inr \<lparr>fl_Name = conf_name i ident, fl_Text = b\<rparr>))"

definition expand_policy :: "Pack \<Rightarrow> (string \<rightharpoonup> bytes) \<Rightarrow> string \<Rightarrow> desired_error + File list" where
  "expand_policy p blobs name = (case map_of (pk_Policies p) name of
     None \<Rightarrow> Inr []
   | Some hash \<Rightarrow> (case blobs hash of
       None \<Rightarrow> Inl (PolicyMissing name hash)
     | Some b \<Rightarrow> Inr [\<lparr>fl_Name = FileName, fl_Text = b\<rparr>]))"

definition expand_profile :: "Pack \<Rightarrow> (string \<rightharpoonup> bytes) \<Rightarrow> string \<times> string \<Rightarrow> desired_error + string \<times> File list" where
  "expand_profile p blobs = (\<lambda>(name, phash). case blobs phash of
     None \<Rightarrow> Inl (ProfileMissing name phash)
   | Some list' \<Rightarrow>
      (let ids = parseUUIDList list'
       in if ids = [] then Inl (ProfileEmpty name)
          else and_then (expand_policy p blobs name) (\<lambda>policy.
               and_then (traverse (expand_file p blobs name) (enumerate 0 ids)) (\<lambda>files.
                 Inr (name, policy @ files)))))"

definition Expand :: "Pack \<Rightarrow> (string \<rightharpoonup> bytes) \<Rightarrow> desired_error + Manifest" where
  "Expand p blobs =
     (if map_of (RuntimeProfiles p) DefaultProfile = None then Inl NoDefaultProfile
      else and_then (traverse (expand_data blobs) (pk_Data p)) (\<lambda>data.
           and_then (traverse (expand_profile p blobs) (RuntimeProfiles p)) (\<lambda>profiles.
             Inr \<lparr>mf_V = 1, mf_Rev = pk_Rev p, mf_ConfigHash = pk_SHA256 p, mf_Profiles = profiles,
                  mf_Data = data, mf_Settings = pk_Settings p\<rparr>)))"

section \<open>Fetching\<close>

datatype redis_value = RNil | RString bytes | ROther string

definition hashOf :: "(bytes \<Rightarrow> string) \<Rightarrow> bytes \<Rightarrow> string" where
  "hashOf sha b = ''sha256:'' @ sha b"

primrec unique_from :: "string list \<Rightarrow> string list \<Rightarrow> string list" where
  "unique_from seen [] = []"
| "unique_from seen (v # vs) = (if v \<in> set seen then unique_from seen vs else v # unique_from (v # seen) vs)"

definition unique :: "string list \<Rightarrow> string list" where
  "unique vs = unique_from [] vs"

text \<open>MGET answers one value per key, so the loop over the values never runs past the hashes.\<close>

fun check_values :: "(bytes \<Rightarrow> string) \<Rightarrow> Pack \<Rightarrow> (string \<rightharpoonup> bytes) \<Rightarrow> (string \<times> redis_value) list \<Rightarrow> desired_error + (string \<rightharpoonup> bytes)" where
  "check_values sha p out [] = Inr out"
| "check_values sha p out ((hash, raw) # rest) = (case raw of
     RNil \<Rightarrow> Inl (RedisMissing (BlobKey p hash))
   | ROther _ \<Rightarrow> Inl (RedisType (BlobKey p hash))
   | RString b \<Rightarrow> if hashOf sha b \<noteq> hash then Inl (RedisMismatch (BlobKey p hash))
                  else check_values sha p (out(hash \<mapsto> b)) rest)"

definition mgetHashes :: "(bytes \<Rightarrow> string) \<Rightarrow> (string list \<Rightarrow> string + redis_value list) \<Rightarrow> Pack \<Rightarrow> string list \<Rightarrow>
    desired_error + (string \<rightharpoonup> bytes)" where
  "mgetHashes sha mget p hashes =
     (if hashes = [] then Inr Map.empty
      else (case mget (map (BlobKey p) hashes) of
        Inl e \<Rightarrow> Inl (RedisFailed e)
      | Inr vals \<Rightarrow> check_values sha p Map.empty (zip hashes vals)))"

definition list_files :: "Pack \<Rightarrow> (string \<rightharpoonup> bytes) \<Rightarrow> string \<times> string \<Rightarrow> desired_error + string list" where
  "list_files p out = (\<lambda>(name, phash).
     let ids = parseUUIDList (case out phash of Some b \<Rightarrow> b | None \<Rightarrow> '''')
     in if ids = [] then Inl (ProfileEmpty name)
        else traverse (\<lambda>ident. case map_of (pk_Files p) ident of
          None \<Rightarrow> Inl (UnknownFile name ident) | Some fhash \<Rightarrow> Inr fhash) ids)"

definition FetchBlobs :: "(bytes \<Rightarrow> string) \<Rightarrow> (string list \<Rightarrow> string + redis_value list) \<Rightarrow> Pack \<Rightarrow>
    desired_error + (string \<rightharpoonup> bytes)" where
  "FetchBlobs sha mget p =
     (let runtime = RuntimeProfiles p
      in and_then (mgetHashes sha mget p (unique (map snd runtime))) (\<lambda>out.
         and_then (traverse (list_files p out) runtime) (\<lambda>files.
         and_then (mgetHashes sha mget p (unique (map snd (pk_Data p) @
             List.map_filter (\<lambda>(name, _). map_of (pk_Policies p) name) runtime @ concat files))) (\<lambda>rest.
           Inr (out ++ rest)))))"

section \<open>What is fetched\<close>

lemma unique_from_set: "set (unique_from seen vs) = set vs - set seen"
  by (induction vs arbitrary: seen) auto

lemma unique_from_distinct: "distinct (unique_from seen vs)"
  by (induction vs arbitrary: seen) (auto simp: unique_from_set)

lemma unique_props [simp]: "set (unique vs) = set vs" "distinct (unique vs)"
  by (simp_all add: unique_def unique_from_set unique_from_distinct)

definition verified :: "(bytes \<Rightarrow> string) \<Rightarrow> (string \<rightharpoonup> bytes) \<Rightarrow> bool" where
  "verified sha blobs \<longleftrightarrow> (\<forall>h b. blobs h = Some b \<longrightarrow> hashOf sha b = h)"

lemma check_values_verified:
  "check_values sha p out vals = Inr out' \<Longrightarrow> verified sha out \<Longrightarrow>
     verified sha out' \<and> dom out' = dom out \<union> fst ` set vals"
proof (induction sha p out vals rule: check_values.induct)
  case (2 sha p out hash raw rest)
  then obtain b where b: "raw = RString b" "hashOf sha b = hash" "check_values sha p (out(hash \<mapsto> b)) rest = Inr out'"
    by (cases raw) (simp_all split: if_splits)
  moreover have "verified sha (out(hash \<mapsto> b))" using 2(3) b(2) by (simp add: verified_def)
  ultimately have "verified sha out' \<and> dom out' = dom (out(hash \<mapsto> b)) \<union> fst ` set rest" using 2(1) [of b] by blast
  then show ?case by auto
qed simp

lemma mgetHashes_verified: "mgetHashes sha mget p hashes = Inr out \<Longrightarrow> verified sha out"
  using check_values_verified [of sha p Map.empty _ out]
  by (auto simp: mgetHashes_def verified_def split: if_splits sum.splits)

lemma FetchBlobs_parts:
  assumes "FetchBlobs sha mget p = Inr blobs"
  shows "\<exists>out files rest. mgetHashes sha mget p (unique (map snd (RuntimeProfiles p))) = Inr out \<and>
    traverse (list_files p out) (RuntimeProfiles p) = Inr files \<and>
    mgetHashes sha mget p (unique (map snd (pk_Data p) @
       List.map_filter (\<lambda>(name, _). map_of (pk_Policies p) name) (RuntimeProfiles p) @ concat files)) = Inr rest \<and>
    blobs = out ++ rest"
  using assms by (auto simp: FetchBlobs_def Let_def and_then_Inr)

lemma FetchBlobs_verified: "FetchBlobs sha mget p = Inr blobs \<Longrightarrow> verified sha blobs"
  using FetchBlobs_parts [of sha mget p blobs] mgetHashes_verified
  by (fastforce simp: verified_def map_add_Some_iff)

text \<open>What a profile of the manifest must be, given the blob of its hash: its policy when the pack has one, then a
  file for every id listed in the blob, in that order, each with the hash the pack promises.\<close>

definition profile_promised :: "(bytes \<Rightarrow> string) \<Rightarrow> Pack \<Rightarrow> string \<times> string \<Rightarrow> string \<times> File list \<Rightarrow> bool" where
  "profile_promised sha p = (\<lambda>(name, phash) (name', files). name' = name \<and>
     (\<exists>listing. hashOf sha listing = phash \<and> parseUUIDList listing \<noteq> [] \<and>
        map (\<lambda>f. (fl_Name f, Some (hashOf sha (fl_Text f)))) files =
          (case map_of (pk_Policies p) name of None \<Rightarrow> [] | Some h \<Rightarrow> [(FileName, Some h)]) @
          map (\<lambda>(i, ident). (conf_name i ident, map_of (pk_Files p) ident)) (enumerate 0 (parseUUIDList listing))))"

lemma expanded_profile_promised:
  assumes "expand_profile p blobs np = Inr nf" "verified sha blobs"
  shows "profile_promised sha p np nf"
proof -
  obtain name phash where np: "np = (name, phash)" by fastforce
  have ver: "blobs h = Some b \<Longrightarrow> hashOf sha b = h" for h b using assms(2) by (simp add: verified_def)
  obtain listing policy confs where n: "blobs phash = Some listing" "parseUUIDList listing \<noteq> []"
    and pol: "expand_policy p blobs name = Inr policy"
    and con: "traverse (expand_file p blobs name) (enumerate 0 (parseUUIDList listing)) = Inr confs" "nf = (name, policy @ confs)"
    using assms(1) by (auto simp: np expand_profile_def Let_def and_then_Inr split: option.splits if_splits)
  have "map (\<lambda>f. (fl_Name f, Some (hashOf sha (fl_Text f)))) policy =
      (case map_of (pk_Policies p) name of None \<Rightarrow> [] | Some h \<Rightarrow> [(FileName, Some h)])"
    using pol ver by (auto simp: expand_policy_def split: option.splits)
  moreover have "map (\<lambda>f. (fl_Name f, Some (hashOf sha (fl_Text f)))) confs =
      map (\<lambda>(i, ident). (conf_name i ident, map_of (pk_Files p) ident)) (enumerate 0 (parseUUIDList listing))"
  proof -
    have one: "(case ii of (i, ident) \<Rightarrow> (conf_name i ident, map_of (pk_Files p) ident)) = (fl_Name f, Some (hashOf sha (fl_Text f)))"
      if "expand_file p blobs name ii = Inr f" for ii f
      using that ver by (cases ii) (auto simp: expand_file_def split: option.splits)
    from con(1) have "list_all2 (\<lambda>ii f. expand_file p blobs name ii = Inr f) (enumerate 0 (parseUUIDList listing)) confs"
      by (simp add: traverse_Inr)
    then show ?thesis by (induction rule: list_all2_induct) (use one in auto)
  qed
  ultimately show ?thesis using n ver [OF n(1)] by (auto simp: np con(2) profile_promised_def)
qed

text \<open>
  C14: only bytes with the promised hash reach the rule tree, all of them and in order: in the manifest expanded from
  the blobs that were fetched, the data files are those of the pack, under its names, which are safe, with its hashes;
  and the profiles are those of the pack, each with its policy and then a file for every id listed in the blob with the
  profile's hash, named after its place and its id, with the hash the pack gives that id.  The names of the rule files
  are not checked here; \<open>writeTree\<close> checks them, and an applied manifest has safe names only.
\<close>

theorem expanded_texts_are_verified:
  assumes "FetchBlobs sha mget p = Inr blobs" "Expand p blobs = Inr m"
  shows "map (\<lambda>(name, text). (name, hashOf sha text)) (mf_Data m) = pk_Data p \<and>
    list_all (\<lambda>(name, text). safeName name) (mf_Data m) \<and>
    list_all2 (profile_promised sha p) (RuntimeProfiles p) (mf_Profiles m)"
proof -
  note ver = FetchBlobs_verified [OF assms(1)]
  obtain data profiles where d: "traverse (expand_data blobs) (pk_Data p) = Inr data"
    and f: "traverse (expand_profile p blobs) (RuntimeProfiles p) = Inr profiles"
    and m: "mf_Data m = data" "mf_Profiles m = profiles"
    using assms(2) by (auto simp: Expand_def and_then_Inr split: if_splits)
  have one: "(case q of (name, text) \<Rightarrow> (name, hashOf sha text)) = np \<and> safeName (fst q)" if "expand_data blobs np = Inr q" for np q
    using that ver by (cases np) (auto simp: expand_data_def verified_def split: if_splits option.splits)
  from d have "list_all2 (\<lambda>np q. expand_data blobs np = Inr q) (pk_Data p) data" by (simp add: traverse_Inr)
  then have "map (\<lambda>(name, text). (name, hashOf sha text)) data = pk_Data p \<and> list_all (\<lambda>(name, text). safeName name) data"
    by (induction rule: list_all2_induct) (use one in auto)
  moreover from f have "list_all2 (profile_promised sha p) (RuntimeProfiles p) profiles"
    unfolding traverse_Inr by (rule list_all2_mono) (rule expanded_profile_promised [OF _ ver])
  ultimately show ?thesis by (simp add: m)
qed

section \<open>The profiles of a pack\<close>

text \<open>No two profiles of a pack get the same name, so the order of the Go map does not show.\<close>

lemma runtime_dest_cases:
  "runtime_dest p name = Some d \<Longrightarrow> name = d \<and> \<not> HasPrefix d packPrefix \<or> name = packPrefix @ d \<and> map_of (pk_Profiles p) d = None"
  by (auto simp: runtime_dest_def CutPrefix_def HasPrefix_append split: if_splits option.splits)

lemma runtime_dest_inj:
  assumes "runtime_dest p a = Some d" "runtime_dest p b = Some d" "a \<in> fst ` set (pk_Profiles p)" "b \<in> fst ` set (pk_Profiles p)"
  shows "a = b"
  using runtime_dest_cases [OF assms(1)] runtime_dest_cases [OF assms(2)] assms(3,4)
  by (auto simp: map_of_eq_None_iff)


lemma RuntimeProfiles_set:
  assumes "distinct (map fst (pk_Profiles p))"
  shows "distinct (map fst (RuntimeProfiles p)) \<and>
    set (RuntimeProfiles p) = {(d, h). \<exists>name. (name, h) \<in> set (pk_Profiles p) \<and> runtime_dest p name = Some d}"
proof -

  define add where "add = (\<lambda>(name, hash :: string) out. case runtime_dest p name of
       None \<Rightarrow> out | Some dest \<Rightarrow> (dest, hash) # filter (\<lambda>q. fst q \<noteq> dest) out)"
  have main: "distinct (map fst (fold add done' [])) \<and>
      set (fold add done' []) = {(d, h). \<exists>name. (name, h) \<in> set done' \<and> runtime_dest p name = Some d}"
    if "pk_Profiles p = done' @ todo" for done' todo
    using that
  proof (induction done' arbitrary: todo rule: rev_induct)
    case (snoc e done')
    obtain name hash where e: "e = (name, hash)" by fastforce
    let ?out = "fold add done' []"
    have IH: "distinct (map fst ?out)" "set ?out = {(d, h). \<exists>name. (name, h) \<in> set done' \<and> runtime_dest p name = Some d}"
      using snoc.IH [of "e # todo"] snoc.prems by auto
    show ?case
    proof (cases "runtime_dest p name")
      case None
      then show ?thesis using IH e by (auto simp: add_def)
    next
      case (Some d)
      have "fst q \<noteq> d" if q: "q \<in> set ?out" for q
      proof
        assume "fst q = d"
        then obtain name' h' where n: "(name', h') \<in> set done'" "runtime_dest p name' = Some d" using IH(2) q by auto
        have "name' = name"
          by (rule runtime_dest_inj [OF n(2) Some]) (use n(1) snoc.prems e in \<open>force+\<close>)
        then show False using n(1) snoc.prems assms e by force
      qed
      then have "filter (\<lambda>q. fst q \<noteq> d) ?out = ?out" "d \<notin> fst ` set ?out" by (auto intro: filter_True)
      then show ?thesis using IH e Some by (auto simp: add_def)
    qed
  qed simp
  from main [of "pk_Profiles p" "[]"] show ?thesis unfolding RuntimeProfiles_def add_def by simp
qed

section \<open>The order of the rule files\<close>

text \<open>The names of a profile's rule files, in the order of its list.\<close>

definition conf_names :: "string list \<Rightarrow> string list" where
  "conf_names ids = map (\<lambda>(i, ident). conf_name i ident) (enumerate 0 ids)"

lemma conf_name_digits:
  assumes "i < 100"
  shows "conf_name i ident = char_of (48 + i div 10) # char_of (48 + i mod 10) # ''-'' @ ident @ ''.conf''"
proof -
  have "char_of (48 :: nat) = CHR ''0''" by code_simp
  then show ?thesis
    using assms by (cases "i < 10") (simp_all add: conf_name_def nat_digits.simps [of i] nat_digits.simps [of "i div 10"])
qed

lemma digit_less: "d < 10 \<Longrightarrow> e < 10 \<Longrightarrow> char_of (48 + d :: nat) < char_of (48 + e :: nat) \<longleftrightarrow> d < e"
  by (simp add: less_char_def)

lemma conf_name_less:
  assumes "i < j" "j < 100"
  shows "conf_name i a < conf_name j b"
proof -
  have "i div 10 < j div 10 \<or> i div 10 = j div 10 \<and> i mod 10 < j mod 10"
    using assms by (metis div_le_mono div_mod_decomp less_imp_le_nat nat_less_le nat_add_left_cancel_less)
  moreover have "i div 10 < 10" "j div 10 < 10" using assms by auto
  ultimately show ?thesis
    using assms by (auto simp: conf_name_digits digit_less del: of_char_of)
qed

lemma conf_name_100: "conf_name 100 a < conf_name 11 b"
  by (simp add: conf_name_def nat_digits.simps less_char_def)

lemma conf_names_sorted: "sort (conf_names ids) = conf_names ids \<longleftrightarrow> length ids \<le> 100"
proof -
  have nth: "conf_names ids ! i = conf_name i (ids ! i)" if "i < length ids" for i
    using that by (simp add: conf_names_def nth_enumerate_eq)
  have len: "length (conf_names ids) = length ids" by (simp add: conf_names_def)
  have "sorted (conf_names ids) \<longleftrightarrow> length ids \<le> 100"
  proof
    assume "length ids \<le> 100"
    then show "sorted (conf_names ids)"
      using nth len by (auto simp: sorted_iff_nth_mono_less intro!: less_imp_le conf_name_less)
  next
    assume s: "sorted (conf_names ids)"
    show "length ids \<le> 100"
    proof (rule ccontr)
      assume "\<not> length ids \<le> 100"
      then have "conf_name 11 (ids ! 11) \<le> conf_name 100 (ids ! 100)"
        using sorted_nth_mono [OF s, of 11 100] nth [of 11] nth [of 100] len by simp
      then show False using conf_name_100 [of "ids ! 100" "ids ! 11"] by simp
    qed
  qed
  then show ?thesis by (metis sort_key_id_if_sorted sorted_sort list.map_ident)
qed


lemma expand_profile_names:
  assumes "expand_profile p blobs (name, phash) = Inr (name', files)" "blobs phash = Some listing"
  shows "filter (\<lambda>n. HasSuffix n ''.conf'') (map fl_Name files) = conf_names (parseUUIDList listing)"
proof -
  obtain policy confs where pol: "expand_policy p blobs name = Inr policy"
    and con: "traverse (expand_file p blobs name) (enumerate 0 (parseUUIDList listing)) = Inr confs" "files = policy @ confs"
    using assms by (auto simp: expand_profile_def Let_def and_then_Inr split: if_splits)
  have suffix: "HasSuffix (conf_name i ident) ''.conf''" for i ident by (auto simp: HasSuffix_append conf_name_def)
  have "\<not> HasSuffix FileName ''.conf''" by code_simp
  then have "filter (\<lambda>n. HasSuffix n ''.conf'') (map fl_Name policy) = []"
    using pol by (auto simp: expand_policy_def split: option.splits)
  moreover have "list_all2 (\<lambda>x f. fl_Name f = conf_name (fst x) (snd x)) (enumerate 0 (parseUUIDList listing)) confs"
    using con(1) unfolding traverse_Inr
    by (rule list_all2_mono) (auto simp: expand_file_def split: option.splits)
  then have "map fl_Name confs = conf_names (parseUUIDList listing)"
    unfolding conf_names_def by (auto simp: list_all2_conv_all_nth intro!: nth_equalityI split: prod.splits) 
  ultimately show ?thesis using suffix by (auto simp: con(2) conf_names_def filter_id_conv)
qed

text \<open>
  C40: a profile's rule files are loaded by the names they are written under, sorted; that order is the order
  of the profile's list as long as the list has at most a hundred files, and never beyond: the number in
  front of the name has two digits, and the hundred and first file sorts before the twelfth.
\<close>

theorem conf_files_in_list_order:
  assumes "expand_profile p blobs (name, phash) = Inr (name', files)" "blobs phash = Some listing"
  shows "(let confs = filter (\<lambda>n. HasSuffix n ''.conf'') (map fl_Name files) in
    (sort confs = confs) = (length (parseUUIDList listing) \<le> 100))"
  using conf_names_sorted [of "parseUUIDList listing"] unfolding Let_def expand_profile_names [OF assms] by blast

section \<open>A pack\<close>

definition sample_pack :: Pack where
  "sample_pack = \<lparr>pk_V = 1, pk_Kind = ''rules-pack'', pk_Rev = 3, pk_SHA256 = ''sha256:p'', pk_Prefix = BlobPrefix,
     pk_Files = [(''f1'', ''sha256:rule'')], pk_Profiles = [(''pack-default'', ''sha256:f1'')], pk_Policies = [],
     pk_Data = [(''ips'', ''sha256:1'')], pk_Blobs = 3, pk_Bytes = 9, pk_Settings = None\<rparr>"

text \<open>A store that holds, under every key, the text the key ends with, and its digest: the text itself.\<close>

definition sample_mget :: "string list \<Rightarrow> string + redis_value list" where
  "sample_mget keys = Inr (map (\<lambda>k. RString (TrimPrefix k BlobPrefix)) keys)"

definition sample_manifest :: Manifest where
  "sample_manifest = \<lparr>mf_V = 1, mf_Rev = 3, mf_ConfigHash = ''sha256:p'',
     mf_Profiles = [(''default'', [\<lparr>fl_Name = ''00-f1.conf'', fl_Text = ''rule''\<rparr>])], mf_Data = [(''ips'', ''1'')], mf_Settings = None\<rparr>"

lemma sample_fetch: "\<exists>blobs. FetchBlobs (\<lambda>b. b) sample_mget sample_pack = Inr blobs \<and> blobs ''sha256:f1'' = Some ''f1'' \<and>
  Expand sample_pack blobs = Inr sample_manifest"
proof -
  have "(case FetchBlobs (\<lambda>b. b) sample_mget sample_pack of Inl _ \<Rightarrow> False
    | Inr blobs \<Rightarrow> blobs ''sha256:f1'' = Some ''f1'' \<and> Expand sample_pack blobs = Inr sample_manifest)" by code_simp
  then show ?thesis by (auto split: sum.splits)
qed

theorem expanded_texts_are_verified_witness:
  "\<exists>blobs. FetchBlobs (\<lambda>b. b) sample_mget sample_pack = Inr blobs \<and> Expand sample_pack blobs = Inr sample_manifest \<and>
     map (\<lambda>(name, text). (name, hashOf (\<lambda>b. b) text)) (mf_Data sample_manifest) = pk_Data sample_pack \<and>
     list_all2 (profile_promised (\<lambda>b. b) sample_pack) (RuntimeProfiles sample_pack) (mf_Profiles sample_manifest)"
  using sample_fetch expanded_texts_are_verified [of "\<lambda>b. b" sample_mget sample_pack _ sample_manifest] by blast

theorem conf_files_in_list_order_witness:
  "\<exists>blobs files. expand_profile sample_pack blobs (''default'', ''sha256:f1'') = Inr (''default'', files) \<and>
     sort (filter (\<lambda>n. HasSuffix n ''.conf'') (map fl_Name files)) = filter (\<lambda>n. HasSuffix n ''.conf'') (map fl_Name files)"
proof -
  let ?b = "[''sha256:f1'' \<mapsto> ''f1'', ''sha256:rule'' \<mapsto> ''rule'']"
  have e: "expand_profile sample_pack ?b (''default'', ''sha256:f1'') = Inr (''default'', [\<lparr>fl_Name = ''00-f1.conf'', fl_Text = ''rule''\<rparr>])"
    by code_simp
  have "length (parseUUIDList ''f1'') \<le> 100" by code_simp
  moreover have "?b ''sha256:f1'' = Some ''f1''" by simp
  ultimately show ?thesis using conf_files_in_list_order [OF e, of "''f1''"] e unfolding Let_def by blast
qed

end
