(* ===== verification/Desired_Apply.thy ===== *)
theory Desired_Apply
  imports Desired_Pack
begin

text \<open>
  Applying a manifest and watching for the next one, \<^verbatim>\<open>internal/desired/apply.go\<close> and \<^verbatim>\<open>watch.go\<close>.

  A path is the list of its components, so joining a safe name to a directory appends it.  A tree maps paths
  to directories and files.  The operating system may refuse any call: \<open>faults\<close> says for the n-th call
  whether it fails, and what a failed call leaves below its target; a rename is atomic.  What a rule set is built
  from is the tree: \<open>lib\<close> gives the library of \<open>Rule_Sets\<close> for a tree.
\<close>

section \<open>Trees\<close>

type_synonym path = "string list"

datatype node = Dir | Text bytes

type_synonym tree = "path \<rightharpoonup> node"

definition under :: "path \<Rightarrow> path \<Rightarrow> bool" where
  "under d p \<longleftrightarrow> take (length d) p = d"

definition path_string :: "path \<Rightarrow> string" where
  "path_string p = concat (map (\<lambda>c. ''/'' @ c) p)"

record disk =
  dk_calls :: nat
  dk_tree :: tree

type_synonym faults = "nat \<Rightarrow> tree option"

abbreviation (input) refused :: io_error where "refused \<equiv> IOError ''refused''"

definition after_call :: "tree \<Rightarrow> disk \<Rightarrow> disk" where
  "after_call t w = \<lparr>dk_calls = Suc (dk_calls w), dk_tree = t\<rparr>"

text \<open>\<^verbatim>\<open>os.MkdirAll\<close> makes the missing directories above and at the path; when it fails, some of them are there.\<close>

definition MkdirAll :: "faults \<Rightarrow> path \<Rightarrow> disk \<Rightarrow> io_error option \<times> disk" where
  "MkdirAll os d w =
     (let t = dk_tree w; made = (\<lambda>some p. if under p d \<and> t p = None \<and> some p then Some Dir else t p)
      in case os (dk_calls w) of
           Some g \<Rightarrow> (Some refused, after_call (made (\<lambda>p. g p \<noteq> None)) w)
         | None \<Rightarrow> if list_ex (\<lambda>n. case t (take n d) of Some (Text _) \<Rightarrow> True | _ \<Rightarrow> False) [0..<Suc (length d)]
                   then (Some refused, after_call t w)
                   else (None, after_call (made (\<lambda>_. True)) w))"

definition RemoveAll :: "faults \<Rightarrow> path \<Rightarrow> disk \<Rightarrow> io_error option \<times> disk" where
  "RemoveAll os d w = (let t = dk_tree w in case os (dk_calls w) of
     Some g \<Rightarrow> (Some refused, after_call (\<lambda>p. if under d p then g p else t p) w)
   | None \<Rightarrow> (None, after_call (\<lambda>p. if under d p then None else t p) w))"

definition WriteFile :: "faults \<Rightarrow> path \<Rightarrow> bytes \<Rightarrow> disk \<Rightarrow> io_error option \<times> disk" where
  "WriteFile os d b w = (let t = dk_tree w in case os (dk_calls w) of
     Some g \<Rightarrow> (Some refused, after_call (t(d := g d)) w)
   | None \<Rightarrow> if t (butlast d) \<noteq> Some Dir \<or> t d = Some Dir then (Some refused, after_call t w)
             else (None, after_call (t(d \<mapsto> Text b)) w))"

text \<open>\<^verbatim>\<open>os.Rename\<close>: the directory above the target must exist; the target must not be a directory, and a directory
  does not take the place of a file.\<close>

definition moved :: "path \<Rightarrow> path \<Rightarrow> tree \<Rightarrow> tree" where
  "moved src dst t = (\<lambda>p. if under dst p then t (src @ drop (length dst) p) else if under src p then None else t p)"

definition Rename :: "faults \<Rightarrow> path \<Rightarrow> path \<Rightarrow> disk \<Rightarrow> io_error option \<times> disk" where
  "Rename os src dst w = (let t = dk_tree w in case os (dk_calls w) of
     Some _ \<Rightarrow> (Some refused, after_call t w)
   | None \<Rightarrow> if t src = None \<or> t (butlast dst) = None then (Some NotExist, after_call t w)
             else if t (butlast dst) \<noteq> Some Dir \<or> t dst = Some Dir \<or> (t src = Some Dir \<and> t dst \<noteq> None)
             then (Some refused, after_call t w)
             else (None, after_call (moved src dst t) w))"

section \<open>Rewriting file references\<close>

definition is_ws :: "char \<Rightarrow> bool" where
  "is_ws c \<longleftrightarrow> c \<in> set [CHR 0x09, CHR 0x0A, CHR 0x0C, CHR 0x0D, CHR '' '']"

text \<open>The directive names of the pattern, in its order; a match at the head of the text is the name, the
  argument and the text after it.\<close>

definition from_file_names :: "string list" where
  "from_file_names = [''pmFromFile'', ''pmf'', ''ipMatchFromFile'', ''ipMatchF'']"

definition match_from_file :: "string \<Rightarrow> (string \<times> string \<times> string) option" where
  "match_from_file s = (case s of
     CHR ''@'' # r \<Rightarrow>
       (case List.find (\<lambda>n. HasPrefix r n \<and>
            (case drop (length n) r of c # _ \<Rightarrow> is_ws c | [] \<Rightarrow> False) \<and>
            (case dropWhile is_ws (drop (length n) r) of c # _ \<Rightarrow> c \<noteq> CHR 0x22 | [] \<Rightarrow> False)) from_file_names of
          None \<Rightarrow> None
        | Some n \<Rightarrow>
            (let rest = dropWhile is_ws (drop (length n) r); arg = (\<lambda>c. c \<noteq> CHR 0x22 \<and> \<not> is_ws c)
             in Some (n, takeWhile arg rest, dropWhile arg rest)))
   | _ \<Rightarrow> None)"

text \<open>\<^verbatim>\<open>filepath.Base\<close> of a path that is not empty.\<close>

definition Base :: "string \<Rightarrow> string" where
  "Base s =
     (let r = dropWhile (\<lambda>c. c = CHR ''/'') (rev s)
      in if r = [] then ''/'' else rev (takeWhile (\<lambda>c. c \<noteq> CHR ''/'') r))"

text \<open>\<^verbatim>\<open>filepath.Join\<close> of a directory and such a last element.\<close>

definition join_base :: "path \<Rightarrow> string \<Rightarrow> string" where
  "join_base dir b =
     (if b = ''.'' \<or> b = ''/'' then path_string dir
      else if b = ''..'' then path_string (butlast dir)
      else path_string (dir @ [b]))"

lemma match_from_file_shorter: "match_from_file s = Some (n, a, r) \<Longrightarrow> length r < length s"
proof -
  assume m: "match_from_file s = Some (n, a, r)"
  obtain q where q: "s = CHR ''@'' # q" using m by (auto simp: match_from_file_def split: list.splits char.splits bool.splits)
  then have "r = dropWhile (\<lambda>c. c \<noteq> CHR 0x22 \<and> \<not> is_ws c) (dropWhile is_ws (drop (length n) q))"
    using m by (auto simp: match_from_file_def Let_def split: option.splits)
  then have "length r \<le> length q"
    by (metis (no_types, lifting) diff_le_self le_trans length_drop length_dropWhile_le)
  then show ?thesis using q by simp
qed

function rewriteFromFile :: "path \<Rightarrow> string \<Rightarrow> string" where
  "rewriteFromFile dir s = (case match_from_file s of
     Some (n, a, r) \<Rightarrow> ''@'' @ n @ '' '' @ join_base dir (Base a) @ rewriteFromFile dir r
   | None \<Rightarrow> (case s of [] \<Rightarrow> [] | c # r \<Rightarrow> c # rewriteFromFile dir r))"
  by pat_completeness auto
termination
  by (relation "measure (\<lambda>(d, s). length s)") (auto dest: match_from_file_shorter)

declare rewriteFromFile.simps [simp del]

section \<open>Applying\<close>

datatype apply_error =
    DataDir io_error | Unsafe string | Writing io_error | ParkLive io_error | Promote io_error | Rejected rules_error

fun run_steps :: "(disk \<Rightarrow> apply_error option \<times> disk) list \<Rightarrow> disk \<Rightarrow> apply_error option \<times> disk" where
  "run_steps [] w = (None, w)"
| "run_steps (s # ss) w = (case s w of (Some e, w') \<Rightarrow> (Some e, w') | (None, w') \<Rightarrow> run_steps ss w')"

definition os_step :: "(disk \<Rightarrow> io_error option \<times> disk) \<Rightarrow> disk \<Rightarrow> apply_error option \<times> disk" where
  "os_step call w = (case call w of (e, w') \<Rightarrow> (map_option Writing e, w'))"

definition name_step :: "string \<Rightarrow> disk \<Rightarrow> apply_error option \<times> disk" where
  "name_step name w = (if safeName name then (None, w) else (Some (Unsafe name), w))"

definition profile_steps :: "faults \<Rightarrow> path \<Rightarrow> path \<Rightarrow> (string \<times> string) list \<Rightarrow> string \<times> File list \<Rightarrow>
    (disk \<Rightarrow> apply_error option \<times> disk) list" where
  "profile_steps os rootDir liveRoot data = (\<lambda>(name, files).
     (let dir = rootDir @ [TreeDir, name]; live = liveRoot @ [TreeDir, name]
      in [name_step name, os_step (MkdirAll os dir)] @
         concat (map (\<lambda>(dataName, b). [name_step dataName, os_step (WriteFile os (dir @ [dataName]) b)]) data) @
         concat (map (\<lambda>f. [name_step (fl_Name f),
           os_step (WriteFile os (dir @ [fl_Name f]) (rewriteFromFile live (fl_Text f)))]) files)))"

definition writeTree :: "faults \<Rightarrow> path \<Rightarrow> path \<Rightarrow> Manifest \<Rightarrow> disk \<Rightarrow> apply_error option \<times> disk" where
  "writeTree os rootDir liveRoot m =
     run_steps (os_step (RemoveAll os rootDir) # concat (map (profile_steps os rootDir liveRoot (mf_Data m)) (mf_Profiles m)))"

abbreviation (input) staging_dir :: "path \<Rightarrow> path" where "staging_dir d \<equiv> d @ [''.next'']"
abbreviation (input) prev_dir :: "path \<Rightarrow> path" where "prev_dir d \<equiv> d @ [''.prev'']"
abbreviation (input) live_dir :: "path \<Rightarrow> path" where "live_dir d \<equiv> d @ [TreeDir]"

text \<open>Calls whose error is dropped.\<close>

abbreviation (input) remove :: "faults \<Rightarrow> path \<Rightarrow> disk \<Rightarrow> disk" where "remove os d w \<equiv> snd (RemoveAll os d w)"

text \<open>The end of \<open>Apply\<close>: the new tree is in place, the rule set is built from it, and the old tree comes
  back if that fails.\<close>

definition reload_promoted :: "(tree \<Rightarrow> 'e rules_lib) \<Rightarrow> faults \<Rightarrow> path \<Rightarrow> bool \<Rightarrow> 'e Registry \<Rightarrow> disk \<Rightarrow>
    apply_error option \<times> 'e Registry \<times> disk" where
  "reload_promoted lib os d liveExisted reg w =
     (case ReloadFrom (lib (dk_tree w)) (path_string d) reg of
        (Some err, reg1) \<Rightarrow>
          (let w1 = remove os (live_dir d) w
           in if \<not> liveExisted then (Some (Rejected err), reg1, w1)
              else (case Rename os (prev_dir d) (live_dir d) w1 of
                (None, w2) \<Rightarrow> (Some (Rejected err), snd (ReloadFrom (lib (dk_tree w2)) (path_string d) reg1), w2)
              | (Some _, w2) \<Rightarrow> (Some (Rejected err), reg1, w2)))
      | (None, reg1) \<Rightarrow> (None, reg1, remove os (prev_dir d) w))"

definition promote :: "(tree \<Rightarrow> 'e rules_lib) \<Rightarrow> faults \<Rightarrow> path \<Rightarrow> bool \<Rightarrow> 'e Registry \<Rightarrow> disk \<Rightarrow>
    apply_error option \<times> 'e Registry \<times> disk" where
  "promote lib os d liveExisted reg w =
     (case Rename os (staging_dir d @ [TreeDir]) (live_dir d) w of
        (Some err, w1) \<Rightarrow>
          (let w2 = (if liveExisted then snd (Rename os (prev_dir d) (live_dir d) w1) else w1)
           in (Some (Promote err), reg, remove os (staging_dir d) w2))
      | (None, w1) \<Rightarrow> reload_promoted lib os d liveExisted reg (remove os (staging_dir d) w1))"

definition Apply_manifest :: "(tree \<Rightarrow> 'e rules_lib) \<Rightarrow> faults \<Rightarrow> path \<Rightarrow> Manifest \<Rightarrow> 'e Registry \<Rightarrow> disk \<Rightarrow>
    apply_error option \<times> 'e Registry \<times> disk" where
  "Apply_manifest lib os d m reg w =
     (case MkdirAll os d w of
        (Some err, w1) \<Rightarrow> (Some (DataDir err), reg, w1)
      | (None, w1) \<Rightarrow>
         (case writeTree os (staging_dir d) d m w1 of
            (Some err, w2) \<Rightarrow> (Some err, reg, remove os (staging_dir d) w2)
          | (None, w2) \<Rightarrow>
             (case Rename os (live_dir d) (prev_dir d) (remove os (prev_dir d) w2) of
                (None, w3) \<Rightarrow> promote lib os d True reg w3
              | (Some NotExist, w3) \<Rightarrow> promote lib os d False reg w3
              | (Some err, w3) \<Rightarrow> (Some (ParkLive err), reg, remove os (staging_dir d) w3))))"

section \<open>What the calls leave alone\<close>

definition same_at :: "path \<Rightarrow> tree \<Rightarrow> tree \<Rightarrow> bool" where
  "same_at d t t' \<longleftrightarrow> (\<forall>p. under d p \<longrightarrow> t p = t' p)"

lemma same_at_refl [simp]: "same_at d t t" by (simp add: same_at_def)

lemma same_at_trans: "same_at d t u \<Longrightarrow> same_at d u v \<Longrightarrow> same_at d t v" by (simp add: same_at_def)

lemma same_at_sym: "same_at d t u \<Longrightarrow> same_at d u t" by (simp add: same_at_def)

lemma under_self [simp]: "under d d" "under d (d @ p)" by (simp_all add: under_def)

lemma under_append: "under d p \<longleftrightarrow> (\<exists>q. p = d @ q)"
  by (auto simp: under_def) (metis append_take_drop_id)

lemma siblings: "a \<noteq> b \<Longrightarrow> under (d @ [a]) p \<Longrightarrow> \<not> under (d @ [b]) p"
  by (auto simp: under_append)

lemma RemoveAll_elsewhere: "a \<noteq> b \<Longrightarrow> RemoveAll os (d @ [a]) w = (e, w') \<Longrightarrow> same_at (d @ [b]) (dk_tree w) (dk_tree w')"
  using siblings [of b a d]
  by (auto simp: RemoveAll_def same_at_def after_call_def Let_def split: option.splits)

lemma remove_elsewhere: "a \<noteq> b \<Longrightarrow> same_at (d @ [b]) (dk_tree w) (dk_tree (remove os (d @ [a]) w))"
  by (metis RemoveAll_elsewhere prod.collapse)

lemma MkdirAll_elsewhere:
  assumes "MkdirAll os q w = (e, w')" "\<not> under (d @ [b]) q"
  shows "same_at (d @ [b]) (dk_tree w) (dk_tree w')"
proof -
  have "\<not> under p q" if "under (d @ [b]) p" for p using assms(2) that by (auto simp: under_append)
  then show ?thesis
    using assms(1) by (auto simp: MkdirAll_def same_at_def after_call_def Let_def split: option.splits if_splits)
qed

lemma WriteFile_elsewhere:
  "WriteFile os q b w = (e, w') \<Longrightarrow> \<not> under (d @ [c]) q \<Longrightarrow> same_at (d @ [c]) (dk_tree w) (dk_tree w')"
  by (auto simp: WriteFile_def same_at_def after_call_def Let_def split: option.splits if_splits)

lemma run_steps_keep:
  assumes "\<And>s w e w'. s \<in> set ss \<Longrightarrow> s w = (e, w') \<Longrightarrow> same_at d (dk_tree w) (dk_tree w')"
  shows "run_steps ss w = (e, w') \<Longrightarrow> same_at d (dk_tree w) (dk_tree w')"
  using assms
proof (induction ss w rule: run_steps.induct)
  case (2 s ss w)
  obtain e1 w1 where s: "s w = (e1, w1)" by fastforce
  have "same_at d (dk_tree w) (dk_tree w1)" using 2(3) [of s w e1 w1] s by simp
  moreover have "same_at d (dk_tree w1) (dk_tree w')" if "e1 = None" "run_steps ss w1 = (e, w')"
    by (rule 2(1) [OF s [symmetric] that(1) that(2)]) (use 2(3) in auto)
  ultimately show ?case using 2(2) s by (auto split: option.splits intro: same_at_trans)
qed simp

lemma writeTree_elsewhere:
  assumes "writeTree os (d @ [a]) l m w = (e, w')" "a \<noteq> b"
  shows "same_at (d @ [b]) (dk_tree w) (dk_tree w')"
proof (rule run_steps_keep [OF _ assms(1) [unfolded writeTree_def]])
  fix s v e' v'
  assume s: "s \<in> set (os_step (RemoveAll os (d @ [a])) # concat (map (profile_steps os (d @ [a]) l (mf_Data m)) (mf_Profiles m)))"
    and run: "s v = (e', v')"
  have off: "\<not> under (d @ [b]) ((d @ [a]) @ q)" for q using assms(2) by (auto simp: under_append)
  from s show "same_at (d @ [b]) (dk_tree v) (dk_tree v')"
  proof (simp only: list.set, elim insertE)
    assume "s = os_step (RemoveAll os (d @ [a]))"
    then show ?thesis using run RemoveAll_elsewhere [OF assms(2)] by (auto simp: os_step_def split: prod.splits)
  next
    assume "s \<in> set (concat (map (profile_steps os (d @ [a]) l (mf_Data m)) (mf_Profiles m)))"
    then have "(\<exists>n. s = name_step n) \<or> (\<exists>q. s = os_step (MkdirAll os ((d @ [a]) @ q))) \<or> (\<exists>q x. s = os_step (WriteFile os ((d @ [a]) @ q) x))"
      by (fastforce simp: profile_steps_def Let_def)
    then show ?thesis
      using run MkdirAll_elsewhere [OF _ off] WriteFile_elsewhere [OF _ off]
      by (auto simp: os_step_def name_step_def split: prod.splits if_splits)
  qed
qed

lemma Rename_same:
  assumes "Rename os src dst w = (Some e, w')"
  shows "dk_tree w' = dk_tree w"
  using assms by (auto simp: Rename_def after_call_def Let_def split: option.splits if_splits)

lemma Rename_moves:
  assumes "Rename os (d @ [a]) (d @ [b]) w = (None, w')" "a \<noteq> b"
  shows "\<And>q. dk_tree w' ((d @ [b]) @ q) = dk_tree w ((d @ [a]) @ q)" "\<And>p. under (d @ [a]) p \<Longrightarrow> dk_tree w' p = None"
    "c \<noteq> a \<Longrightarrow> c \<noteq> b \<Longrightarrow> same_at (d @ [c]) (dk_tree w) (dk_tree w')"
proof -
  have m: "dk_tree w' = moved (d @ [a]) (d @ [b]) (dk_tree w)"
    using assms(1) by (auto simp: Rename_def after_call_def Let_def split: option.splits if_splits)
  show "dk_tree w' ((d @ [b]) @ q) = dk_tree w ((d @ [a]) @ q)" for q by (simp add: m moved_def under_append)
  show "dk_tree w' p = None" if "under (d @ [a]) p" for p using siblings [OF assms(2) that] that by (simp add: m moved_def)
  show "same_at (d @ [c]) (dk_tree w) (dk_tree w')" if "c \<noteq> a" "c \<noteq> b"
    using siblings [of c a d] siblings [of c b d] that by (auto simp: m moved_def same_at_def)
qed

section \<open>What an application keeps\<close>

text \<open>What the library for a tree reads: only what is below the rule tree of the directory, and a missing tree is
  no rule set.\<close>

definition reads_tree :: "(tree \<Rightarrow> 'e rules_lib) \<Rightarrow> path \<Rightarrow> bool" where
  "reads_tree lib d \<longleftrightarrow>
     (\<forall>t u. same_at (live_dir d) t u \<longrightarrow> build (lib t) (path_string d) = build (lib u) (path_string d)) \<and>
     (\<forall>t. (\<forall>p. under (live_dir d) p \<longrightarrow> t p = None) \<longrightarrow> isl (build (lib t) (path_string d)))"

text \<open>If the tree on disk is a rule set at all, it is the one that is served.\<close>

definition in_sync :: "(tree \<Rightarrow> 'e rules_lib) \<Rightarrow> path \<Rightarrow> 'e Registry \<Rightarrow> tree \<Rightarrow> bool" where
  "in_sync lib d reg t \<longleftrightarrow> (case build (lib t) (path_string d) of Inl _ \<Rightarrow> True | Inr ps \<Rightarrow> ry_current reg = ps)"

lemma in_sync_same: "reads_tree lib d \<Longrightarrow> same_at (live_dir d) t u \<Longrightarrow> in_sync lib d reg t = in_sync lib d reg u"
  by (metis reads_tree_def in_sync_def)

lemma ReloadFrom_current:
  assumes "ReloadFrom lib dir r = (e, r')"
  shows "case e of None \<Rightarrow> build lib dir = Inr (ry_current r') | Some err \<Rightarrow> r' = r \<and> build lib dir = Inl err"
  using assms by (auto simp: ReloadFrom_def split: sum.splits)

lemma prev_kept_by_promotion:
  assumes "Rename os (staging_dir d @ [TreeDir]) (live_dir d) w = (None, w')"
  shows "same_at (prev_dir d) (dk_tree w) (dk_tree w')"
proof -
  have m: "dk_tree w' = moved (staging_dir d @ [TreeDir]) (live_dir d) (dk_tree w)"
    using assms by (auto simp: Rename_def after_call_def Let_def split: option.splits if_splits)
  show ?thesis by (auto simp: m moved_def same_at_def under_append)
qed

text \<open>The failing end of an application: the tree it came from is back, or there is none, or what a failed
  removal left.\<close>

lemma reload_promoted_failed:
  assumes "reload_promoted lib os d existed reg w = (Some e, reg', w')"
    and old: "existed \<Longrightarrow> \<forall>q. dk_tree w (prev_dir d @ q) = t0 (live_dir d @ q)"
  shows "(ry_current reg' = ry_current reg \<or> (\<exists>t. same_at (live_dir d) t0 t \<and> build (lib t) (path_string d) = Inr (ry_current reg'))) \<and>
    (same_at (live_dir d) t0 (dk_tree w') \<and> existed \<or> (\<forall>p. under (live_dir d) p \<longrightarrow> dk_tree w' p = None) \<or>
     (\<exists>n g. os n = Some g \<and> same_at (live_dir d) g (dk_tree w')))"
proof -
  obtain err reg1 where r1: "ReloadFrom (lib (dk_tree w)) (path_string d) reg = (Some err, reg1)"
    using assms(1) by (auto simp: reload_promoted_def split: prod.splits option.splits)
  have reg1: "reg1 = reg" using ReloadFrom_current [OF r1] by simp
  define w1 where "w1 = remove os (live_dir d) w"
  have gone: "(\<forall>p. under (live_dir d) p \<longrightarrow> dk_tree w1 p = None) \<or> (\<exists>n g. os n = Some g \<and> same_at (live_dir d) g (dk_tree w1))"
    by (auto simp: w1_def RemoveAll_def after_call_def same_at_def Let_def split: option.splits) 
  have prev: "same_at (prev_dir d) (dk_tree w) (dk_tree w1)" unfolding w1_def by (rule remove_elsewhere) simp
  show ?thesis
  proof (cases existed)
    case False
    then have "w' = w1" "reg' = reg1" using assms(1) r1 by (simp_all add: reload_promoted_def w1_def)
    then show ?thesis using gone reg1 by auto
  next
    case True
    obtain e2 w2 where r2: "Rename os (prev_dir d) (live_dir d) w1 = (e2, w2)" by fastforce
    show ?thesis
    proof (cases e2)
      case (Some x)
      then have "w' = w2" "reg' = reg1" using assms(1) r1 r2 True by (simp_all add: reload_promoted_def w1_def)
      then show ?thesis using gone reg1 Rename_same [of os _ _ w1 x w2] r2 Some by auto
    next
      case None
      then have w2: "w' = w2" "reg' = snd (ReloadFrom (lib (dk_tree w2)) (path_string d) reg1)"
        using assms(1) r1 r2 True by (auto simp add: reload_promoted_def w1_def)
      have restored: "same_at (live_dir d) t0 (dk_tree w2)"
        unfolding same_at_def under_append
        using Rename_moves(1) [OF r2 [unfolded None]] prev old [OF True] by (auto simp: same_at_def under_append)
      have "ry_current reg' = ry_current reg \<or> build (lib (dk_tree w2)) (path_string d) = Inr (ry_current reg')"
        using w2(2) reg1 ReloadFrom_current [of "lib (dk_tree w2)" "path_string d" reg1]
        by (cases "ReloadFrom (lib (dk_tree w2)) (path_string d) reg1") (auto split: option.splits)
      then show ?thesis using restored w2(1) True by blast
    qed
  qed
qed

text \<open>What an application that fails leaves: the rules that are served, and the tree below the live directory.\<close>

definition left_behind :: "faults \<Rightarrow> path \<Rightarrow> tree \<Rightarrow> tree \<Rightarrow> bool" where
  "left_behind os d t0 t \<longleftrightarrow> same_at (live_dir d) t0 t \<or> (\<forall>p. under (live_dir d) p \<longrightarrow> t p = None) \<or>
     (\<exists>n g. os n = Some g \<and> same_at (live_dir d) g t)"

lemma left_behind_after: "left_behind os d t0 t \<Longrightarrow> same_at (live_dir d) t u \<Longrightarrow> left_behind os d t0 u"
proof -
  assume l: "left_behind os d t0 t" and s: "same_at (live_dir d) t u"
  have "(\<forall>p. under (live_dir d) p \<longrightarrow> t p = None) \<Longrightarrow> (\<forall>p. under (live_dir d) p \<longrightarrow> u p = None)" using s by (simp add: same_at_def)
  moreover have "same_at (live_dir d) x t \<Longrightarrow> same_at (live_dir d) x u" for x using s same_at_trans by blast
  ultimately show ?thesis using l unfolding left_behind_def by blast
qed

lemma promote_failed:
  assumes "promote lib os d existed reg w = (Some e, reg', w')"
    and old: "existed \<Longrightarrow> \<forall>q. dk_tree w (prev_dir d @ q) = t0 (live_dir d @ q)"
    and empty: "\<not> existed \<Longrightarrow> same_at (live_dir d) t0 (dk_tree w)" "existed \<Longrightarrow> \<forall>p. under (live_dir d) p \<longrightarrow> dk_tree w p = None"
  shows "(ry_current reg' = ry_current reg \<or> (\<exists>t. same_at (live_dir d) t0 t \<and> build (lib t) (path_string d) = Inr (ry_current reg'))) \<and>
    left_behind os d t0 (dk_tree w')"
proof -
  obtain e1 w1 where r: "Rename os (staging_dir d @ [TreeDir]) (live_dir d) w = (e1, w1)" by fastforce
  show ?thesis
  proof (cases e1)
    case (Some x)
    define w2 where "w2 = (if existed then snd (Rename os (prev_dir d) (live_dir d) w1) else w1)"
    have w': "w' = remove os (staging_dir d) w2" "reg' = reg"
      using assms(1) r Some by (auto simp: promote_def w2_def Let_def)
    have w1: "dk_tree w1 = dk_tree w" using Rename_same r Some by blast
    have "left_behind os d t0 (dk_tree w2)"
    proof (cases existed)
      case True
      obtain e2 v where r2: "Rename os (prev_dir d) (live_dir d) w1 = (e2, v)" by fastforce
      show ?thesis
      proof (cases e2)
        case None
        have "same_at (live_dir d) t0 (dk_tree v)"
          using Rename_moves(1) [OF r2 [unfolded None]] old [OF True] w1 by (auto simp: same_at_def under_append)
        then show ?thesis using True r2 by (simp add: w2_def left_behind_def)
      next
        case (Some y)
        then show ?thesis using True r2 Rename_same [OF r2 [unfolded Some]] w1 empty(2) by (simp add: w2_def left_behind_def)
      qed
    qed (use empty(1) w1 in \<open>simp add: w2_def left_behind_def\<close>)
    then show ?thesis using w' left_behind_after remove_elsewhere [of "''.next''" TreeDir d w2 os] by auto
  next
    case None
    define v where "v = remove os (staging_dir d) w1"
    have p: "reload_promoted lib os d existed reg v = (Some e, reg', w')" using assms(1) r None by (simp add: promote_def v_def)
    have "same_at (prev_dir d) (dk_tree w) (dk_tree v)"
      using same_at_trans [OF prev_kept_by_promotion [OF r [unfolded None]] remove_elsewhere [of "''.next''" "''.prev''" d w1 os]] by (simp add: v_def)
    then have "existed \<Longrightarrow> \<forall>q. dk_tree v (prev_dir d @ q) = t0 (live_dir d @ q)"
      using old unfolding same_at_def by (metis under_self(2))
    from reload_promoted_failed [OF p this] show ?thesis unfolding left_behind_def by blast
  qed
qed

lemma Apply_failed:
  assumes "Apply_manifest lib os d m reg w = (Some e, reg', w')"
  shows "(ry_current reg' = ry_current reg \<or> (\<exists>t. same_at (live_dir d) (dk_tree w) t \<and> build (lib t) (path_string d) = Inr (ry_current reg'))) \<and>
    left_behind os d (dk_tree w) (dk_tree w')"
proof -
  let ?t0 = "dk_tree w"
  have off: "\<not> under (live_dir d) d" by (auto simp: under_append)
  obtain e1 w1 where r1: "MkdirAll os d w = (e1, w1)" by fastforce
  note k1 = MkdirAll_elsewhere [OF r1 off]
  obtain e2 w2 where r2: "writeTree os (staging_dir d) d m w1 = (e2, w2)" by fastforce
  have k2: "same_at (live_dir d) ?t0 (dk_tree w2)" using same_at_trans [OF k1 writeTree_elsewhere [OF r2]] by simp
  define v where "v = remove os (prev_dir d) w2"
  have k3: "same_at (live_dir d) ?t0 (dk_tree v)"
    using same_at_trans [OF k2 remove_elsewhere [of "''.prev''" TreeDir d w2 os]] by (simp add: v_def)
  have drop: "left_behind os d ?t0 (dk_tree (remove os (staging_dir d) u))" if "same_at (live_dir d) ?t0 (dk_tree u)" for u
    using same_at_trans [OF that remove_elsewhere [of "''.next''" TreeDir d u os]] by (simp add: left_behind_def)
  obtain e3 w3 where r3: "Rename os (live_dir d) (prev_dir d) v = (e3, w3)" by fastforce
  consider "e1 \<noteq> None" | "e1 = None" "e2 \<noteq> None" | "e1 = None" "e2 = None" "e3 = None"
    | "e1 = None" "e2 = None" "e3 = Some NotExist" | msg where "e1 = None" "e2 = None" "e3 = Some (IOError msg)"
    by (metis io_error.exhaust option.exhaust)
  then show ?thesis
  proof cases
    case 1
    then show ?thesis using assms(1) r1 k1 by (auto simp: Apply_manifest_def left_behind_def)
  next
    case 2
    then show ?thesis using assms(1) r1 r2 drop [OF k2] by (auto simp: Apply_manifest_def)
  next
    case 3
    then have "promote lib os d True reg w3 = (Some e, reg', w')" using assms(1) r1 r2 r3 by (simp add: Apply_manifest_def v_def)
    then show ?thesis
      by (rule promote_failed) (use Rename_moves(1,2) [OF r3 [unfolded 3(3)]] k3 in \<open>auto simp: same_at_def under_append\<close>)
  next
    case 4
    then have "promote lib os d False reg w3 = (Some e, reg', w')" using assms(1) r1 r2 r3 by (simp add: Apply_manifest_def v_def)
    then show ?thesis by (rule promote_failed) (use Rename_same r3 4(3) k3 in \<open>auto\<close>)
  next
    case 5
    then show ?thesis using assms(1) r1 r2 r3 drop [of w3] k3 Rename_same [of os "live_dir d" "prev_dir d" v _ w3]
      by (auto simp: Apply_manifest_def v_def)
  qed
qed

section \<open>What a written tree holds\<close>

lemma run_steps_split:
  "run_steps (a @ b) w = (None, w') \<longleftrightarrow> (\<exists>v. run_steps a w = (None, v) \<and> run_steps b v = (None, w'))"
  by (induction a w rule: run_steps.induct) (auto split: prod.splits option.splits)

text \<open>What the steps of one profile are.\<close>

lemma profile_steps_cases:
  assumes "s \<in> set (profile_steps os r l data (name, files))"
  shows "(\<exists>n. s = name_step n) \<or> (\<exists>q. s = os_step (MkdirAll os q)) \<or>
    (\<exists>n x. s = os_step (WriteFile os (r @ [TreeDir, name, n]) x) \<and> (n \<in> fst ` set data \<or> n \<in> fl_Name ` set files))"
proof -
  consider "s = name_step name" | "s = os_step (MkdirAll os (r @ [TreeDir, name]))"
    | a b where "(a, b) \<in> set data" "s = name_step a \<or> s = os_step (WriteFile os (r @ [TreeDir, name, a]) b)"
    | f where "f \<in> set files" "s = name_step (fl_Name f) \<or>
        s = os_step (WriteFile os (r @ [TreeDir, name, fl_Name f]) (rewriteFromFile (l @ [TreeDir, name]) (fl_Text f)))"
    using assms by (auto simp: profile_steps_def Let_def)
  then show ?thesis
  proof cases
    case (3 a b)
    then have "a \<in> fst ` set data" by force
    then show ?thesis using 3(2) by blast
  qed blast+
qed

text \<open>The texts below a directory, and what the steps that succeed make of them.\<close>

definition texts :: "path \<Rightarrow> disk \<Rightarrow> path \<Rightarrow> bytes option" where
  "texts r w q = (case dk_tree w (r @ q) of Some (Text b) \<Rightarrow> Some b | _ \<Rightarrow> None)"

lemma texts_iff: "texts r w q = Some b \<longleftrightarrow> dk_tree w (r @ q) = Some (Text b)"
  by (simp add: texts_def split: option.splits node.splits)

lemma name_step_texts: "name_step n w = (None, w') \<Longrightarrow> texts r w' = texts r w \<and> safeName n"
  by (simp add: name_step_def split: if_splits)

lemma MkdirAll_texts: "os_step (MkdirAll os d) w = (None, w') \<Longrightarrow> texts r w' = texts r w"
  by (auto simp: texts_def fun_eq_iff os_step_def MkdirAll_def after_call_def Let_def split: prod.splits option.splits if_splits)

lemma RemoveAll_texts: "os_step (RemoveAll os r) w = (None, w') \<Longrightarrow> texts r w' = Map.empty"
  by (auto simp: texts_def fun_eq_iff os_step_def RemoveAll_def after_call_def Let_def split: prod.splits option.splits)

lemma WriteFile_texts: "os_step (WriteFile os (r @ q) b) w = (None, w') \<Longrightarrow> texts r w' = (texts r w)(q \<mapsto> b)"
  by (auto simp: texts_def fun_eq_iff os_step_def WriteFile_def after_call_def Let_def split: prod.splits option.splits if_splits)

text \<open>The files a profile writes into its directory: the data files first, then the rules.\<close>

definition profile_files :: "path \<Rightarrow> (string \<times> string) list \<Rightarrow> string \<Rightarrow> File list \<Rightarrow> (string \<times> bytes) list" where
  "profile_files live data name files = data @ map (\<lambda>f. (fl_Name f, rewriteFromFile (live @ [name]) (fl_Text f))) files"

definition profile_writes :: "path \<Rightarrow> (string \<times> string) list \<Rightarrow> string \<times> File list \<Rightarrow> (path \<times> bytes) list" where
  "profile_writes live data = (\<lambda>(name, files). map (\<lambda>(n, b). ([TreeDir, name, n], b)) (profile_files live data name files))"

lemma write_steps_texts:
  "run_steps (concat (map (\<lambda>(n, b). [name_step n, os_step (WriteFile os ((r @ q) @ [n]) b)]) ws)) w = (None, w') \<Longrightarrow>
     texts r w' = texts r w ++ map_of (rev (map (\<lambda>(n, b). (q @ [n], b)) ws)) \<and> (\<forall>(n, b) \<in> set ws. safeName n)"
proof (induction ws arbitrary: w)
  case (Cons p ws)
  obtain n b where p: "p = (n, b)" by fastforce
  obtain v u where v: "name_step n w = (None, v)" "os_step (WriteFile os (r @ q @ [n]) b) v = (None, u)"
    "run_steps (concat (map (\<lambda>(n, b). [name_step n, os_step (WriteFile os ((r @ q) @ [n]) b)]) ws)) u = (None, w')"
    using Cons.prems p by (auto split: prod.splits option.splits)
  show ?case
    using Cons.IH [OF v(3)] WriteFile_texts [OF v(2)] name_step_texts [OF v(1), of r] p
    by (auto simp: map_add_def fun_eq_iff split: option.splits)
qed simp

definition safe_profile :: "(string \<times> string) list \<Rightarrow> string \<times> File list \<Rightarrow> bool" where
  "safe_profile data = (\<lambda>(name, files). safeName name \<and> list_all (\<lambda>(n, b). safeName n) data \<and> list_all (\<lambda>f. safeName (fl_Name f)) files)"

lemma profile_steps_texts:
  assumes "run_steps (profile_steps os r l data p) w = (None, w')"
  shows "texts r w' = texts r w ++ map_of (rev (profile_writes (l @ [TreeDir]) data p)) \<and> safe_profile data p"
proof -
  obtain name files where p: "p = (name, files)" by fastforce
  define ws where "ws = profile_files (l @ [TreeDir]) data name files"
  have steps: "profile_steps os r l data p = [name_step name, os_step (MkdirAll os (r @ [TreeDir, name]))] @
      concat (map (\<lambda>(n, b). [name_step n, os_step (WriteFile os ((r @ [TreeDir, name]) @ [n]) b)]) ws)"
    by (simp add: profile_steps_def p ws_def profile_files_def Let_def comp_def)
  from assms [unfolded steps run_steps_split]
  obtain v where v: "run_steps [name_step name, os_step (MkdirAll os (r @ [TreeDir, name]))] w = (None, v)"
    "run_steps (concat (map (\<lambda>(n, b). [name_step n, os_step (WriteFile os ((r @ [TreeDir, name]) @ [n]) b)]) ws)) v = (None, w')"
    by (elim exE conjE)
  then obtain u where u: "name_step name w = (None, u)" "os_step (MkdirAll os (r @ [TreeDir, name])) u = (None, v)"
    by (auto split: prod.splits option.splits)
  have "texts r v = texts r w" "safeName name" using name_step_texts [OF u(1), of r] MkdirAll_texts [OF u(2), of r] by simp_all
  then show ?thesis
    using write_steps_texts [OF v(2)]
    by (auto simp: p profile_writes_def ws_def profile_files_def safe_profile_def list_all_iff)
qed

lemma writeTree_texts:
  assumes "writeTree os r l m w = (None, w')"
  shows "texts r w' = map_of (rev (concat (map (profile_writes (l @ [TreeDir]) (mf_Data m)) (mf_Profiles m)))) \<and>
    list_all (safe_profile (mf_Data m)) (mf_Profiles m)"
proof -
  obtain v where v: "os_step (RemoveAll os r) w = (None, v)"
    "run_steps (concat (map (profile_steps os r l (mf_Data m)) (mf_Profiles m))) v = (None, w')"
    using assms by (auto simp: writeTree_def split: prod.splits option.splits)
  have "run_steps (concat (map (profile_steps os r l data) ps)) v = (None, w') \<Longrightarrow>
      texts r w' = texts r v ++ map_of (rev (concat (map (profile_writes (l @ [TreeDir]) data) ps))) \<and> list_all (safe_profile data) ps"
    for data ps v
  proof (induction ps arbitrary: v)
    case (Cons p ps)
    then obtain u where "run_steps (profile_steps os r l data p) v = (None, u)"
      "run_steps (concat (map (profile_steps os r l data) ps)) u = (None, w')"
      by (auto simp: run_steps_split)
    then show ?case using Cons.IH profile_steps_texts by (fastforce simp: map_add_assoc)
  qed simp
  from this [OF v(2)] show ?thesis using RemoveAll_texts [OF v(1)] by simp
qed

text \<open>What a manifest says is at a path below the live tree: of a profile its rules, the last of a name, before the
  data files.\<close>

definition manifest_text :: "path \<Rightarrow> Manifest \<Rightarrow> path \<Rightarrow> bytes option" where
  "manifest_text live m q = (case q of
     [name, n] \<Rightarrow> (case map_of (mf_Profiles m) name of
        None \<Rightarrow> None
      | Some files \<Rightarrow>
          (case map_of (rev (map (\<lambda>f. (fl_Name f, rewriteFromFile (live @ [name]) (fl_Text f))) files)) n of
             Some t \<Rightarrow> Some t
           | None \<Rightarrow> map_of (mf_Data m) n))
   | _ \<Rightarrow> None)"

lemma map_of_rev: "distinct (map fst xs) \<Longrightarrow> map_of (rev xs) = map_of xs"
  by (subst map_of_inject_set) (simp_all add: rev_map [symmetric])

lemma profile_writes_at:
  "map_of (rev (profile_writes live data (name, files))) q =
    (case q of [t, name', n] \<Rightarrow> if t = TreeDir \<and> name' = name then map_of (rev (profile_files live data name files)) n else None
     | _ \<Rightarrow> None)"
proof -
  have "map_of (map (\<lambda>(n, b). ([TreeDir, name, n], b)) xs) q =
    (case q of [t, name', n] \<Rightarrow> if t = TreeDir \<and> name' = name then map_of xs n else None | _ \<Rightarrow> None)" for xs :: "(string \<times> bytes) list"
    by (induction xs) (auto split: list.splits)
  then show ?thesis by (simp add: profile_writes_def rev_map)
qed

lemma profile_files_at:
  "distinct (map fst data) \<Longrightarrow> map_of (rev (profile_files live data name files)) n =
    (case map_of (rev (map (\<lambda>f. (fl_Name f, rewriteFromFile (live @ [name]) (fl_Text f))) files)) n of
       Some t \<Rightarrow> Some t
     | None \<Rightarrow> map_of data n)"
  unfolding profile_files_def rev_append map_of_append map_add_def by (simp add: map_of_rev cong: option.case_cong)

lemma manifest_writes:
  assumes "distinct (map fst (mf_Profiles m))" "distinct (map fst (mf_Data m))"
  shows "map_of (rev (concat (map (profile_writes live (mf_Data m)) (mf_Profiles m)))) (TreeDir # q) = manifest_text live m q"
proof (cases "\<exists>name n. q = [name, n]")
  case True
  then obtain name n where q: "q = [name, n]" by blast
  have "map_of (rev (concat (map (profile_writes live (mf_Data m)) ps))) (TreeDir # q) =
      (case map_of ps name of None \<Rightarrow> None | Some files \<Rightarrow> map_of (rev (profile_files live (mf_Data m) name files)) n)"
    if "distinct (map fst ps)" for ps
    using that
  proof (induction ps)
    case (Cons p ps)
    obtain name' files where p: "p = (name', files)" by fastforce
    have "name' \<notin> fst ` set ps" using Cons.prems p by simp
    then have "map_of ps name' = None" by (simp add: map_of_eq_None_iff)
    then show ?case using Cons p by (simp add: q map_add_def profile_writes_at split: option.split)
  qed simp
  then show ?thesis using assms by (simp add: q manifest_text_def profile_files_at cong: option.case_cong)
next
  case False
  then have "map_of (rev (profile_writes live data p)) (TreeDir # q) = None" for data p
    by (cases p) (auto simp: profile_writes_at split: list.splits)
  then have "map_of (rev (concat (map (profile_writes live data) ps))) (TreeDir # q) = None" for data ps
    by (induction ps) (simp_all add: map_add_def)
  then show ?thesis using False by (simp add: manifest_text_def split: list.splits)
qed

lemma Apply_succeeded:
  assumes "Apply_manifest lib os d m reg w = (None, reg', w')"
  shows "\<exists>w1 w2 t. writeTree os (staging_dir d) d m w1 = (None, w2) \<and> build (lib t) (path_string d) = Inr (ry_current reg') \<and>
    same_at (live_dir d) t (dk_tree w') \<and> (\<forall>q. t (live_dir d @ q) = dk_tree w2 (staging_dir d @ [TreeDir] @ q))"
proof -
  obtain w1 where r1: "MkdirAll os d w = (None, w1)"
    using assms by (auto simp: Apply_manifest_def split: prod.splits option.splits)
  obtain w2 where r2: "writeTree os (staging_dir d) d m w1 = (None, w2)"
    using assms r1 by (auto simp: Apply_manifest_def split: prod.splits option.splits)
  define v where "v = remove os (prev_dir d) w2"
  obtain e3 w3 existed where r3: "Rename os (live_dir d) (prev_dir d) v = (e3, w3)" "promote lib os d existed reg w3 = (None, reg', w')"
    using assms r1 r2 by (auto simp: Apply_manifest_def v_def split: prod.splits option.splits io_error.splits)
  have next3: "same_at (staging_dir d) (dk_tree w2) (dk_tree w3)"
  proof -
    have "same_at (staging_dir d) (dk_tree w2) (dk_tree v)" unfolding v_def by (rule remove_elsewhere) simp
    moreover have "same_at (staging_dir d) (dk_tree v) (dk_tree w3)"
    proof (cases e3)
      case None
      then show ?thesis using Rename_moves(3) [of os d TreeDir "''.prev''" v w3 "''.next''"] r3(1) by simp
    qed (use Rename_same r3(1) in auto)
    ultimately show ?thesis by (rule same_at_trans)
  qed
  obtain w4 where r4: "Rename os (staging_dir d @ [TreeDir]) (live_dir d) w3 = (None, w4)"
    and p: "reload_promoted lib os d existed reg (remove os (staging_dir d) w4) = (None, reg', w')"
    using r3(2) by (auto simp: promote_def Let_def split: prod.splits option.splits)
  define u where "u = remove os (staging_dir d) w4"
  have w': "ReloadFrom (lib (dk_tree u)) (path_string d) reg = (None, reg')" "w' = remove os (prev_dir d) u"
    using p by (auto simp: reload_promoted_def u_def Let_def split: prod.splits option.splits if_splits)
  have m: "dk_tree w4 = moved (staging_dir d @ [TreeDir]) (live_dir d) (dk_tree w3)"
    using r4 by (auto simp: Rename_def after_call_def Let_def split: option.splits if_splits)
  have next_live: "''.next'' \<noteq> TreeDir" by simp
  have "dk_tree u (live_dir d @ q) = dk_tree w2 (staging_dir d @ [TreeDir] @ q)" for q
  proof -
    have "dk_tree u (live_dir d @ q) = dk_tree w4 (live_dir d @ q)"
      using remove_elsewhere [OF next_live, of d w4 os] unfolding u_def same_at_def by (metis under_self(2))
    also have "\<dots> = dk_tree w3 (staging_dir d @ [TreeDir] @ q)" by (simp add: m moved_def under_append)
    also have "\<dots> = dk_tree w2 (staging_dir d @ [TreeDir] @ q)" using next3 unfolding same_at_def by (metis under_self(2))
    finally show ?thesis .
  qed
  moreover have "same_at (live_dir d) (dk_tree u) (dk_tree w')" unfolding w'(2) by (rule remove_elsewhere) simp
  moreover have "build (lib (dk_tree u)) (path_string d) = Inr (ry_current reg')" using ReloadFrom_current [OF w'(1)] by simp
  ultimately show ?thesis using r2 by blast
qed

section \<open>Failing without faults\<close>

definition keeps_dir :: "path \<Rightarrow> (disk \<Rightarrow> 'r \<times> disk) \<Rightarrow> bool" where
  "keeps_dir p s \<longleftrightarrow> (\<forall>w. dk_tree w p = Some Dir \<longrightarrow> dk_tree (snd (s w)) p = Some Dir)"

lemma keeps_dir_calls:
  "keeps_dir p (MkdirAll os q)" "\<not> under q p \<Longrightarrow> keeps_dir p (RemoveAll os q)" "p \<noteq> q \<Longrightarrow> keeps_dir p (WriteFile os q x)"
  "\<not> under q p \<Longrightarrow> \<not> under r p \<Longrightarrow> keeps_dir p (Rename os q r)" "keeps_dir p (name_step n)"
  by (auto simp: keeps_dir_def MkdirAll_def RemoveAll_def WriteFile_def Rename_def moved_def name_step_def after_call_def Let_def split: option.splits)

lemma keeps_dir_step: "keeps_dir p c \<Longrightarrow> keeps_dir p (os_step c)"
  by (simp add: keeps_dir_def os_step_def case_prod_beta)

lemma run_steps_keep_dir: "(\<And>s. s \<in> set ss \<Longrightarrow> keeps_dir p s) \<Longrightarrow> keeps_dir p (run_steps ss)"
proof (induction ss)
  case (Cons s ss)
  then have "keeps_dir p s" "keeps_dir p (run_steps ss)" by auto
  then show ?case unfolding keeps_dir_def by (auto split: prod.split option.split)
qed (simp add: keeps_dir_def)

lemma writeTree_keeps_dir: "keeps_dir d (writeTree os (d @ [a]) l m)"
proof -
  have "keeps_dir d s" if "s \<in> set (profile_steps os (d @ [a]) l data pf)" for s data pf
    using profile_steps_cases [of s os "d @ [a]" l data "fst pf" "snd pf"] that
    by (auto intro!: keeps_dir_step keeps_dir_calls)
  moreover have "keeps_dir d (os_step (RemoveAll os (d @ [a])))"
    by (rule keeps_dir_step, rule keeps_dir_calls) (simp add: under_append)
  ultimately show ?thesis unfolding writeTree_def by (intro run_steps_keep_dir) auto
qed

lemma MkdirAll_makes: "MkdirAll os d w = (None, w') \<Longrightarrow> dk_tree w' d = Some Dir"
proof -
  assume m: "MkdirAll os d w = (None, w')"
  have os: "os (dk_calls w) = None" using m by (simp add: MkdirAll_def Let_def split: option.splits)
  consider "dk_tree w d = None" | "dk_tree w d = Some Dir" | b where "dk_tree w d = Some (Text b)"
    by (metis node.exhaust option.exhaust)
  then show ?thesis
    using m os by cases (simp_all add: MkdirAll_def Let_def after_call_def split: if_splits, auto)
qed

abbreviation (input) calm :: faults where "calm \<equiv> \<lambda>_. None"

text \<open>A rename back into a place that is free.\<close>

lemma Rename_back:
  assumes "dk_tree w d = Some Dir" "dk_tree w (d @ [a]) \<noteq> None" "dk_tree w (d @ [b]) = None"
  shows "fst (Rename calm (d @ [a]) (d @ [b]) w) = None"
  using assms by (simp add: Rename_def Let_def)


lemma remove_calm: "dk_tree (remove calm d w) = (\<lambda>p. if under d p then None else dk_tree w p)"
  by (simp add: RemoveAll_def after_call_def Let_def)

lemma not_below: "\<not> under (d @ [a]) d" by (simp add: under_append)

lemma reload_promoted_restores:
  assumes "reload_promoted lib calm d existed reg w = (Some e, reg', w')" "dk_tree w d = Some Dir"
    and old: "existed \<Longrightarrow> t0 (live_dir d) \<noteq> None \<and> (\<forall>q. dk_tree w (prev_dir d @ q) = t0 (live_dir d @ q))"
    and none: "\<not> existed \<Longrightarrow> \<forall>p. under (live_dir d) p \<longrightarrow> t0 p = None"
  shows "same_at (live_dir d) t0 (dk_tree w')"
proof -
  define w1 where "w1 = remove calm (live_dir d) w"
  obtain err reg1 where r1: "ReloadFrom (lib (dk_tree w)) (path_string d) reg = (Some err, reg1)"
    using assms(1) by (auto simp: reload_promoted_def split: prod.splits option.splits)
  show ?thesis
  proof (cases existed)
    case False
    then have "w' = w1" using assms(1) r1 by (simp add: reload_promoted_def w1_def)
    then show ?thesis using none [OF False] by (simp add: w1_def remove_calm same_at_def)
  next
    case True
    have prev: "dk_tree w1 (prev_dir d @ q) = t0 (live_dir d @ q)" for q
      using old [OF True] by (simp add: w1_def remove_calm under_append)
    have "dk_tree w1 (prev_dir d) \<noteq> None" using old [OF True] prev [of "[]"] by simp
    then have "fst (Rename calm (prev_dir d) (live_dir d) w1) = None"
      using assms(2) not_below by (intro Rename_back) (simp_all add: w1_def remove_calm)
    then obtain w2 where r2: "Rename calm (prev_dir d) (live_dir d) w1 = (None, w2)" by (metis prod.collapse)
    then have "w' = w2" using assms(1) r1 True by (simp add: reload_promoted_def w1_def)
    then show ?thesis using Rename_moves(1) [OF r2] prev by (auto simp: same_at_def under_append)
  qed
qed

lemma promote_restores:
  assumes "promote lib calm d existed reg w = (Some e, reg', w')" "dk_tree w d = Some Dir"
    and old: "existed \<Longrightarrow> t0 (live_dir d) \<noteq> None \<and> dk_tree w (live_dir d) = None \<and> (\<forall>q. dk_tree w (prev_dir d @ q) = t0 (live_dir d @ q))"
    and none: "\<not> existed \<Longrightarrow> same_at (live_dir d) t0 (dk_tree w) \<and> (\<forall>p. under (live_dir d) p \<longrightarrow> t0 p = None)"
  shows "same_at (live_dir d) t0 (dk_tree w')"
proof -
  obtain e1 w1 where r: "Rename calm (staging_dir d @ [TreeDir]) (live_dir d) w = (e1, w1)" by fastforce
  have prev: "dk_tree w (prev_dir d) = t0 (live_dir d)" if existed using old [OF that] by (metis append_Nil2)
  show ?thesis
  proof (cases e1)
    case (Some x)
    define w2 where "w2 = (if existed then snd (Rename calm (prev_dir d) (live_dir d) w1) else w1)"
    have w': "w' = remove calm (staging_dir d) w2" using assms(1) r Some by (auto simp: promote_def w2_def Let_def)
    have w1: "dk_tree w1 = dk_tree w" using Rename_same r Some by blast
    have "same_at (live_dir d) t0 (dk_tree w2)"
    proof (cases existed)
      case True
      have "fst (Rename calm (prev_dir d) (live_dir d) w1) = None"
        using assms(2) old [OF True] prev [OF True] w1 by (intro Rename_back) simp_all
      then obtain v where r2: "Rename calm (prev_dir d) (live_dir d) w1 = (None, v)" by (metis prod.collapse)
      then have "w2 = v" using True by (simp add: w2_def)
      then show ?thesis using Rename_moves(1) [OF r2] old [OF True] w1 by (auto simp: same_at_def under_append)
    qed (use none w1 in \<open>simp add: w2_def\<close>)
    then show ?thesis using w' remove_elsewhere [of "''.next''" TreeDir d w2 calm] same_at_trans by auto
  next
    case None
    define v where "v = remove calm (staging_dir d) w1"
    have p: "reload_promoted lib calm d existed reg v = (Some e, reg', w')" using assms(1) r None by (simp add: promote_def v_def)
    have "keeps_dir d (Rename calm (staging_dir d @ [TreeDir]) (live_dir d))"
      by (intro keeps_dir_calls) (simp_all add: under_append)
    then have "dk_tree w1 d = Some Dir" using assms(2) r unfolding keeps_dir_def by (metis snd_conv)
    then have dir: "dk_tree v d = Some Dir" using not_below by (simp add: v_def remove_calm)
    have "same_at (prev_dir d) (dk_tree w) (dk_tree v)"
      using same_at_trans [OF prev_kept_by_promotion [OF r [unfolded None]] remove_elsewhere [of "''.next''" "''.prev''" d w1 calm]] by (simp add: v_def)
    then have "dk_tree v (prev_dir d @ q) = dk_tree w (prev_dir d @ q)" for q unfolding same_at_def by (metis under_self(2))
    then show ?thesis using reload_promoted_restores [OF p dir] old none by simp
  qed
qed

text \<open>A tree where nothing hangs below a missing rule tree.\<close>

definition rooted :: "path \<Rightarrow> tree \<Rightarrow> bool" where
  "rooted d t \<longleftrightarrow> (t (live_dir d) = None \<longrightarrow> (\<forall>p. under (live_dir d) p \<longrightarrow> t p = None))"

text \<open>When no call is refused for reasons outside the program, a failed application puts the old tree back.\<close>

lemma Apply_restores:
  assumes "Apply_manifest lib calm d m reg w = (Some e, reg', w')"
    and rooted: "rooted d (dk_tree w)"
  shows "same_at (live_dir d) (dk_tree w) (dk_tree w')"
proof -
  let ?t0 = "dk_tree w"
  obtain e1 w1 where r1: "MkdirAll calm d w = (e1, w1)" by fastforce
  have k1: "same_at (live_dir d) ?t0 (dk_tree w1)" by (rule MkdirAll_elsewhere [OF r1 not_below])
  obtain e2 w2 where r2: "writeTree calm (staging_dir d) d m w1 = (e2, w2)" by fastforce
  have k2: "same_at (live_dir d) ?t0 (dk_tree w2)" using same_at_trans [OF k1 writeTree_elsewhere [OF r2]] by simp
  define v where "v = remove calm (prev_dir d) w2"
  have k3: "same_at (live_dir d) ?t0 (dk_tree v)"
    using same_at_trans [OF k2 remove_elsewhere [of "''.prev''" TreeDir d w2 calm]] by (simp add: v_def)
  have drop: "same_at (live_dir d) ?t0 (dk_tree (remove calm (staging_dir d) u))" if "same_at (live_dir d) ?t0 (dk_tree u)" for u
    using same_at_trans [OF that remove_elsewhere [of "''.next''" TreeDir d u calm]] by simp
  obtain e3 w3 where r3: "Rename calm (live_dir d) (prev_dir d) v = (e3, w3)" by fastforce
  have live: "dk_tree v (live_dir d) = ?t0 (live_dir d)" using k3 by (metis same_at_def under_self(1))
  have dir: "dk_tree w3 d = Some Dir" if "e1 = None"
  proof -
    have "dk_tree w2 d = Some Dir"
      using MkdirAll_makes [OF r1 [unfolded that]] writeTree_keeps_dir [of d calm "''.next''" d m] r2 unfolding keeps_dir_def by (metis snd_conv)
    then have "dk_tree v d = Some Dir" using not_below by (simp add: v_def remove_calm)
    moreover have "keeps_dir d (Rename calm (live_dir d) (prev_dir d))" by (intro keeps_dir_calls not_below)
    ultimately show ?thesis using r3 unfolding keeps_dir_def by (metis snd_conv)
  qed
  consider "e1 \<noteq> None" | "e1 = None" "e2 \<noteq> None" | "e1 = None" "e2 = None" "e3 = None"
    | "e1 = None" "e2 = None" "e3 = Some NotExist" | msg where "e1 = None" "e2 = None" "e3 = Some (IOError msg)"
    by (metis io_error.exhaust option.exhaust)
  then show ?thesis
  proof cases
    case 1
    then show ?thesis using assms(1) r1 k1 by (auto simp: Apply_manifest_def)
  next
    case 2
    then show ?thesis using assms(1) r1 r2 drop [OF k2] by (auto simp: Apply_manifest_def)
  next
    case 3
    then have p: "promote lib calm d True reg w3 = (Some e, reg', w')" using assms(1) r1 r2 r3 by (simp add: Apply_manifest_def v_def)
    have "dk_tree v (live_dir d) \<noteq> None" using r3 3(3) by (auto simp: Rename_def Let_def split: if_splits)
    then show ?thesis
      using promote_restores [OF p dir [OF 3(1)], of ?t0] Rename_moves(1,2) [OF r3 [unfolded 3(3)]] k3 live
      by (auto simp: same_at_def under_append)
  next
    case 4
    then have p: "promote lib calm d False reg w3 = (Some e, reg', w')" using assms(1) r1 r2 r3 by (simp add: Apply_manifest_def v_def)
    have w3: "dk_tree w3 = dk_tree v" using Rename_same r3 4(3) by blast
    then have "dk_tree v (live_dir d) = None" using r3 4(3) dir [OF 4(1)] by (auto simp: Rename_def Let_def split: if_splits)
    then show ?thesis using promote_restores [OF p dir [OF 4(1)], of ?t0] rooted k3 live w3 by (simp add: rooted_def)
  next
    case 5
    then show ?thesis using assms(1) r1 r2 r3 drop [of w3] k3 Rename_same [of calm "live_dir d" "prev_dir d" v _ w3]
      by (auto simp: Apply_manifest_def v_def)
  qed
qed

section \<open>Properties of an application\<close>

lemma failed_rules:
  assumes "Apply_manifest lib os d m reg w = (Some e, reg', w')" "reads_tree lib d" "in_sync lib d reg (dk_tree w)"
  shows "ry_current reg' = ry_current reg \<and> left_behind os d (dk_tree w) (dk_tree w')"
proof -
  have "ry_current reg' = ry_current reg" if "same_at (live_dir d) (dk_tree w) t" "build (lib t) (path_string d) = Inr (ry_current reg')" for t
    using assms(3) in_sync_same [OF assms(2) that(1)] that(2) by (simp add: in_sync_def)
  then show ?thesis using Apply_failed [OF assms(1)] by blast
qed

text \<open>A failed application whose disk may hold a remnant: the rules stay or become what was on the disk.\<close>

lemma apply_failure_rules:
  assumes "Apply_manifest lib os d m reg w = (Some e, reg', w')" "reads_tree lib d"
  shows "ry_current reg' = ry_current reg \<or>
    \<not> in_sync lib d reg (dk_tree w) \<and> build (lib (dk_tree w)) (path_string d) = Inr (ry_current reg')"
proof -
  have "build (lib (dk_tree w)) (path_string d) = Inr (ry_current reg')"
    if "same_at (live_dir d) (dk_tree w) t" "build (lib t) (path_string d) = Inr (ry_current reg')" for t
    using assms(2) that by (metis reads_tree_def)
  then show ?thesis using failed_rules [OF assms] Apply_failed [OF assms(1)] by blast
qed


lemma build_HasDefault:
  assumes "build lib dir = Inr ps" "dir \<noteq> ''''"
  shows "HasDefault lib dir"
proof -
  have d: "map_of ps DefaultProfile \<noteq> None" and t: "buildTree lib dir TreeDir = Inr ps"
    using assms(1) by (auto simp: build_def split: sum.splits if_splits)
  from t obtain entries where "build_entries lib (rl_join lib dir TreeDir) [] entries = Inr ps"
    by (auto simp: buildTree_def split: sum.splits)
  from build_entries_ok [OF this] have "\<forall>q \<in> set ps. profile_ok lib (rl_join lib dir TreeDir) q" by simp
  moreover obtain p where "(DefaultProfile, p) \<in> set ps" using d by (meson map_of_SomeD not_None_eq)
  ultimately have "build_profile lib (rl_join lib dir TreeDir) DefaultProfile = Inr p" by (auto simp: profile_ok_def)
  then show ?thesis using assms(2) by (auto simp: HasDefault_def build_profile_def split: sum.splits if_splits)
qed

text \<open>
  C13: a successful application puts exactly the manifest in place and survives a restart: a text is in the live tree
  if and only if the manifest has it there, every rule file under its profile with its references rewritten and every
  data file beside them; every name is a safe one; the registry serves the set built from that tree, and a process
  started on that disk serves the same set.  The profiles and data files are maps, so no name is there twice.
\<close>

theorem applied_rules_survive_restart:
  assumes "Apply_manifest lib os d m reg w = (None, reg', w')" "reads_tree lib d" "d \<noteq> []"
    and "distinct (map fst (mf_Profiles m))" "distinct (map fst (mf_Data m))"
  shows "(\<forall>q b. dk_tree w' (live_dir d @ q) = Some (Text b) \<longleftrightarrow> manifest_text (live_dir d) m q = Some b) \<and>
    list_all (safe_profile (mf_Data m)) (mf_Profiles m) \<and>
    build (lib (dk_tree w')) (path_string d) = Inr (ry_current reg') \<and>
    (\<exists>r. New_registry (lib (dk_tree w')) profilesDir (path_string d) = Inr r \<and> ry_current r = ry_current reg')"
proof -
  obtain w1 w2 t where w: "writeTree os (staging_dir d) d m w1 = (None, w2)" "build (lib t) (path_string d) = Inr (ry_current reg')"
    "same_at (live_dir d) t (dk_tree w')" "\<forall>q. t (live_dir d @ q) = dk_tree w2 (staging_dir d @ [TreeDir] @ q)"
    using Apply_succeeded [OF assms(1)] by blast
  have "dk_tree w' (live_dir d @ q) = dk_tree w2 (staging_dir d @ TreeDir # q)" for q
    using w(3,4) unfolding same_at_def by (metis append_Cons append_Nil under_self(2))
  moreover have "texts (staging_dir d) w2 (TreeDir # q) = manifest_text (live_dir d) m q" for q
    using writeTree_texts [OF w(1)] manifest_writes [OF assms(4,5), of "live_dir d"] by simp
  ultimately have there: "dk_tree w' (live_dir d @ q) = Some (Text b) \<longleftrightarrow> manifest_text (live_dir d) m q = Some b" for q b
    using texts_iff [of "staging_dir d" w2 "TreeDir # q" b] by simp
  have b: "build (lib (dk_tree w')) (path_string d) = Inr (ry_current reg')"
    using assms(2) w(2,3) by (metis reads_tree_def)
  have "path_string d \<noteq> ''''" using assms(3) by (cases d) (simp_all add: path_string_def)
  then have "New_registry (lib (dk_tree w')) profilesDir (path_string d) =
      Inr \<lparr>ry_dir = path_string d, ry_current = ry_current reg', ry_unknown = Map.empty\<rparr>"
    using build_HasDefault [OF b] b by (simp add: New_registry_def Reload_def ReloadFrom_def)
  then show ?thesis using writeTree_texts [OF w(1)] b there by simp
qed

section \<open>Watching\<close>

record Applied =
  ap_hash :: string
  ap_rev :: int
  ap_apply :: string
  ap_names :: "string list"

definition no_applied :: Applied where
  "no_applied = \<lparr>ap_hash = '''', ap_rev = 0, ap_apply = '''', ap_names = []\<rparr>"

declare no_applied_def [simp]

definition Snapshot :: "Applied \<Rightarrow> string \<times> int \<times> string \<times> string list" where
  "Snapshot a = (ap_hash a, ap_rev a, ap_apply a, ap_names a)"

definition set_applied :: "string \<Rightarrow> int \<Rightarrow> string \<Rightarrow> string list \<Rightarrow> Applied \<Rightarrow> Applied" where
  "set_applied hash rv apply' names a = a\<lparr>ap_hash := hash, ap_rev := rv, ap_apply := apply', ap_names := names\<rparr>"

abbreviation ApplyOK :: string where "ApplyOK \<equiv> ''ok''"
abbreviation ApplyFailed :: string where "ApplyFailed \<equiv> ''apply_failed''"

text \<open>What the watcher's goroutine holds and shares: the applied state the heartbeat reads, the registry, the
  disk, the level of the logger, the pack to try again and whether the timer for that is running.\<close>

record 'e watcher =
  wa_applied :: Applied
  wa_registry :: "'e Registry"
  wa_disk :: disk
  wa_level :: int
  wa_pending :: "Pack option"
  wa_retry :: bool

text \<open>What does not change while it runs, and what each event finds: the answers of Redis and the faults.\<close>

record 'e wenv =
  we_lib :: "tree \<Rightarrow> 'e rules_lib"
  we_dir :: path
  we_sha :: "bytes \<Rightarrow> string"
  we_unmarshal :: "bytes \<Rightarrow> string + Pack"
  we_parse :: "string \<Rightarrow> string + int"

record outside =
  out_mget :: "string list \<Rightarrow> string + redis_value list"
  out_faults :: faults

definition namesOr :: "'e Registry \<Rightarrow> string list" where
  "namesOr reg = Names (ry_current reg)"

definition set_failed :: "'e Registry \<Rightarrow> Applied \<Rightarrow> Applied" where
  "set_failed reg a = (case Snapshot a of (hash, rv, _, _) \<Rightarrow> set_applied hash rv ApplyFailed (namesOr reg) a)"

lemma set_applied_eq [simp]:
  "set_applied hash rv apply' names a = \<lparr>ap_hash = hash, ap_rev = rv, ap_apply = apply', ap_names = names\<rparr>"
  by (simp add: set_applied_def)

lemma set_failed_eq: "set_failed reg a = a\<lparr>ap_apply := ApplyFailed, ap_names := namesOr reg\<rparr>"
  by (simp add: set_failed_def Snapshot_def)

text \<open>The handler of a pack answers whether to try it again.\<close>

definition handle :: "'e wenv \<Rightarrow> outside \<Rightarrow> Pack \<Rightarrow> 'e watcher \<Rightarrow> bool \<times> 'e watcher" where
  "handle env ev p st =
     (let a = wa_applied st; reg = wa_registry st
      in if ap_apply a = ApplyOK \<and> ap_hash a = pk_SHA256 p \<and> ap_rev a = pk_Rev p then (False, st)
         else (case FetchBlobs (we_sha env) (out_mget ev) p of
           Inl _ \<Rightarrow> (True, st\<lparr>wa_applied := set_failed reg a\<rparr>)
         | Inr blobs \<Rightarrow> (case Expand p blobs of
             Inl _ \<Rightarrow> (False, st\<lparr>wa_applied := set_failed reg a\<rparr>)
           | Inr m \<Rightarrow> (case Apply_manifest (we_lib env) (out_faults ev) (we_dir env) m reg (wa_disk st) of
               (Some _, reg', w') \<Rightarrow>
                 (False, st\<lparr>wa_applied := set_failed reg' a, wa_registry := reg', wa_disk := w'\<rparr>)
             | (None, reg', w') \<Rightarrow>
                 (False, st\<lparr>wa_applied := set_applied (pk_SHA256 p) (pk_Rev p) ApplyOK (manifest_names m) a,
                            wa_registry := reg', wa_disk := w',
                            wa_level := apply_settings (mf_Settings m) (wa_level st)\<rparr>)))))"

text \<open>One turn of the loop: the timer, or an entry of the bucket (deleted and empty ones are passed over).\<close>

datatype watch_event = Timer | Marker | Deleted | Entry bytes

definition watch_step :: "'e wenv \<Rightarrow> outside \<Rightarrow> watch_event \<Rightarrow> 'e watcher \<Rightarrow> 'e watcher" where
  "watch_step env ev event st = (case event of
     Timer \<Rightarrow>
       if \<not> wa_retry st then st
       else (let st0 = st\<lparr>wa_retry := False\<rparr> in case wa_pending st0 of
          None \<Rightarrow> st0
        | Some p \<Rightarrow> (case handle env ev p st0 of
            (True, st1) \<Rightarrow> st1\<lparr>wa_retry := True\<rparr>
          | (False, st1) \<Rightarrow> st1\<lparr>wa_pending := None\<rparr>))
   | Marker \<Rightarrow> st
   | Deleted \<Rightarrow> st
   | Entry raw \<Rightarrow> (case ParsePack (we_unmarshal env) (we_parse env) raw of
       Inl _ \<Rightarrow> st
     | Inr p \<Rightarrow> (case handle env ev p (st\<lparr>wa_pending := None, wa_retry := False\<rparr>) of
         (True, st1) \<Rightarrow> st1\<lparr>wa_pending := Some p, wa_retry := True\<rparr>
       | (False, st1) \<Rightarrow> st1)))"

text \<open>Before the loop \<open>Watch\<close> opens the bucket with a history of five and watches one key; an error ends it.\<close>

abbreviation Bucket :: string where "Bucket \<equiv> ''WAF_DESIRED''"
abbreviation PackKey :: string where "PackKey \<equiv> ''policy/rules-pack''"

record jetstream =
  js_New :: "string option"
  js_KeyValue :: "string \<Rightarrow> int \<Rightarrow> string option"
  js_Watch :: "string \<Rightarrow> string option"

definition Watch :: "jetstream \<Rightarrow> string + Applied" where
  "Watch js = (case js_New js of Some e \<Rightarrow> Inl e | None \<Rightarrow>
     (case js_KeyValue js Bucket 5 of Some e \<Rightarrow> Inl e | None \<Rightarrow>
       (case js_Watch js PackKey of Some e \<Rightarrow> Inl e | None \<Rightarrow> Inr no_applied)))"

section \<open>Properties of the watcher\<close>

text \<open>The watcher from its start, when the registry has been created, over any events, with what the calls that
  failed on the way left on the disk.\<close>

inductive watch_run :: "'e wenv \<Rightarrow> tree set \<Rightarrow> 'e watcher \<Rightarrow> bool" for env where
  start: "New_registry (we_lib env t) profilesDir (path_string (we_dir env)) = Inr reg \<Longrightarrow>
    watch_run env {} \<lparr>wa_applied = no_applied, wa_registry = reg,
      wa_disk = \<lparr>dk_calls = n, dk_tree = t\<rparr>, wa_level = level, wa_pending = None, wa_retry = False\<rparr>"
| step: "watch_run env left st \<Longrightarrow> watch_run env (left \<union> ran (out_faults ev)) (watch_step env ev event st)"

abbreviation (input) on_disk :: "'e wenv \<Rightarrow> 'e watcher \<Rightarrow> rules_error + 'e profiles" where
  "on_disk env st \<equiv> build (we_lib env (dk_tree (wa_disk st))) (path_string (we_dir env))"

abbreviation (input) watcher_in_sync :: "'e wenv \<Rightarrow> 'e watcher \<Rightarrow> bool" where
  "watcher_in_sync env st \<equiv> in_sync (we_lib env) (we_dir env) (wa_registry st) (dk_tree (wa_disk st))"

abbreviation (input) is_remnant :: "'e wenv \<Rightarrow> tree set \<Rightarrow> 'e watcher \<Rightarrow> bool" where
  "is_remnant env left st \<equiv> \<exists>g \<in> left. same_at (live_dir (we_dir env)) g (dk_tree (wa_disk st))"

text \<open>What is reported as applied is what is on disk, and what is on disk is what is served or the remnant of a
  call that failed.\<close>

definition served_ok :: "'e wenv \<Rightarrow> tree set \<Rightarrow> 'e watcher \<Rightarrow> bool" where
  "served_ok env left st \<longleftrightarrow> (watcher_in_sync env st \<or> is_remnant env left st) \<and>
     (ap_apply (wa_applied st) = ApplyOK \<longrightarrow> on_disk env st = Inr (ry_current (wa_registry st)))"

lemma served_ok_updates [simp]:
  "served_ok env left (st\<lparr>wa_pending := p\<rparr>) = served_ok env left st" "served_ok env left (st\<lparr>wa_retry := b\<rparr>) = served_ok env left st"
  "served_ok env left (st\<lparr>wa_level := l\<rparr>) = served_ok env left st"
  by (simp_all add: served_ok_def)

lemma served_ok_more: "served_ok env left st \<Longrightarrow> served_ok env (left \<union> gs) st"
  unfolding served_ok_def by blast

lemma New_registry_in_sync:
  assumes "New_registry (lib t) profilesDir (path_string d) = Inr reg" "d \<noteq> []"
  shows "in_sync lib d reg t"
proof (cases "build (lib t) (path_string d)")
  case (Inr ps)
  have "path_string d \<noteq> ''''" using assms(2) by (cases d) (simp_all add: path_string_def)
  then show ?thesis using assms(1) build_HasDefault [OF Inr] Inr
    by (auto simp: New_registry_def Reload_def ReloadFrom_def in_sync_def)
qed (simp add: in_sync_def)

lemma left_behind_in_sync:
  assumes "left_behind os d t0 t" "reads_tree lib d" "in_sync lib d reg t0 \<or> (\<exists>g \<in> left. same_at (live_dir d) g t0)"
  shows "in_sync lib d reg t \<or> (\<exists>g \<in> left \<union> ran os. same_at (live_dir d) g t)"
  using assms(1) unfolding left_behind_def
proof (elim disjE exE conjE)
  assume "same_at (live_dir d) t0 t"
  then show ?thesis using in_sync_same [OF assms(2)] assms(3) same_at_trans by blast
next
  assume "\<forall>p. under (live_dir d) p \<longrightarrow> t p = None"
  then have "isl (build (lib t) (path_string d))" using assms(2) by (simp add: reads_tree_def)
  then show ?thesis by (auto simp: in_sync_def split: sum.splits)
next
  fix n g assume "os n = Some g" "same_at (live_dir d) g t"
  then show ?thesis by (auto simp: ran_def)
qed

lemma apply_failure_disk:
  assumes a: "Apply_manifest lib os d m reg w = (Some e, reg', w')" and tree: "reads_tree lib d"
    and before: "in_sync lib d reg (dk_tree w) \<or> (\<exists>g \<in> left. same_at (live_dir d) g (dk_tree w))"
  shows "in_sync lib d reg' (dk_tree w') \<or> (\<exists>g \<in> left \<union> ran os. same_at (live_dir d) g (dk_tree w'))"
proof (cases "ry_current reg' = ry_current reg")
  case True
  then have "in_sync lib d reg' t = in_sync lib d reg t" for t unfolding in_sync_def True by simp
  then show ?thesis using left_behind_in_sync [OF _ tree before] Apply_failed [OF a] by simp
next
  case False
  then have now: "in_sync lib d reg' (dk_tree w)" using apply_failure_rules [OF a tree] by (simp add: in_sync_def)
  show ?thesis using left_behind_in_sync [OF _ tree disjI1 [OF now]] Apply_failed [OF a] by blast
qed

text \<open>What handling one pack does to the served rules: it applies the pack, or it fails and puts back in force what
  an earlier call that failed left on the disk.\<close>

definition changes_rules :: "'e wenv \<Rightarrow> outside \<Rightarrow> 'e watcher \<Rightarrow> 'e watcher \<Rightarrow> bool" where
  "changes_rules env ev st st' \<longleftrightarrow> ap_apply (wa_applied st') = ApplyOK \<and>
     (\<exists>p blobs m w'. FetchBlobs (we_sha env) (out_mget ev) p = Inr blobs \<and> Expand p blobs = Inr m \<and>
        Apply_manifest (we_lib env) (out_faults ev) (we_dir env) m (wa_registry st) (wa_disk st) = (None, wa_registry st', w') \<and>
        ap_hash (wa_applied st') = pk_SHA256 p \<and> ap_rev (wa_applied st') = pk_Rev p \<and> ap_names (wa_applied st') = manifest_names m)"

definition reloads_remnant :: "'e wenv \<Rightarrow> tree set \<Rightarrow> 'e watcher \<Rightarrow> 'e watcher \<Rightarrow> bool" where
  "reloads_remnant env left st st' \<longleftrightarrow> is_remnant env left st \<and> on_disk env st = Inr (ry_current (wa_registry st')) \<and>
     ap_apply (wa_applied st') = ApplyFailed \<and> ap_names (wa_applied st') = Names (ry_current (wa_registry st'))"

lemma handle_effect:
  assumes h: "handle env ev p st = (again, st')" and tree: "reads_tree (we_lib env) (we_dir env)" and ok: "served_ok env left st"
  shows "served_ok env (left \<union> ran (out_faults ev)) st' \<and> wa_pending st' = wa_pending st \<and> wa_retry st' = wa_retry st \<and>
    (ry_current (wa_registry st') = ry_current (wa_registry st) \<or> changes_rules env ev st st' \<or> reloads_remnant env left st st')"
proof (cases "ap_apply (wa_applied st) = ApplyOK \<and> ap_hash (wa_applied st) = pk_SHA256 p \<and> ap_rev (wa_applied st) = pk_Rev p")
  case True
  then show ?thesis using h ok served_ok_more by (simp add: handle_def)
next
  case False
  have failed: "served_ok env (left \<union> ran (out_faults ev)) (st\<lparr>wa_applied := set_failed reg a\<rparr>)" for reg a
    using ok by (intro served_ok_more) (simp add: served_ok_def set_failed_eq)
  show ?thesis
  proof (cases "FetchBlobs (we_sha env) (out_mget ev) p")
    case (Inl e)
    then have "st' = st\<lparr>wa_applied := set_failed (wa_registry st) (wa_applied st)\<rparr>"
      using h False unfolding handle_def Let_def by auto
    then show ?thesis using failed by simp
  next
    case (Inr blobs)
    note fetched = Inr
    show ?thesis
    proof (cases "Expand p blobs")
      case (Inl e)
      then have "st' = st\<lparr>wa_applied := set_failed (wa_registry st) (wa_applied st)\<rparr>"
        using h False fetched unfolding handle_def Let_def by auto
      then show ?thesis using failed by simp
    next
      case (Inr m)
      obtain e reg' w' where a: "Apply_manifest (we_lib env) (out_faults ev) (we_dir env) m (wa_registry st) (wa_disk st) = (e, reg', w')"
        by (metis surj_pair)
      show ?thesis
      proof (cases e)
        case (Some err)
        then have st': "st' = st\<lparr>wa_applied := set_failed reg' (wa_applied st), wa_registry := reg', wa_disk := w'\<rparr>"
          using h False fetched Inr a unfolding handle_def Let_def by auto
        have "watcher_in_sync env st' \<or> is_remnant env (left \<union> ran (out_faults ev)) st' "
          using apply_failure_disk [OF a [unfolded Some] tree] ok unfolding served_ok_def st' by simp
        then have "served_ok env (left \<union> ran (out_faults ev)) st'" by (simp add: served_ok_def st' set_failed_eq)
        moreover have "ry_current reg' = ry_current (wa_registry st) \<or> reloads_remnant env left st st'"
          using apply_failure_rules [OF a [unfolded Some] tree] ok
          by (auto simp: served_ok_def reloads_remnant_def st' set_failed_eq namesOr_def)
        ultimately show ?thesis using st' by auto
      next
        case None
        then have st': "st' = st\<lparr>wa_applied := \<lparr>ap_hash = pk_SHA256 p, ap_rev = pk_Rev p, ap_apply = ApplyOK, ap_names = manifest_names m\<rparr>,
              wa_registry := reg', wa_disk := w', wa_level := apply_settings (mf_Settings m) (wa_level st)\<rparr>"
          using h False fetched Inr a unfolding handle_def Let_def by auto
        have "build (we_lib env (dk_tree w')) (path_string (we_dir env)) = Inr (ry_current reg')"
          using Apply_succeeded [OF a [unfolded None]] tree by (metis reads_tree_def)
        moreover have "changes_rules env ev st st'" using fetched Inr a None by (auto simp: changes_rules_def st')
        ultimately show ?thesis by (simp add: st' served_ok_def in_sync_def)
      qed
    qed
  qed
qed

lemma watch_step_effect:
  assumes "reads_tree (we_lib env) (we_dir env)" "served_ok env left st" "wa_retry st = (wa_pending st \<noteq> None)"
  shows "let st' = watch_step env ev event st in
    served_ok env (left \<union> ran (out_faults ev)) st' \<and> wa_retry st' = (wa_pending st' \<noteq> None) \<and>
    (ry_current (wa_registry st') = ry_current (wa_registry st) \<or> changes_rules env ev st st' \<or> reloads_remnant env left st st')"
proof (cases event)
  case Timer
  show ?thesis
  proof (cases "wa_pending st")
    case (Some p)
    obtain again st1 where h: "handle env ev p (st\<lparr>wa_retry := False\<rparr>) = (again, st1)" by fastforce
    show ?thesis
      using handle_effect [OF h assms(1), of left] assms(2,3) Some h Timer
      by (cases again) (auto simp: watch_step_def Let_def changes_rules_def reloads_remnant_def)
  qed (use assms Timer served_ok_more in \<open>simp add: watch_step_def\<close>)
next
  case (Entry raw)
  show ?thesis
  proof (cases "ParsePack (we_unmarshal env) (we_parse env) raw")
    case (Inr p)
    obtain again st1 where h: "handle env ev p (st\<lparr>wa_pending := None, wa_retry := False\<rparr>) = (again, st1)" by fastforce
    show ?thesis
      using handle_effect [OF h assms(1), of left] assms(2) Inr h Entry
      by (cases again) (auto simp: watch_step_def Let_def changes_rules_def reloads_remnant_def)
  qed (use assms Entry served_ok_more in \<open>simp add: watch_step_def\<close>)
qed (use assms served_ok_more in \<open>simp_all add: watch_step_def\<close>)

lemma watch_run_ok:
  "watch_run env left st \<Longrightarrow> reads_tree (we_lib env) (we_dir env) \<Longrightarrow> we_dir env \<noteq> [] \<Longrightarrow>
     served_ok env left st \<and> wa_retry st = (wa_pending st \<noteq> None)"
proof (induction rule: watch_run.induct)
  case (start t profilesDir reg n level)
  then show ?case using New_registry_in_sync by (fastforce simp: served_ok_def)
next
  case (step left st ev event)
  then show ?case using watch_step_effect [of env left st ev event] by (simp add: Let_def)
qed

text \<open>
  C11: over any sequence of packs and timers, and any failures of Redis and of the disk, what the watcher
  reports and what is served agree.  A state reported as applied means that the rule tree on disk builds to the set that
  is served.  Otherwise the tree, if it is a rule set at all, is the set that is served, or exactly the remnant of a call
  that failed on the way; without such failures it is always the former.  The timer runs exactly when a pack is
  waiting for it.  And an event changes the served rules only by applying a pack whose blobs were fetched and
  verified, which it then reports, or, as a failed application reported with the names that are now served, by putting
  in force such a remnant that was on the disk before.
\<close>

theorem watcher_serves_what_it_reports:
  assumes "watch_run env left st" "reads_tree (we_lib env) (we_dir env)" "we_dir env \<noteq> []"
  shows "(in_sync (we_lib env) (we_dir env) (wa_registry st) (dk_tree (wa_disk st)) \<or>
      (\<exists>g \<in> left. same_at (live_dir (we_dir env)) g (dk_tree (wa_disk st)))) \<and>
    (ap_apply (wa_applied st) = ApplyOK \<longrightarrow>
       build (we_lib env (dk_tree (wa_disk st))) (path_string (we_dir env)) = Inr (ry_current (wa_registry st))) \<and>
    wa_retry st = (wa_pending st \<noteq> None) \<and>
    (let st' = watch_step env ev event st in
      ry_current (wa_registry st') = ry_current (wa_registry st) \<or> changes_rules env ev st st' \<or> reloads_remnant env left st st')"
  using watch_run_ok [OF assms] watch_step_effect [OF assms(2), of left st ev event]
  by (auto simp: served_ok_def Let_def)

section \<open>A disk and an application\<close>

abbreviation (input) sample_conf :: path where "sample_conf \<equiv> [''data'', TreeDir, ''default'', ''00-f1.conf'']"

text \<open>A library that compiles the one rule file of the default profile and refuses the text \<open>bad\<close>.\<close>

definition tree_lib :: "tree \<Rightarrow> string rules_lib" where
  "tree_lib t = \<lparr>rl_join = (\<lambda>a b. a @ ''/'' @ b),
     rl_ReadDir = (\<lambda>_. if t [''data'', TreeDir, ''default''] = Some Dir then Inr [(''default'', True)] else Inl ''missing''),
     rl_Glob = (\<lambda>p. Inr [p]),
     rl_NewEngine = (\<lambda>_. case t sample_conf of Some (Text s) \<Rightarrow> if s = ''bad'' then Inl ''syntax'' else Inr s | _ \<Rightarrow> Inl ''missing''),
     rl_RuleCount = (\<lambda>_. 1), rl_ReadFile = (\<lambda>_. Inl NotExist), rl_Unmarshal = (\<lambda>_. Inl ''none'')\<rparr>"

definition served :: "string \<Rightarrow> string profiles" where
  "served s = [(''default'', \<lparr>pf_engine = s, pf_policy = \<lparr>pol_Rules = [], pol_Outcomes = []\<rparr>\<rparr>)]"

lemma tree_lib_build:
  "build (tree_lib t) dir =
    (if t [''data'', TreeDir, ''default''] = Some Dir
     then (case t sample_conf of
        Some (Text s) \<Rightarrow> if s = ''bad'' then Inl (EngineRefused ''default'' ''syntax'') else Inr (served s)
      | _ \<Rightarrow> Inl (EngineRefused ''default'' ''missing''))
     else Inl (ProfilesUnreadable ''missing''))"
  by (auto simp: build_def buildTree_def build_profile_def tree_lib_def LoadDir_def loadFile_def served_def split: option.splits node.splits)

lemma tree_lib_reads: "reads_tree tree_lib [''data'']"
proof -
  have "under [''data'', TreeDir] [''data'', TreeDir, ''default'']" "under [''data'', TreeDir] sample_conf" by (simp_all add: under_def)
  then show ?thesis unfolding reads_tree_def tree_lib_build by (auto simp: same_at_def)
qed

text \<open>The disk after the text \<open>s\<close> was applied, and the registry that serves it.\<close>

definition sample_tree :: "string \<Rightarrow> tree" where
  "sample_tree s = [[] \<mapsto> Dir, [''data''] \<mapsto> Dir, [''data'', TreeDir] \<mapsto> Dir, [''data'', TreeDir, ''default''] \<mapsto> Dir, sample_conf \<mapsto> Text s]"

definition sample_disk :: "string \<Rightarrow> disk" where
  "sample_disk s = \<lparr>dk_calls = 0, dk_tree = sample_tree s\<rparr>"

definition serving_registry :: "string \<Rightarrow> string Registry" where
  "serving_registry s = \<lparr>ry_dir = ''/data'', ry_current = served s, ry_unknown = Map.empty\<rparr>"

definition bad_manifest :: Manifest where
  "bad_manifest = sample_manifest\<lparr>mf_Profiles := [(''default'', [\<lparr>fl_Name = ''00-f1.conf'', fl_Text = ''bad''\<rparr>])]\<rparr>"

lemma rewrite_samples: "rewriteFromFile dir ''bad'' = ''bad''" "rewriteFromFile dir ''rule'' = ''rule''"
  by (simp_all add: rewriteFromFile.simps match_from_file_def)

lemma safe_samples: "safeName ''default''" "safeName ''ips''" "safeName ''00-f1.conf''"
  by code_simp+

lemma no_faults:
  "MkdirAll (\<lambda>_. None) d w = (if list_ex (\<lambda>n. case dk_tree w (take n d) of Some (Text _) \<Rightarrow> True | _ \<Rightarrow> False) [0..<Suc (length d)]
      then (Some refused, after_call (dk_tree w) w)
      else (None, after_call (\<lambda>p. if under p d \<and> dk_tree w p = None then Some Dir else dk_tree w p) w))"
  "RemoveAll (\<lambda>_. None) d w = (None, after_call (\<lambda>p. if under d p then None else dk_tree w p) w)"
  by (auto simp: MkdirAll_def RemoveAll_def Let_def fun_eq_iff)

lemmas run_sample = Apply_manifest_def no_faults writeTree_def bad_manifest_def sample_manifest_def profile_steps_def os_step_def
  name_step_def safe_samples rewrite_samples sample_disk_def sample_tree_def after_call_def WriteFile_def Rename_def promote_def
  reload_promoted_def moved_def under_def ReloadFrom_def tree_lib_build

lemma sample_rejected:
  "fst (Apply_manifest tree_lib (\<lambda>_. None) [''data''] bad_manifest (serving_registry ''rule'') (sample_disk ''rule'')) =
     Some (Rejected (EngineRefused ''default'' ''syntax''))"
  by (simp add: run_sample)

lemma sample_applied:
  "fst (Apply_manifest tree_lib (\<lambda>_. None) [''data''] sample_manifest (serving_registry ''old'') (sample_disk ''old'')) = None"
  by (simp add: run_sample)

lemma sample_in_sync: "s \<noteq> ''bad'' \<Longrightarrow> in_sync tree_lib [''data''] (serving_registry s) (dk_tree (sample_disk s))"
  by (simp add: in_sync_def tree_lib_build sample_disk_def sample_tree_def serving_registry_def)


theorem applied_rules_survive_restart_witness:
  "\<exists>reg' w'. Apply_manifest tree_lib (\<lambda>_. None) [''data''] sample_manifest (serving_registry ''old'') (sample_disk ''old'') = (None, reg', w') \<and>
     dk_tree w' [''data'', TreeDir, ''default'', ''00-f1.conf''] = Some (Text ''rule'') \<and>
     dk_tree w' [''data'', TreeDir, ''default'', ''ips''] = Some (Text ''1'') \<and>
     build (tree_lib (dk_tree w')) ''/data'' = Inr (ry_current reg')"
proof -
  obtain reg' w' where a: "Apply_manifest tree_lib (\<lambda>_. None) [''data''] sample_manifest (serving_registry ''old'') (sample_disk ''old'') = (None, reg', w')"
    using sample_applied by (metis prod.collapse)
  have "distinct (map fst (mf_Profiles sample_manifest))" "distinct (map fst (mf_Data sample_manifest))" by (simp_all add: sample_manifest_def)
  note k = applied_rules_survive_restart [OF a tree_lib_reads _ this, of "''/p''"]
  have "manifest_text [''data'', TreeDir] sample_manifest [''default'', ''00-f1.conf''] = Some ''rule''"
    "manifest_text [''data'', TreeDir] sample_manifest [''default'', ''ips''] = Some ''1''"
    by (simp_all add: manifest_text_def sample_manifest_def rewrite_samples)
  then show ?thesis using k a by (auto simp: path_string_def dest: spec)
qed

text \<open>A watcher that starts on the disk where \<open>old\<close> was applied, with Redis holding the sample pack.\<close>

definition sample_wenv :: "string wenv" where
  "sample_wenv = \<lparr>we_lib = tree_lib, we_dir = [''data''], we_sha = (\<lambda>b. b), we_unmarshal = (\<lambda>_. Inr sample_pack), we_parse = (\<lambda>_. Inl ''number'')\<rparr>"

definition sample_outside :: outside where
  "sample_outside = \<lparr>out_mget = sample_mget, out_faults = (\<lambda>_. None)\<rparr>"

definition sample_watcher :: "string watcher" where
  "sample_watcher = \<lparr>wa_applied = no_applied,
     wa_registry = serving_registry ''old'', wa_disk = sample_disk ''old'', wa_level = 0, wa_pending = None, wa_retry = False\<rparr>"

lemma sample_watch_start: "watch_run sample_wenv {} sample_watcher"
proof -
  have "HasDefault (tree_lib t) ''/data''" for t by (simp add: HasDefault_def tree_lib_def)
  then have "New_registry (we_lib sample_wenv (sample_tree ''old'')) ''/p'' (path_string (we_dir sample_wenv)) = Inr (serving_registry ''old'')"
    by (simp add: sample_wenv_def New_registry_def Reload_def ReloadFrom_def path_string_def tree_lib_build sample_tree_def serving_registry_def)
  from watch_run.start [OF this, of 0 0] show ?thesis by (simp add: sample_watcher_def sample_disk_def)
qed

lemma sample_watch_applies:
  "ap_apply (wa_applied (watch_step sample_wenv sample_outside (Entry ''x'') sample_watcher)) = ApplyOK \<and>
   ap_hash (wa_applied (watch_step sample_wenv sample_outside (Entry ''x'') sample_watcher)) = ''sha256:p''"
proof -
  obtain blobs where b: "FetchBlobs (\<lambda>b. b) sample_mget sample_pack = Inr blobs" "Expand sample_pack blobs = Inr sample_manifest"
    using sample_fetch by blast
  obtain reg' w' where a: "Apply_manifest tree_lib (\<lambda>_. None) [''data''] sample_manifest (serving_registry ''old'') (sample_disk ''old'') = (None, reg', w')"
    using sample_applied by (metis prod.collapse)
  have "ParsePack (we_unmarshal sample_wenv) (we_parse sample_wenv) ''x'' = Inr sample_pack" by code_simp
  then show ?thesis using a b
    by (simp add: watch_step_def handle_def sample_watcher_def sample_wenv_def sample_outside_def) (simp add: sample_pack_def)
qed

theorem watcher_serves_what_it_reports_witness:
  "let st = watch_step sample_wenv sample_outside (Entry ''x'') sample_watcher in
     watch_run sample_wenv {} st \<and> ap_apply (wa_applied st) = ApplyOK \<and>
     build (tree_lib (dk_tree (wa_disk st))) ''/data'' = Inr (ry_current (wa_registry st))"
proof -
  let ?st = "watch_step sample_wenv sample_outside (Entry ''x'') sample_watcher"
  have r: "watch_run sample_wenv {} ?st"
    using watch_run.step [OF sample_watch_start, of sample_outside "Entry ''x''"] by (simp add: sample_outside_def ran_def)
  have "reads_tree (we_lib sample_wenv) (we_dir sample_wenv)" "we_dir sample_wenv \<noteq> []" using tree_lib_reads by (simp_all add: sample_wenv_def)
  from watcher_serves_what_it_reports [OF r this, of sample_outside Timer] r sample_watch_applies
  show ?thesis unfolding Let_def by (simp add: sample_wenv_def path_string_def)
qed

text \<open>A library whose default profile is its one or two rule files, in order, and a manifest whose second file
  does not compile.\<close>

abbreviation (input) second_conf :: path where "second_conf \<equiv> [''data'', TreeDir, ''default'', ''01-f2.conf'']"

definition pair_lib :: "tree \<Rightarrow> string rules_lib" where
  "pair_lib t = (tree_lib t)\<lparr>rl_NewEngine := (\<lambda>_. case (t sample_conf, t second_conf) of
      (Some (Text a), None) \<Rightarrow> Inr a
    | (Some (Text a), Some (Text b)) \<Rightarrow> if b = ''bad'' then Inl ''syntax'' else Inr (a @ b)
    | _ \<Rightarrow> Inl ''missing'')\<rparr>"

lemma pair_lib_build:
  "build (pair_lib t) dir =
    (if t [''data'', TreeDir, ''default''] = Some Dir
     then (case rl_NewEngine (pair_lib t) [] of Inl e \<Rightarrow> Inl (EngineRefused ''default'' e) | Inr s \<Rightarrow> Inr (served s))
     else Inl (ProfilesUnreadable ''missing''))"
  by (auto simp: build_def buildTree_def build_profile_def pair_lib_def tree_lib_def LoadDir_def loadFile_def served_def
      split: option.splits node.splits)

definition half_bad_manifest :: Manifest where
  "half_bad_manifest = sample_manifest\<lparr>mf_Profiles :=
     [(''default'', [\<lparr>fl_Name = ''00-f1.conf'', fl_Text = ''rule''\<rparr>, \<lparr>fl_Name = ''01-f2.conf'', fl_Text = ''bad''\<rparr>])]\<rparr>"

text \<open>The eleventh call, the removal of the rejected tree, is cut short after the second file.\<close>

definition cut_removal :: faults where
  "cut_removal n = (if n = 10 then Some (sample_tree ''rule'') else None)"

text \<open>A disk where two files were applied.\<close>

definition pair_disk :: disk where
  "pair_disk = \<lparr>dk_calls = 0, dk_tree = (sample_tree ''good'')(second_conf \<mapsto> Text ''better'')\<rparr>"

lemma pair_safe: "safeName ''01-f2.conf''" by code_simp

lemma pair_engine:
  "rl_NewEngine (pair_lib t) x = (case (t sample_conf, t second_conf) of
      (Some (Text a), None) \<Rightarrow> Inr a
    | (Some (Text a), Some (Text b)) \<Rightarrow> if b = ''bad'' then Inl ''syntax'' else Inr (a @ b)
    | _ \<Rightarrow> Inl ''missing'')"
  by (simp add: pair_lib_def)

lemma MkdirAll_cut: "dk_calls w \<noteq> 10 \<Longrightarrow> MkdirAll cut_removal d w = MkdirAll (\<lambda>_. None) d w"
  by (simp add: MkdirAll_def cut_removal_def Let_def)

lemmas run_pair = run_sample half_bad_manifest_def pair_lib_build pair_engine pair_safe
lemmas run_cut = run_pair pair_disk_def MkdirAll_cut RemoveAll_def cut_removal_def

definition cut_disk :: disk where
  "cut_disk = snd (snd (Apply_manifest pair_lib cut_removal [''data''] half_bad_manifest (serving_registry ''goodbetter'') pair_disk))"

lemma cut_run:
  "Apply_manifest pair_lib cut_removal [''data''] half_bad_manifest (serving_registry ''goodbetter'') pair_disk =
     (Some (Rejected (EngineRefused ''default'' ''syntax'')), serving_registry ''goodbetter'', cut_disk)"
  by (simp add: cut_disk_def run_cut)

text \<open>A disk that holds the first file of the rejected tree.\<close>

definition holds_half :: "tree \<Rightarrow> bool" where
  "holds_half t \<longleftrightarrow> t [] = Some Dir \<and> t [''data''] = Some Dir \<and> t [''data'', TreeDir] = Some Dir \<and>
     t [''data'', TreeDir, ''default''] = Some Dir \<and> t sample_conf = Some (Text ''rule'') \<and> t second_conf = None"

lemma cut_leaves_half: "holds_half (dk_tree cut_disk)"
  by (simp add: holds_half_def cut_disk_def run_cut)

lemma half_is_reloaded:
  "holds_half (dk_tree w) \<Longrightarrow>
     (case Apply_manifest pair_lib (\<lambda>_. None) [''data''] half_bad_manifest reg w of (e, reg', w') \<Rightarrow>
        e = Some (Rejected (EngineRefused ''default'' ''syntax'')) \<and> ry_current reg' = served ''rule'')"
  by (simp add: run_pair holds_half_def)

lemma half_is_started:
  "holds_half t \<Longrightarrow> \<exists>r. New_registry (pair_lib t) ''/p'' ''/data'' = Inr r \<and> ry_current r = served ''rule''"
  by (simp add: New_registry_def HasDefault_def Reload_def ReloadFrom_def pair_lib_build pair_engine holds_half_def)


end
