(* ===== verification/Startup.thy ===== *)
theory Startup
  imports Serving Config Desired_Apply
begin

text \<open>
  How the process is put together, \<^verbatim>\<open>cmd/modsec/main.go\<close>.  \<open>wire\<close> is \<^verbatim>\<open>run\<close> up to the point where
  messages arrive: from the configuration it makes the collaborators of the handler, its state, the pool and the
  subscriptions, and it stops at the first error.  \<open>beat\<close> is the heartbeat's message.  What the clients of
  the bus, of Redis and of the geo resolver answer is the record \<open>deps\<close>; calls whose error is only logged
  (the audit and log streams) are left out.
\<close>

section \<open>Options and stores\<close>

definition joined :: "string list \<Rightarrow> string" where
  "joined servers = fold (\<lambda>(i, s) out. (if i > 0 then out @ '','' else out) @ s) (enumerate 0 servers) ''''"

definition errText :: "string option \<Rightarrow> string" where
  "errText err = (case err of None \<Rightarrow> '''' | Some e \<Rightarrow> e)"

datatype start_error =
    BadConfig config_error | BadRules rules_error | BadStatusMap "string + status_error" | BadRanges range_error
  | BadStore string | NoBus string | NoGeo string | NoSubscription string

text \<open>The tags are a set; their order plays no part in \<open>Decisive_match\<close>.\<close>

definition verdictOptions :: "(string \<Rightarrow> read_error + bytes) \<Rightarrow> Config \<Rightarrow> start_error + Options" where
  "verdictOptions readFile cfg =
     and_then (map_sum BadStatusMap id (LoadStatusMap (readFile (cf_StatusMapPath cfg)))) (\<lambda>m.
     and_then (map_sum BadRanges id (ParseRanges (cf_DenyRuleIDs cfg))) (\<lambda>ranges.
       Inr \<lparr>op_StatusMap = Some (case m of None \<Rightarrow> BuiltinStatusMap | Some found \<Rightarrow> found),
            op_Decisive = \<lparr>dc_Ranges = ranges, dc_Tags = cf_DenyTags cfg\<rparr>, op_ScalePercent = 0\<rparr>))"

text \<open>\<open>newStore\<close> is the client for a URL with the result of its first ping.\<close>

definition bodyLoader :: "(string \<Rightarrow> string + redis_client \<times> string option) \<Rightarrow> crypto_lib \<Rightarrow> Config \<Rightarrow> start_error + Loader" where
  "bodyLoader newStore crypto cfg =
     (if cf_RedisURL cfg = '''' then Inr \<lparr>ld_store = None, ld_keys = None, ld_crypto = crypto\<rparr>
      else (case newStore (cf_RedisURL cfg) of
        Inl e \<Rightarrow> Inl (BadStore e)
      | Inr (_, Some e) \<Rightarrow> Inl (BadStore e)
      | Inr (client, None) \<Rightarrow> Inr \<lparr>ld_store = Some (RedisStore client), ld_keys = None, ld_crypto = crypto\<rparr>))"

section \<open>Wiring\<close>

record 's deps =
  de_rules :: "'s Engine rules_lib"
  de_ReadFile :: "string \<Rightarrow> read_error + bytes"
  de_NewStore :: "string \<Rightarrow> string + redis_client \<times> string option"
  de_crypto :: crypto_lib
  de_Connect :: "string \<Rightarrow> string option"
  de_Geo :: "string \<Rightarrow> duration \<Rightarrow> int \<Rightarrow> string + (string \<Rightarrow> string \<Rightarrow> string + string list)"
  de_NoGeo :: "string \<Rightarrow> string \<Rightarrow> string + string list"
  de_networked :: "string \<Rightarrow> bool"
  de_nuid :: string
  de_Subscribe :: "string \<Rightarrow> string option"
  de_SetLimits :: "int \<Rightarrow> string option"
  de_OpenBlobs :: "string \<Rightarrow> string option"
  de_jetstream :: jetstream
  de_unmarshal :: "bytes \<Rightarrow> string + Request"
  de_pairs :: "bytes \<Rightarrow> string + Header list"
  de_marshal :: "Reply \<Rightarrow> string + bytes"
  de_event :: "Event \<Rightarrow> string + bytes"

record 's process =
  pr_env :: henv
  pr_state :: "'s hstate"
  pr_pool :: Pool
  pr_workers :: int
  pr_limit :: int
  pr_subs :: "(string \<times> string option) list"
  pr_applied :: "Applied option"

definition failing :: "string option \<Rightarrow> (string \<Rightarrow> start_error) \<Rightarrow> start_error + unit" where
  "failing e f = (case e of None \<Rightarrow> Inr () | Some msg \<Rightarrow> Inl (f msg))"

definition geo_writer :: "'s deps \<Rightarrow> Config \<Rightarrow> start_error + (string \<Rightarrow> string \<Rightarrow> string + string list)" where
  "geo_writer de cfg = (if cf_GeoAddr cfg \<noteq> '''' then map_sum NoGeo id (de_Geo de (cf_GeoAddr cfg) (cf_GeoTimeout cfg) (cf_GeoNegMax cfg)) else Inr (de_NoGeo de))"

definition resume_inbox :: "'s deps \<Rightarrow> Config \<Rightarrow> string" where
  "resume_inbox de cfg = (if cf_ResumeMax cfg > 0 then cf_Subject cfg @ ''.i.'' @ de_nuid de else '''')"

definition new_env :: "'s deps \<Rightarrow> Config \<Rightarrow> Options \<Rightarrow> Loader \<Rightarrow> (string \<Rightarrow> string \<Rightarrow> string + string list) \<Rightarrow> henv" where
  "new_env de cfg opts loader geo =
     \<lparr>he_Name = cf_Name cfg, he_Versions = cf_Versions cfg, he_inbox = resume_inbox de cfg, he_opts = opts, he_loader = loader,
      he_lists = True, he_networked = de_networked de, he_geo = geo, he_unmarshal = de_unmarshal de, he_pairs = de_pairs de,
      he_marshal = de_marshal de, he_event = de_event de\<rparr>"

text \<open>The subscriptions, each with its queue group if it has one.\<close>

definition subscribe :: "'s deps \<Rightarrow> Config \<Rightarrow> string \<Rightarrow> start_error + (string \<times> string option) list" where
  "subscribe de cfg inbox =
     and_then (failing (de_Subscribe de (cf_Subject cfg)) NoSubscription) (\<lambda>_.
     and_then (failing (de_SetLimits de (i64 (i64 (cf_QueueDepth cfg + cf_Workers cfg) + 2))) NoSubscription) (\<lambda>_.
       if inbox = '''' then Inr [(cf_Subject cfg, Some (cf_Queue cfg))]
       else
        and_then (failing (de_Subscribe de inbox) NoSubscription) (\<lambda>_.
        and_then (failing (de_Subscribe de (cf_Subject cfg @ ''.release'')) NoSubscription) (\<lambda>_.
          Inr [(cf_Subject cfg, Some (cf_Queue cfg)), (inbox, None), (cf_Subject cfg @ ''.release'', None)]))))"

text \<open>The watch is optional: its errors are only logged, and the heartbeat then has no applied state to report.\<close>

definition watching :: "'s deps \<Rightarrow> Config \<Rightarrow> Applied option" where
  "watching de cfg =
     (if cf_InternalURL cfg = '''' then None
      else (case de_OpenBlobs de (cf_InternalURL cfg) of
        Some _ \<Rightarrow> None
      | None \<Rightarrow> (case Watch (de_jetstream de) of Inl _ \<Rightarrow> None | Inr a \<Rightarrow> Some a)))"

definition wire :: "sys \<Rightarrow> 's deps \<Rightarrow> start_error + Config \<times> 's process" where
  "wire s de =
     and_then (map_sum BadConfig id (Load_config s)) (\<lambda>cfg.
     and_then (map_sum BadRules id (New_registry (de_rules de) (cf_ProfilesDir cfg) (cf_DataDir cfg))) (\<lambda>registry.
     and_then (verdictOptions (de_ReadFile de) cfg) (\<lambda>opts.
     and_then (bodyLoader (de_NewStore de) (de_crypto de) cfg) (\<lambda>loader.
     and_then (failing (de_Connect de (joined (cf_Servers cfg))) NoBus) (\<lambda>_.
     and_then (geo_writer de cfg) (\<lambda>geo.
     let env = new_env de cfg opts loader geo;
         pool = New_pool (cf_QueueDepth cfg) (cf_ReserveMS cfg) (cf_MinBudgetMS cfg) (cf_QueueFull cfg) in
     and_then (subscribe de cfg (he_inbox env)) (\<lambda>subs.
       Inr (cfg, \<lparr>pr_env = env, pr_state = fresh_state registry (cf_ResumeMax cfg) (cf_ResumeTTL cfg) (NewSink True), pr_pool = pool,
                  pr_workers = cf_Workers cfg, pr_limit = i64 (i64 (cf_QueueDepth cfg + cf_Workers cfg) + 2),
                  pr_subs = subs, pr_applied = watching de cfg\<rparr>))))))))"

section \<open>The heartbeat\<close>

record Work =
  wk_Workers :: int
  wk_QueueDepth :: int
  wk_Queued :: nat
  wk_Accepted :: u64
  wk_Shed :: u64
  wk_Expired :: u64

record Beat =
  bt_Work :: Work
  bt_Version :: string
  bt_Revision :: string
  bt_ConfigHash :: string
  bt_Rev :: int
  bt_Apply :: string
  bt_Profiles :: "string list"

definition beat :: "string \<Rightarrow> string \<Rightarrow> Config \<Rightarrow> Pool \<Rightarrow> Applied option \<Rightarrow> Beat" where
  "beat version revision cfg pool applied =
     (let work = \<lparr>wk_Workers = cf_Workers cfg, wk_QueueDepth = cf_QueueDepth cfg, wk_Queued = length (pl_q pool),
            wk_Accepted = pl_Accepted pool, wk_Shed = pl_Shed pool, wk_Expired = pl_Expired pool\<rparr>;
          msg = \<lparr>bt_Work = work, bt_Version = version, bt_Revision = revision, bt_ConfigHash = '''', bt_Rev = 0, bt_Apply = '''', bt_Profiles = []\<rparr>
      in case applied of
           None \<Rightarrow> msg
         | Some a \<Rightarrow> (case Snapshot a of (hash, rv, apply', names) \<Rightarrow>
             msg\<lparr>bt_ConfigHash := hash, bt_Rev := rv, bt_Apply := apply', bt_Profiles := names\<rparr>))"

text \<open>The goroutine beats once at the start and at every tick until it is told to end; each beat reads the pool and
  the applied state as they are then.\<close>

datatype beat_event = BeatTick Pool "Applied option" | BeatDone

fun beat_loop :: "string \<Rightarrow> string \<Rightarrow> Config \<Rightarrow> beat_event list \<Rightarrow> Beat list" where
  "beat_loop version revision cfg [] = []"
| "beat_loop version revision cfg (BeatDone # events) = []"
| "beat_loop version revision cfg (BeatTick pool applied # events) =
     beat version revision cfg pool applied # beat_loop version revision cfg events"

definition startHeartbeat :: "string \<Rightarrow> string \<Rightarrow> Config \<Rightarrow> Pool \<Rightarrow> Applied option \<Rightarrow> beat_event list \<Rightarrow> Beat list" where
  "startHeartbeat version revision cfg pool applied events =
     beat version revision cfg pool applied # beat_loop version revision cfg events"

section \<open>Loading without keys\<close>

text \<open>The process has no source of keys, so an encrypted object is never opened and its nonce never looked at.\<close>

lemma finish_without_keys: "ld_keys l = None \<Longrightarrow> finish l loc raw \<noteq> None"
  by (auto simp: finish_def decrypt_def split: option.splits)

lemma Load_without_keys: "ld_keys l = None \<Longrightarrow> Load l loc \<noteq> None"
  using finish_without_keys by (auto simp: Load_def split: option.splits sum.splits store_error.splits)

lemma fill_slots_all:
  assumes "\<forall>x \<in> set out. P x" "\<And>n i. P (f n i)"
  shows "\<forall>x \<in> set (fill_slots f slots out). P x"
proof -
  have "\<forall>x \<in> set (fold (\<lambda>(n, i) out. out[i := f n i]) ps out). P x" for ps
    using assms(1)
  proof (induction ps arbitrary: out)
    case (Cons p ps)
    have "\<forall>x \<in> set (out[snd p := f (fst p) (snd p)]). P x"
      using Cons(2) assms(2) set_update_subset_insert [of out "snd p" "f (fst p) (snd p)"] by auto
    then show ?case using Cons(1) by (simp add: case_prod_beta)
  qed simp
  then show ?thesis by (simp add: fill_slots_def)
qed

lemma scan_locators_all:
  assumes "ld_keys l = None"
  shows "\<forall>x \<in> set (sn_out (scan_locators l locs)). x \<noteq> None"
proof -
  have all: "\<forall>x \<in> set (sn_out (fold (scan_locator l) ps s)). x \<noteq> None" if "\<forall>x \<in> set (sn_out s). x \<noteq> None" for ps s
    using that
  proof (induction ps arbitrary: s)
    case (Cons p ps)
    have "\<forall>x \<in> set (sn_out (scan_locator l p s)). x \<noteq> None"
      using Cons(2) Load_without_keys [OF assms] set_update_subset_insert [of "sn_out s" "fst p" "Load l (snd p)"]
      by (auto simp: scan_locator_def Let_def split: prod.splits option.splits)
    then show ?case using Cons(1) by simp
  qed simp
  show ?thesis unfolding scan_locators_def by (rule all) simp
qed

lemma those_all: "(\<forall>x \<in> set xs. x \<noteq> None) \<Longrightarrow> those xs \<noteq> None"
  by (induction xs) (auto split: option.splits)

lemma LoadMany_without_keys:
  assumes "ld_keys l = None"
  shows "LoadMany l locs \<noteq> None"
proof -
  note out = scan_locators_all [OF assms, of locs]
  have filled: "those (fill_slots f slots (sn_out (scan_locators l locs))) \<noteq> None" if "\<And>n i. f n i \<noteq> None" for f slots
    by (rule those_all, rule fill_slots_all [OF out]) (rule that)
  have raw: "(case v of None \<Rightarrow> Some (unavailable_body unavailableStoreError) | Some raw \<Rightarrow> finish l loc raw) \<noteq> None" for v loc
    using finish_without_keys [OF assms] by (cases v) simp_all
  show ?thesis
  proof (cases "Option.bind (ld_store l) bs_GetMany")
    case None
    then show ?thesis using those_all [of "map (Load l) locs"] Load_without_keys [OF assms] by (auto simp: LoadMany_def)
  next
    case (Some getMany)
    show ?thesis
      by (cases "getMany (sn_driver (scan_locators l locs)) (sn_store (scan_locators l locs)) (sn_keys (scan_locators l locs))")
        (simp_all add: LoadMany_def Some Let_def filled raw Load_without_keys [OF assms] split: store_error.split del: not_None_eq)
  qed
qed

section \<open>What the wired process is\<close>

lemma joined_from: "fold (\<lambda>(i, s) out. (if i > 0 then out @ '','' else out) @ s) (enumerate (Suc k) servers) out =
    out @ concat (map (\<lambda>s. CHR '','' # s) servers)"
  by (induction servers arbitrary: k out) simp_all

lemma joined_split:
  assumes "servers \<noteq> []" "\<forall>s \<in> set servers. CHR '','' \<notin> set s"
  shows "Split (joined servers) (CHR '','') = servers"
proof -
  have "Split (s @ concat (map (\<lambda>s. CHR '','' # s) ss)) (CHR '','') = s # ss" if "CHR '','' \<notin> set s" "\<forall>s \<in> set ss. CHR '','' \<notin> set s" for s ss
    using that by (induction ss arbitrary: s) (simp_all add: Split_no_sep Split_append)
  then show ?thesis using assms joined_from [of 0] by (cases servers) (simp_all add: joined_def)
qed

lemma wire_parts:
  assumes "wire s de = Inr (cfg, p)"
  obtains registry opts loader geo where "Load_config s = Inr cfg"
    "New_registry (de_rules de) (cf_ProfilesDir cfg) (cf_DataDir cfg) = Inr registry"
    "verdictOptions (de_ReadFile de) cfg = Inr opts" "bodyLoader (de_NewStore de) (de_crypto de) cfg = Inr loader"
    "geo_writer de cfg = Inr geo" "pr_env p = new_env de cfg opts loader geo"
    "subscribe de cfg (resume_inbox de cfg) = Inr (pr_subs p)"
    "pr_state p = fresh_state registry (cf_ResumeMax cfg) (cf_ResumeTTL cfg) (NewSink True)"
    "pr_pool p = New_pool (cf_QueueDepth cfg) (cf_ReserveMS cfg) (cf_MinBudgetMS cfg) (cf_QueueFull cfg)"
    "pr_workers p = cf_Workers cfg"
  using assms unfolding wire_def Let_def and_then_Inr
  by (elim exE conjE) (auto simp: new_env_def map_sum_def split: sum.splits)

lemma bodyLoader_keys: "bodyLoader newStore crypto cfg = Inr l \<Longrightarrow> ld_keys l = None"
  by (auto simp: bodyLoader_def split: if_splits sum.splits prod.splits option.splits)

lemma subscribe_subs:
  "subscribe de cfg inbox = Inr subs \<Longrightarrow> subs = (cf_Subject cfg, Some (cf_Queue cfg)) #
    (if inbox = '''' then [] else [(inbox, None), (cf_Subject cfg @ ''.release'', None)])"
  by (auto simp: subscribe_def and_then_Inr split: if_splits)


lemma respond_total:
  "(\<And>locs. LoadMany (he_loader he) locs \<noteq> None) \<Longrightarrow> fst (respond he ck req personal ask' sel source st) \<noteq> None"
  by (simp add: respond_def Let_def case_prod_beta split: option.split sum.split)

lemma inspect_total:
  assumes "\<And>locs. LoadMany (he_loader he) locs \<noteq> None"
  shows "fst (inspect he ck t st) \<noteq> None"
proof -
  have "fst (inspectResponse he ck req personal st) \<noteq> None" for req personal
    by (simp add: respond_total [OF assms] inspectResponse_def Let_def case_prod_beta split: option.split del: not_None_eq)
  moreover have "fst (inspectFrame he ck req st) \<noteq> None" for req
    by (simp add: assms inspectFrame_def Let_def case_prod_beta split: option.split sum.split del: not_None_eq)
  moreover have "fst (inspect_request he ck t st) \<noteq> None"
    by (simp add: assms inspect_request_def Let_def case_prod_beta split: option.split del: not_None_eq)
  ultimately show ?thesis by (simp add: inspect_def)
qed

lemma Load_config_ok:
  assumes "Load_config s = Inr c"
  shows "cf_Servers c \<noteq> [] \<and> (\<forall>p \<in> set (cf_Servers c). CHR '','' \<notin> set p) \<and> 1 \<le> cf_Workers c \<and> 1 \<le> cf_QueueDepth c \<and>
    (cf_ResumeMax c > 0 \<longrightarrow> 0 < cf_ResumeTTL c)"
proof -
  obtain c0 where v: "validate_config s c0 = Inr c" and srv: "cf_Servers c0 = splitList (env s ''NATS_URL'' ''nats://127.0.0.1:4222'')"
    using Load_config_parts [OF assms] by (elim exE conjE) auto
  have "cf_Servers c = cf_Servers c0" using validate_config_ok(2) [OF v] by auto
  then show ?thesis using validate_config_ok(1) [OF v] srv splitList_items by auto
qed

section \<open>Properties of the process\<close>

text \<open>
  C22: a process that starts is put together consistently: the bus gets back the configured servers, the
  registry serves a default profile, transactions are kept exactly when there is an inbox to resume them on, for a
  positive time and up to a positive number, the subject is shared with the group while the inbox and the
  releases are not, and the pool has workers and the configured depth.
\<close>

theorem wired_process_is_consistent:
  assumes "wire s de = Inr (cfg, p)"
  shows "Split (joined (cf_Servers cfg)) (CHR '','') = cf_Servers cfg \<and>
    fst (fst (Select [] (hs_registry (pr_state p)))) \<noteq> None \<and>
    (case hs_sticky (pr_state p) of
       None \<Rightarrow> he_inbox (pr_env p) = [] \<and> pr_subs p = [(cf_Subject cfg, Some (cf_Queue cfg))]
     | Some sk \<Rightarrow> he_inbox (pr_env p) \<noteq> [] \<and> 0 < rg_max sk \<and> 0 < rg_ttl sk \<and>
         pr_subs p = [(cf_Subject cfg, Some (cf_Queue cfg)), (he_inbox (pr_env p), None), (cf_Subject cfg @ ''.release'', None)]) \<and>
    1 \<le> pr_workers p \<and> pl_depth (pr_pool p) = cf_QueueDepth cfg \<and> pl_q (pr_pool p) = []"
proof -
  obtain registry opts loader geo where w: "Load_config s = Inr cfg"
    "New_registry (de_rules de) (cf_ProfilesDir cfg) (cf_DataDir cfg) = Inr registry"
    "pr_env p = new_env de cfg opts loader geo" "subscribe de cfg (resume_inbox de cfg) = Inr (pr_subs p)"
    "pr_state p = fresh_state registry (cf_ResumeMax cfg) (cf_ResumeTTL cfg) (NewSink True)"
    "pr_pool p = New_pool (cf_QueueDepth cfg) (cf_ReserveMS cfg) (cf_MinBudgetMS cfg) (cf_QueueFull cfg)"
    "pr_workers p = cf_Workers cfg"
    by (rule wire_parts [OF assms])
  note ok = Load_config_ok [OF w(1)]
  have "map_of (ry_current registry) DefaultProfile \<noteq> None"
    using registry_run_ok [OF registry_run.start [OF w(2)]] unfolding set_ok_def by blast
  then have "fst (fst (Select [] registry)) \<noteq> None" by (auto simp: Select_def selectFrom_def profile_name_def)
  moreover have "Split (joined (cf_Servers cfg)) (CHR '','') = cf_Servers cfg" using joined_split ok by blast
  ultimately show ?thesis
    using ok subscribe_subs [OF w(4)] w(3,5-7)
    by (auto simp: fresh_state_def New_sticky_def new_env_def resume_inbox_def max_def)
qed

text \<open>The process is started without a source of keys, so its loader does not come to the panic on a
  nonce: loading a message's objects returns, for encrypted ones with an unavailable body.\<close>

lemma wired_loader_returns:
  assumes "wire s de = Inr (cfg, p)"
  shows "LoadMany (he_loader (pr_env p)) locs \<noteq> None \<and> fst (inspect (pr_env p) ck t st) \<noteq> None"
proof -
  obtain opts loader geo where w: "bodyLoader (de_NewStore de) (de_crypto de) cfg = Inr loader" "pr_env p = new_env de cfg opts loader geo"
    by (rule wire_parts [OF assms])
  then have "LoadMany (he_loader (pr_env p)) ls \<noteq> None" for ls
    using LoadMany_without_keys bodyLoader_keys [OF w(1)] by (simp add: new_env_def)
  then show ?thesis using inspect_total by blast
qed


section \<open>A process\<close>

definition engine_lib :: "(unit \<times> tx_call list) Engine rules_lib" where
  "engine_lib = \<lparr>rl_join = (\<lambda>a b. a @ ''/'' @ b), rl_ReadDir = (\<lambda>_. Inr [(''default'', True)]), rl_Glob = (\<lambda>p. Inr [p]),
     rl_NewEngine = (\<lambda>_. Inr calm_engine), rl_RuleCount = (\<lambda>_. 1), rl_ReadFile = (\<lambda>_. Inl NotExist), rl_Unmarshal = (\<lambda>_. Inl ''none'')\<rparr>"

definition sample_deps :: "(unit \<times> tx_call list) deps" where
  "sample_deps = \<lparr>de_rules = engine_lib, de_ReadFile = (\<lambda>_. Inl Missing),
     de_NewStore = (\<lambda>_. Inr (\<lparr>rc_Get = (\<lambda>_. Inl ''nil''), rc_MGet = (\<lambda>ks. Inr (map (\<lambda>_. Body_Store.RNil) ks))\<rparr>, None)),
     de_crypto = \<lparr>cl_SHA256 = (\<lambda>b. b), cl_Base64 = Some, cl_Open = (\<lambda>_ _ b. Some b)\<rparr>,
     de_Connect = (\<lambda>_. None), de_Geo = (\<lambda>_ _ _. Inr (\<lambda>_ a. Inr [a])), de_NoGeo = (\<lambda>_ _. Inl ''none''), de_networked = (\<lambda>_. False),
     de_nuid = ''1'', de_Subscribe = (\<lambda>_. None), de_SetLimits = (\<lambda>_. None), de_OpenBlobs = (\<lambda>_. None), de_jetstream = \<lparr>js_New = None, js_KeyValue = (\<lambda>_ _. None), js_Watch = (\<lambda>_. None)\<rparr>,
     de_unmarshal = (\<lambda>_. Inr sample_request), de_pairs = (\<lambda>_. Inr []), de_marshal = (\<lambda>r. Inr (rp_RID r)), de_event = (\<lambda>_. Inr [])\<rparr>"

lemma engine_lib_registry: "\<exists>r. New_registry engine_lib profilesDir dataDir = Inr r"
  by (simp add: New_registry_def Reload_def ReloadFrom_def build_def buildTree_def build_profile_def engine_lib_def LoadDir_def loadFile_def)

lemma sample_wired: "\<exists>cfg p. wire sample_sys sample_deps = Inr (cfg, p) \<and> encodes (pr_env p) \<and> pr_workers p = 4"
proof -
  obtain c where c: "Load_config sample_sys = Inr c" "cf_DenyRuleIDs c = []" "cf_Workers c = 4" using sample_config by blast
  obtain r where r: "New_registry engine_lib (cf_ProfilesDir c) (cf_DataDir c) = Inr r" using engine_lib_registry by blast
  obtain opts where o: "verdictOptions (de_ReadFile sample_deps) c = Inr opts"
    using c(2) by (simp add: verdictOptions_def LoadStatusMap_def ParseRanges_def sample_deps_def)
  have "\<exists>l. bodyLoader (de_NewStore sample_deps) (de_crypto sample_deps) c = Inr l" "\<exists>g. geo_writer sample_deps c = Inr g"
    by (simp_all add: bodyLoader_def geo_writer_def sample_deps_def)
  then obtain l g where l: "bodyLoader (de_NewStore sample_deps) (de_crypto sample_deps) c = Inr l" and g: "geo_writer sample_deps c = Inr g" by blast
  have d: "de_rules sample_deps = engine_lib" "failing (de_Connect sample_deps u) NoBus = Inr ()" for u
    by (simp_all add: sample_deps_def failing_def)
  show ?thesis
    by (simp add: wire_def c r o l g d Let_def) (simp add: encodes_def new_env_def sample_deps_def subscribe_def failing_def)
qed

theorem wired_process_is_consistent_witness:
  "\<exists>cfg p. wire sample_sys sample_deps = Inr (cfg, p) \<and> fst (fst (Select [] (hs_registry (pr_state p)))) \<noteq> None \<and> 1 \<le> pr_workers p"
  using sample_wired wired_process_is_consistent [of sample_sys sample_deps] by blast


section \<open>The pool and the handler together\<close>

text \<open>The pool gives its tasks to \<open>evaluate\<close>; \<open>handle_calls\<close> makes the calls of a run in the order of its log, each
  with its clock.\<close>

definition handle_calls :: "henv \<Rightarrow> clock list \<Rightarrow> handler_call list \<Rightarrow> 's hstate \<Rightarrow> 's hstate" where
  "handle_calls he cks calls st = fold (\<lambda>(ck, t, left, shed) st. evaluate he ck t left shed st) (zip cks calls) st"

lemma handle_calls_answer:
  assumes "encodes he"
  shows "length cks = length calls \<Longrightarrow> (\<forall>c \<in> set calls. tk_Reply (fst c) \<noteq> '''') \<Longrightarrow>
    \<exists>out. hs_out (handle_calls he cks calls st) = hs_out st @ out \<and> map fst out = map (tk_Reply \<circ> fst) calls"
proof (induction cks calls arbitrary: st rule: list_induct2)
  case Nil
  then show ?case by (simp add: handle_calls_def)
next
  case (Cons ck cks c calls)
  obtain t left shed where c: "c = (t, left, shed)" by (cases c) blast
  let ?st = "evaluate he ck t left shed st"
  obtain payload where e: "hs_out ?st = hs_out st @ [(tk_Reply t, payload)]"
    using evaluate_answers [OF assms, of t ck left shed st] Cons(3) c by auto
  obtain out where o: "hs_out (handle_calls he cks calls ?st) = hs_out ?st @ out" "map fst out = map (tk_Reply \<circ> fst) calls"
    using Cons(2) [of ?st] Cons(3) by auto
  then have "hs_out (handle_calls he (ck # cks) (c # calls) st) = hs_out st @ (tk_Reply t, payload) # out"
    using e by (simp add: handle_calls_def c)
  then show ?case using o(2) c by (intro exI [of _ "(tk_Reply t, payload) # out"]) simp
qed

lemma erase_reply [simp]: "tk_Reply (erase t) = tk_Reply t" by (simp add: erase_def)

lemma handled_replies:
  assumes "image_mset erase (mset (map fst calls)) = sub"
  shows "image_mset tk_Reply sub = mset (map (tk_Reply \<circ> fst) calls)"
  by (simp add: assms [symmetric] image_mset.compositionality comp_def)


lemma wired_start:
  assumes "wire s de = Inr (cfg, p)"
  shows "pl_q (pr_pool p) = []" "0 < nat (pr_workers p)" "hs_out (pr_state p) = []"
proof -
  obtain registry where w: "Load_config s = Inr cfg"
    "pr_state p = fresh_state registry (cf_ResumeMax cfg) (cf_ResumeTTL cfg) (NewSink True)"
    "pr_pool p = New_pool (cf_QueueDepth cfg) (cf_ReserveMS cfg) (cf_MinBudgetMS cfg) (cf_QueueFull cfg)"
    "pr_workers p = cf_Workers cfg"
    by (rule wire_parts [OF assms])
  then show "pl_q (pr_pool p) = []" "0 < nat (pr_workers p)" "hs_out (pr_state p) = []"
    using Load_config_ok [OF w(1)] by (simp_all add: fresh_state_def)
qed

end
