(* ===== verification/Service.thy ===== *)
theory Service
  imports Startup Mailbox
begin

text \<open>
  What the process promises as a whole.  \<open>service_step\<close> is its contract on the bus: what was asked is answered once.
  The process is \<open>node_step\<close>: the pool of \<open>Queue\<close>, the handlers of \<open>Handler\<close> and the audit sink of
  \<open>Audit_Log\<close> interleaved, from the wiring of \<open>Startup\<close> to the shutdown at the end of \<^verbatim>\<open>run\<close> in
  \<^verbatim>\<open>cmd/modsec/main.go\<close>.  A call of the handler and the receiving of a message are one step each.
\<close>

section \<open>The service\<close>

text \<open>
  The process as its callers see it: reply subjects with a question open, every question asked, and the
  subjects of the answers in the order they were sent.
\<close>

record service =
  sv_open :: "string multiset"
  sv_asked :: "string multiset"
  sv_sent :: "string list"

inductive service_step :: "service \<Rightarrow> service \<Rightarrow> bool" where
  asks: "service_step v (v\<lparr>sv_open := add_mset s (sv_open v), sv_asked := add_mset s (sv_asked v)\<rparr>)"
| answers: "sv_open v = add_mset s rest \<Longrightarrow> service_step v (v\<lparr>sv_open := rest, sv_sent := sv_sent v @ [s]\<rparr>)"

definition idle_service :: service where
  "idle_service = \<lparr>sv_open = {#}, sv_asked = {#}, sv_sent = []\<rparr>"

lemma service_conserves:
  "service_step v v' \<Longrightarrow> sv_asked v = sv_open v + mset (sv_sent v) \<Longrightarrow> sv_asked v' = sv_open v' + mset (sv_sent v')"
  by (cases rule: service_step.cases) auto

section \<open>The events of an answer\<close>

text \<open>The items \<open>send\<close> adds to the sink, and those of a message that is received or evaluated.\<close>

definition audit_items :: "henv \<Rightarrow> clock \<Rightarrow> Request option \<Rightarrow> Reply \<Rightarrow> Details \<Rightarrow> item list" where
  "audit_items he ck req reply det = (case req of None \<Rightarrow> [] | Some rq \<Rightarrow>
     (case req_AuditSubject rq of None \<Rightarrow> [] | Some subject \<Rightarrow>
        if subject = '''' then []
        else (case he_event he (Build (ck_ts ck) req (Some reply) det) of Inl _ \<Rightarrow> [] | Inr b \<Rightarrow> [\<lparr>it_subject = subject, it_body = b\<rparr>])))"

definition send_items_of :: "henv \<Rightarrow> clock \<Rightarrow> string \<Rightarrow> Reply \<Rightarrow> Request option \<Rightarrow> Details \<Rightarrow> item list" where
  "send_items_of he ck subject reply req det =
     (if subject = '''' then []
      else (case Marshal (he_marshal he) reply of
        Inr _ \<Rightarrow> audit_items he ck req reply det
      | Inl _ \<Rightarrow> (case Marshal (he_marshal he) (FallbackReply (rp_RID reply) (rp_Inspector reply) codeInternalError) of
          Inr _ \<Rightarrow> audit_items he ck req reply det | Inl _ \<Rightarrow> [])))"

lemma Add_sink: "sk_nc s \<Longrightarrow> snd (Add (he_event he) (ck_ts ck) req (Some reply) det s) = fold Add_item (audit_items he ck req reply det) s"
  by (auto simp: Add_def audit_items_def split: option.splits sum.splits)

lemma send_sink:
  "sk_nc (hs_sink st) \<Longrightarrow> hs_sink (send he ck subject reply req det st) = fold Add_item (send_items_of he ck subject reply req det) (hs_sink st)"
  by (auto simp: send_def send_items_of_def Let_def Add_sink split: sum.splits option.splits)

definition evaluate_items :: "henv \<Rightarrow> clock \<Rightarrow> Task \<Rightarrow> duration \<Rightarrow> string \<Rightarrow> 's hstate \<Rightarrow> item list" where
  "evaluate_items he ck t left shed st =
     (if shed \<noteq> '''' then (case evaluate_shed he t left shed st of
         (reply, det, st') \<Rightarrow> send_items_of he ck (tk_Reply t) reply (Some (tk_Req t)) det)
      else (case fst (inspect he ck t st) of
         Some (reply, det) \<Rightarrow> send_items_of he ck (tk_Reply t) reply (Some (tk_Req t)) det
       | None \<Rightarrow> []))"

definition receive_items :: "henv \<Rightarrow> clock \<Rightarrow> nats_msg \<Rightarrow> item list" where
  "receive_items he ck msg = (case Parse (he_unmarshal he) (nm_Data msg) of
     Inl _ \<Rightarrow> []
   | Inr req \<Rightarrow>
       if \<not> Supports he (req_V req)
       then send_items_of he ck (nm_Reply msg) ((ErrorReply req codeUnsupportedVersion)\<lparr>rp_V := Protocol.Version\<rparr>) (Some req) no_details
       else [])"

lemma no_request_items [simp]: "audit_items he ck None reply det = []" "send_items_of he ck subject reply None det = []"
  by (simp_all add: audit_items_def send_items_of_def split: sum.split)

lemma evaluate_sink:
  assumes "sk_nc (hs_sink st)"
  shows "hs_sink (evaluate he ck t left shed st) = fold Add_item (evaluate_items he ck t left shed st) (hs_sink st)"
proof (cases "shed = ''''")
  case False
  obtain reply det st1 where e: "evaluate_shed he t left shed st = (reply, det, st1)" by (metis surj_pair)
  then show ?thesis using evaluate_shed_quiet [OF e] assms False
    by (simp add: evaluate_def evaluate_items_def quiet_def send_sink)
next
  case True
  obtain res st1 where i: "inspect he ck t st = (res, st1)" by fastforce
  then show ?thesis using inspect_quiet [OF i] assms True
    by (auto simp: evaluate_def evaluate_items_def recoverInto_def quiet_def send_sink split: option.split)
qed

lemma evaluate_sends:
  assumes "encodes he"
  shows "map fst (hs_out (evaluate he ck t left shed st)) = map fst (hs_out st) @ (if tk_Reply t = '''' then [] else [tk_Reply t])"
proof (cases "tk_Reply t = ''''")
  case False
  then show ?thesis using evaluate_answers [OF assms False, of ck left shed st] by auto
next
  case True
  obtain reply det st1 where e: "evaluate_shed he t left shed st = (reply, det, st1)" by (metis surj_pair)
  obtain res st2 where i: "inspect he ck t st = (res, st2)" by fastforce
  have "hs_out (evaluate he ck t left shed st) = hs_out st"
    using evaluate_shed_quiet [OF e] inspect_quiet [OF i] True
    by (auto simp: evaluate_def e i send_def recoverInto_def quiet_def split: option.split)
  then show ?thesis using True by simp
qed

text \<open>What a message on the bus asks for: a release asks for nothing, and neither does a message without a reply subject.\<close>

definition released :: "henv \<Rightarrow> nats_msg \<Rightarrow> bool" where
  "released he msg \<longleftrightarrow> (case Parse (he_unmarshal he) (nm_Data msg) of Inl _ \<Rightarrow> False
     | Inr req \<Rightarrow> Supports he (req_V req) \<and> req_Release req \<noteq> None)"

definition questions :: "string multiset \<Rightarrow> string multiset" where
  "questions ss = filter_mset (\<lambda>s. s \<noteq> '''') ss"

definition asked_by :: "henv \<Rightarrow> nats_msg \<Rightarrow> string multiset" where
  "asked_by he msg = (if released he msg then {#} else questions {#nm_Reply msg#})"

definition received_tasks :: "'s hstate \<Rightarrow> 's hstate \<Rightarrow> Task list" where
  "received_tasks st st' = drop (length (hs_tasks st)) (hs_tasks st')"

lemma send_out_fst:
  "encodes he \<Longrightarrow> map fst (hs_out (send he ck subject reply req det st)) = map fst (hs_out st) @ (if subject = '''' then [] else [subject])"
  using send_out [where env = he and ck = ck and subject = subject and reply = reply and req = req and det = det and st = st] by fastforce

lemma receive_effect:
  assumes "encodes he"
  shows "\<exists>ts out. hs_tasks (receive he ck msg st) = hs_tasks st @ ts \<and> map fst (hs_out (receive he ck msg st)) = map fst (hs_out st) @ out \<and>
    asked_by he msg = questions (mset (map tk_Reply ts)) + mset out \<and> '''' \<notin> set out"
    and "sk_nc (hs_sink st) \<Longrightarrow> hs_sink (receive he ck msg st) = fold Add_item (receive_items he ck msg) (hs_sink st)"
proof -
  have rel: "hs_out (releaseState req st) = hs_out st \<and> hs_tasks (releaseState req st) = hs_tasks st \<and> hs_sink (releaseState req st) = hs_sink st" for req
    by (auto simp: releaseState_def end_tx_def split: option.splits prod.splits)
  have phase: "Parse (he_unmarshal he) (nm_Data msg) = Inr req \<Longrightarrow> supports_phase (req_Phase req)" for req
    using Parse_base by (fastforce simp: supports_phase_def)
  show "\<exists>ts out. hs_tasks (receive he ck msg st) = hs_tasks st @ ts \<and> map fst (hs_out (receive he ck msg st)) = map fst (hs_out st) @ out \<and>
    asked_by he msg = questions (mset (map tk_Reply ts)) + mset out \<and> '''' \<notin> set out"
  proof (cases "Parse (he_unmarshal he) (nm_Data msg)")
    case (Inl pe)
    then show ?thesis
      by (intro exI [of _ "[]"] exI [of _ "if nm_Reply msg = '''' then [] else [nm_Reply msg]"])
        (simp add: receive_def send_keeps send_out_fst [OF assms] asked_by_def released_def questions_def)
  next
    case (Inr req)
    show ?thesis
    proof (cases "Supports he (req_V req)")
      case False
      then show ?thesis using Inr
        by (intro exI [of _ "[]"] exI [of _ "if nm_Reply msg = '''' then [] else [nm_Reply msg]"])
          (simp add: receive_def send_keeps send_out_fst [OF assms] asked_by_def released_def questions_def)
    next
      case True
      then show ?thesis using Inr rel phase
        by (intro exI [of _ "drop (length (hs_tasks st)) (hs_tasks (receive he ck msg st))"] exI [of _ "[]"])
          (auto simp: receive_def asked_by_def released_def questions_def)
    qed
  qed
  show "hs_sink (receive he ck msg st) = fold Add_item (receive_items he ck msg) (hs_sink st)" if "sk_nc (hs_sink st)"
    using that rel phase by (auto simp: receive_def receive_items_def send_sink split: sum.split)
qed

section \<open>The process\<close>

text \<open>\<open>nd_loop\<close> is where the goroutine of the sink is; \<open>nd_asked\<close> and \<open>nd_events\<close> record what was asked and which events were added; \<open>nd_calls\<close> what the sink sent.\<close>

record 's proc =
  nd_world :: world
  nd_state :: "'s hstate"
  nd_loop :: loop_state
  nd_asked :: "string multiset"
  nd_events :: "item list"
  nd_calls :: "(string \<times> item list) list"

definition submit_all :: "Task list \<Rightarrow> world \<Rightarrow> world" where
  "submit_all ts w = fold (\<lambda>t w. let t' = t\<lparr>tk_enqueued := w_now w, tk_Fill := 0\<rparr>
     in w\<lparr>w_jobs := add_mset (Submitting t') (w_jobs w), w_submitted := add_mset t' (w_submitted w)\<rparr>) ts w"

text \<open>
  \<open>message\<close> is the callback of the subscriptions, \<open>silent\<close> and \<open>handler\<close> a step of the pool without and with a
  call of the handler, \<open>batch\<close>, \<open>wake\<close> and \<open>quit\<close> the sink's goroutine.  At shutdown \<open>close\<close> is what \<^verbatim>\<open>Close\<close> of the pool
  does before it waits for the workers, and \<open>stop\<close>, which comes when they are gone, what \<^verbatim>\<open>Close\<close> of the sink does before it
  waits for \<open>quit\<close>.  Draining a subscription does not wait, so messages come in at any time.
\<close>

inductive node_step :: "henv \<Rightarrow> nat \<Rightarrow> 's proc \<Rightarrow> 's proc \<Rightarrow> bool" for he workers where
  message: "receive he ck msg (nd_state nd) = st \<Longrightarrow>
    node_step he workers nd (nd\<lparr>nd_world := submit_all (received_tasks (nd_state nd) st) (nd_world nd), nd_state := st,
      nd_asked := nd_asked nd + asked_by he msg, nd_events := nd_events nd @ receive_items he ck msg\<rparr>)"
| silent: "pool_step (nd_world nd) w \<Longrightarrow> w_log w = w_log (nd_world nd) \<Longrightarrow> node_step he workers nd (nd\<lparr>nd_world := w\<rparr>)"
| handler: "pool_step (nd_world nd) w \<Longrightarrow> w_log w = w_log (nd_world nd) @ [(t, left, shed)] \<Longrightarrow>
    node_step he workers nd (nd\<lparr>nd_world := w, nd_state := evaluate he ck t left shed (nd_state nd),
      nd_events := nd_events nd @ evaluate_items he ck t left shed (nd_state nd)\<rparr>)"
| tick: "w_now (nd_world nd) \<le> now \<Longrightarrow> node_step he workers nd (nd\<lparr>nd_world := (nd_world nd)\<lparr>w_now := now\<rparr>\<rparr>)"
| sticky: "node_step he workers nd (nd\<lparr>nd_state := sticky_tick done' now (nd_state nd)\<rparr>)"
| rules: "node_step he workers nd (nd\<lparr>nd_state := (nd_state nd)\<lparr>hs_registry := reg\<rparr>\<rparr>)"
| batch: "nd_loop nd \<noteq> Ended \<Longrightarrow> take_batch (hs_sink (nd_state nd)) = Some (items, sink) \<Longrightarrow>
    node_step he workers nd (nd\<lparr>nd_state := (nd_state nd)\<lparr>hs_sink := sink\<rparr>, nd_calls := nd_calls nd @ publish items\<rparr>)"
| wake: "nd_loop nd = Looping \<Longrightarrow>
    node_step he workers nd (nd\<lparr>nd_state := (nd_state nd)\<lparr>hs_sink := (hs_sink (nd_state nd))\<lparr>sk_wake := False\<rparr>\<rparr>\<rparr>)"
| close: "node_step he workers nd (nd\<lparr>nd_world := (nd_world nd)\<lparr>w_pool := Close_pool (w_pool (nd_world nd))\<rparr>\<rparr>)"
| stop: "pl_closed (w_pool (nd_world nd)) \<Longrightarrow> w_gone (nd_world nd) = workers \<Longrightarrow>
    node_step he workers nd (nd\<lparr>nd_loop := Close_sink (nd_loop nd)\<rparr>)"
| quit: "nd_loop nd = Stopping \<Longrightarrow> take_batch (hs_sink (nd_state nd)) = None \<Longrightarrow>
    node_step he workers nd (nd\<lparr>nd_loop := Ended\<rparr>)"

definition New_node :: "Pool \<Rightarrow> nat \<Rightarrow> 's hstate \<Rightarrow> 's proc" where
  "New_node p workers st = \<lparr>nd_world = New_world p workers, nd_state = st, nd_loop = Looping,
     nd_asked = {#}, nd_events = [], nd_calls = []\<rparr>"

definition service_of :: "'s proc \<Rightarrow> service" where
  "service_of nd = \<lparr>sv_open = questions (image_mset tk_Reply (waiting (nd_world nd))), sv_asked = nd_asked nd,
     sv_sent = map fst (hs_out (nd_state nd))\<rparr>"

text \<open>What is true of the process at any time.\<close>

definition node_inv :: "henv \<Rightarrow> Pool \<Rightarrow> nat \<Rightarrow> 's proc \<Rightarrow> bool" where
  "node_inv he p n nd \<longleftrightarrow> encodes he \<and> pool_inv p n (nd_world nd) \<and> sk_nc (hs_sink (nd_state nd)) \<and>
     (\<exists>gone. sink_run (hs_sink (nd_state nd)) (nd_events nd) gone (nd_calls nd))"

lemma sink_run_adds:
  "sink_run s added gone calls \<Longrightarrow> \<exists>gone'. sink_run (fold Add_item its s) (added @ its) gone' calls"
proof (induction its arbitrary: s added gone)
  case (Cons it its)
  show ?case using Cons.IH [OF sink_run.add [OF Cons.prems, of it]] by simp
qed auto

lemma Add_items_nc [simp]: "sk_nc (fold Add_item its s) = sk_nc s"
  by (induction its arbitrary: s) (simp_all add: Add_item_def drop_oldest_def append_item_def kick_def Let_def)

lemma take_batch_nc: "take_batch s = Some (items, s') \<Longrightarrow> sk_nc s' = sk_nc s"
  by (auto simp: take_batch_def Let_def split: if_splits)

lemma questions_simps [simp]:
  "questions {#} = {#}" "questions (add_mset s ss) = (if s = '''' then questions ss else add_mset s (questions ss))"
  "questions (ss + ss') = questions ss + questions ss'"
  by (simp_all add: questions_def)

lemma submit_all_effect:
  "pool_inv p n w \<Longrightarrow> pool_inv p n (submit_all ts w)"
  "waiting (submit_all ts w) = waiting w + image_mset (\<lambda>t. erase (t\<lparr>tk_enqueued := w_now w\<rparr>)) (mset ts)"
  "w_pool (submit_all ts w) = w_pool w" "w_gone (submit_all ts w) = w_gone w"
proof -
  have "pool_inv p n w \<longrightarrow> pool_inv p n (submit_all ts w)"
  proof (induction ts arbitrary: w)
    case (Cons t ts)
    let ?t = "t\<lparr>tk_enqueued := w_now w, tk_Fill := 0\<rparr>"
    let ?w = "w\<lparr>w_jobs := add_mset (Submitting ?t) (w_jobs w), w_submitted := add_mset ?t (w_submitted w)\<rparr>"
    have "env_step w ?w" by (rule env_step.submit) simp
    then have "pool_inv p n w \<longrightarrow> pool_inv p n ?w" by (auto simp: pool_inv_def intro: run.env)
    then show ?case using Cons [of ?w] by (simp add: submit_all_def Let_def)
  qed (simp add: submit_all_def)
  then show "pool_inv p n w \<Longrightarrow> pool_inv p n (submit_all ts w)" by blast
  show "waiting (submit_all ts w) = waiting w + image_mset (\<lambda>t. erase (t\<lparr>tk_enqueued := w_now w\<rparr>)) (mset ts)"
    by (induction ts arbitrary: w) (simp_all add: submit_all_def Let_def waiting_def erase_def)
  show "w_pool (submit_all ts w) = w_pool w" "w_gone (submit_all ts w) = w_gone w"
    by (induction ts arbitrary: w) (simp_all add: submit_all_def Let_def)
qed

lemma sticky_tick_keeps [simp]:
  "hs_out (sticky_tick done' now st) = hs_out st" "hs_sink (sticky_tick done' now st) = hs_sink st"
  by (auto simp: sticky_tick_def end_tx_def split: option.split prod.split)

text \<open>Any number of questions, and of answers.\<close>

abbreviation (input) serving_as :: "string multiset \<Rightarrow> string multiset \<Rightarrow> string list \<Rightarrow> service" where
  "serving_as opn asked sent \<equiv> \<lparr>sv_open = opn, sv_asked = asked, sv_sent = sent\<rparr>"

lemma asks_all: "service_step\<^sup>*\<^sup>* (serving_as opn asked sent) (serving_as (opn + ss) (asked + ss) sent)"
proof (induction ss)
  case (add s ss)
  show ?case using rtranclp.rtrancl_into_rtrancl [OF add asks [of _ s]] by simp
qed simp

lemma answers_all: "service_step\<^sup>*\<^sup>* (serving_as (mset ss + rest) asked sent) (serving_as rest asked (sent @ ss))"
proof (induction ss arbitrary: sent)
  case (Cons s ss)
  have "service_step (serving_as (mset (s # ss) + rest) asked sent) (serving_as (mset ss + rest) asked (sent @ [s]))"
    using answers [of "serving_as (mset (s # ss) + rest) asked sent" s "mset ss + rest"] by simp
  from converse_rtranclp_into_rtranclp [OF this Cons] show ?case by simp
qed simp

lemma node_step_inv:
  assumes "node_inv he p n nd" "node_step he n nd nd'"
  shows "node_inv he p n nd'"
proof -
  have inv: "encodes he" "pool_inv p n (nd_world nd)" "sk_nc (hs_sink (nd_state nd))" using assms(1) by (auto simp: node_inv_def)
  obtain gone where run: "sink_run (hs_sink (nd_state nd)) (nd_events nd) gone (nd_calls nd)" using assms(1) by (auto simp: node_inv_def)
  have world: "world_step (nd_world nd) w \<Longrightarrow> pool_inv p n w" for w using mail.step_inv [OF inv(2)] .
  from assms(2) show ?thesis
  proof cases
    case (message ck msg st)
    have "hs_sink st = fold Add_item (receive_items he ck msg) (hs_sink (nd_state nd))" using receive_effect(2) [OF inv(1,3)] message(2) by metis
    then show ?thesis using message inv sink_run_adds [OF run] submit_all_effect(1) by (auto simp: node_inv_def)
  next
    case (handler w t left shed ck)
    then show ?thesis using inv world evaluate_sink [OF inv(3)] sink_run_adds [OF run] by (auto simp: node_inv_def world_step_def)
  next
    case (batch items sink)
    then show ?thesis using inv sink_run.batch [OF run] take_batch_nc by (auto simp: node_inv_def)
  next
    case wake
    then show ?thesis using inv sink_run.wake [OF run] by (auto simp: node_inv_def)
  next
    case (tick now)
    have "env_step (nd_world nd) ((nd_world nd)\<lparr>w_now := now\<rparr>)" using tick(2) by (rule env_step.tick)
    then show ?thesis using tick inv run world by (auto simp: node_inv_def world_step_def)
  next
    case close
    have "env_step (nd_world nd) ((nd_world nd)\<lparr>w_pool := Close_pool (w_pool (nd_world nd))\<rparr>)" by (rule env_step.close)
    then show ?thesis using close inv run world by (auto simp: node_inv_def world_step_def)
  qed (use inv run world in \<open>auto simp: node_inv_def world_step_def\<close>)
qed

lemma waiting_pool: "waiting (w\<lparr>w_now := now\<rparr>) = waiting w" "waiting (w\<lparr>w_pool := Close_pool (w_pool w)\<rparr>) = waiting w"
  by (simp_all add: waiting_def Close_pool_def)

lemma node_step_service:
  assumes "node_inv he p n nd" "node_step he n nd nd'"
  shows "service_step\<^sup>*\<^sup>* (service_of nd) (service_of nd')"
  using assms(2)
proof cases
  case (message ck msg st)
  have enc: "encodes he" using assms(1) by (simp add: node_inv_def)
  obtain ts out where r: "hs_tasks st = hs_tasks (nd_state nd) @ ts" "map fst (hs_out st) = map fst (hs_out (nd_state nd)) @ out"
    "asked_by he msg = questions (mset (map tk_Reply ts)) + mset out"
    using receive_effect(1) [OF enc, of ck msg "nd_state nd"] message(2) by auto
  let ?w = "questions (image_mset tk_Reply (waiting (nd_world nd)))" and ?new = "questions (mset (map tk_Reply ts))"
  let ?sent = "map fst (hs_out (nd_state nd))" and ?all = "nd_asked nd + asked_by he msg"
  have "service_step\<^sup>*\<^sup>* (service_of nd) (serving_as (?w + asked_by he msg) ?all ?sent)"
    unfolding service_of_def by (rule asks_all)
  moreover have "?w + asked_by he msg = mset out + (?w + ?new)" by (simp add: r(3) ac_simps)
  then have "service_step\<^sup>*\<^sup>* (serving_as (?w + asked_by he msg) ?all ?sent) (serving_as (?w + ?new) ?all (?sent @ out))"
    using answers_all [of out "?w + ?new" ?all ?sent] by (simp only:)
  moreover have "service_of nd' = serving_as (?w + ?new) ?all (?sent @ out)"
    using message r(1,2) by (simp add: service_of_def submit_all_effect received_tasks_def image_mset.compositionality comp_def erase_def)
  ultimately show ?thesis by (metis rtranclp_trans)
next
  case (silent w)
  then show ?thesis using pool_step_waiting(1) [OF silent(2,3)] by (simp add: service_of_def)
next
  case (handler w t left shed ck)
  have enc: "encodes he" using assms(1) by (simp add: node_inv_def)
  have w: "waiting (nd_world nd) = add_mset (erase t) (waiting w)" using pool_step_waiting(2) [OF handler(2,3)] by simp
  let ?out = "if tk_Reply t = '''' then [] else [tk_Reply t]"
  have "service_of nd = serving_as (mset ?out + sv_open (service_of nd')) (nd_asked nd) (map fst (hs_out (nd_state nd)))"
    "service_of nd' = serving_as (sv_open (service_of nd')) (nd_asked nd) (map fst (hs_out (nd_state nd)) @ ?out)"
    using handler(1) w evaluate_sends [OF enc, of ck t left shed "nd_state nd"] by (simp_all add: service_of_def)
  then show ?thesis using answers_all by metis
qed (simp_all add: service_of_def waiting_pool)

interpretation process: simulation "node_step he n" "node_inv he p n" service_of service_step for he p n
  by unfold_locales (fact node_step_inv, fact node_step_service)

lemma node_starts:
  assumes "encodes he" "pl_q p = []" "0 < pl_depth p" "hs_out st = []" "hs_sink st = NewSink True"
  shows "node_inv he p n (New_node p n st)" "service_of (New_node p n st) = idle_service"
proof -
  have "sk_nc (NewSink True)" by (simp add: NewSink_def)
  then show "node_inv he p n (New_node p n st)" "service_of (New_node p n st) = idle_service"
    using assms sink_run.start
    by (auto simp: node_inv_def New_node_def pool_inv_def service_of_def idle_service_def New_world_def waiting_def intro: run.start [unfolded New_world_def])
qed

section \<open>Stopping\<close>

lemma finished_waits_for_nothing:
  assumes "pool_inv p n w" "finished w" "0 < n"
  shows "waiting w = {#}" "w_gone w = n"
proof -
  have "workers_ok n w" using run_workers assms(1) by (auto simp: pool_inv_def)
  then show "waiting w = {#}" "w_gone w = n" using assms(2,3) by (auto simp: workers_ok_def finished_def waiting_def)
qed

lemma pool_step_node:
  assumes "pool_step (nd_world nd) w"
  shows "\<exists>nd'. node_step he n nd nd' \<and> nd_world nd' = w \<and> nd_loop nd' = nd_loop nd"
proof -
  consider "w_log w = w_log (nd_world nd)" | t left shed where "w_log w = w_log (nd_world nd) @ [(t, left, shed)]"
    using pool_step_log [OF assms] by auto
  then show ?thesis
  proof cases
    case 1
    from node_step.silent [OF assms 1] show ?thesis by fastforce
  next
    case 2
    from node_step.handler [OF assms 2, where ck = sample_clock] show ?thesis by fastforce
  qed
qed

lemma pool_steps_node:
  "pool_step\<^sup>*\<^sup>* w w' \<Longrightarrow> nd_world nd = w \<Longrightarrow> \<exists>nd'. (node_step he n)\<^sup>*\<^sup>* nd nd' \<and> nd_world nd' = w' \<and> nd_loop nd' = nd_loop nd"
proof (induction rule: rtranclp_induct)
  case (step y z)
  then obtain nd1 where "(node_step he n)\<^sup>*\<^sup>* nd nd1" "nd_world nd1 = y" "nd_loop nd1 = nd_loop nd" by blast
  then show ?case using pool_step_node [of nd1 z he n] step(2) by (metis rtranclp.rtrancl_into_rtrancl)
qed auto

text \<open>Batch after batch the sink's goroutine gets to the end of what is pending.\<close>

lemma batches_node:
  "nd_loop nd = Stopping \<Longrightarrow> \<exists>nd'. (node_step he n)\<^sup>*\<^sup>* nd nd' \<and> nd_world nd' = nd_world nd \<and> nd_loop nd' = Ended \<and>
     sk_pending (hs_sink (nd_state nd')) = []"
proof (induction "length (sk_pending (hs_sink (nd_state nd)))" arbitrary: nd rule: less_induct)
  case less
  show ?case
  proof (cases "take_batch (hs_sink (nd_state nd))")
    case None
    have "node_step he n nd (nd\<lparr>nd_loop := Ended\<rparr>)" by (rule node_step.quit [OF less(2) None])
    moreover have "sk_pending (hs_sink (nd_state nd)) = []" using None by (auto simp: take_batch_def Let_def split: if_splits)
    ultimately show ?thesis by (intro exI [of _ "nd\<lparr>nd_loop := Ended\<rparr>"]) auto
  next
    case (Some b)
    obtain items sink where b: "b = (items, sink)" by fastforce
    let ?nd = "nd\<lparr>nd_state := (nd_state nd)\<lparr>hs_sink := sink\<rparr>, nd_calls := nd_calls nd @ publish items\<rparr>"
    have s: "node_step he n nd ?nd" using less(2) Some b by (intro node_step.batch) auto
    have "length (sk_pending (hs_sink (nd_state ?nd))) < length (sk_pending (hs_sink (nd_state nd)))"
      using take_batch_Some(1,2) [OF Some [unfolded b]] by simp
    then show ?thesis using less(1) [of ?nd] less(2) s by (metis (no_types, lifting) converse_rtranclp_into_rtranclp proc.select_convs(1,3) proc.surjective proc.update_convs(2,6))
  qed
qed

lemma node_finishes:
  assumes "node_inv he p n nd" "pl_closed (w_pool (nd_world nd))" "0 < n"
  shows "\<exists>nd'. (node_step he n)\<^sup>*\<^sup>* nd nd' \<and> finished (nd_world nd') \<and> nd_loop nd' = Ended \<and>
    (nd_loop nd \<noteq> Ended \<longrightarrow> sk_pending (hs_sink (nd_state nd')) = [])"
proof -
  obtain w' where w': "pool_step\<^sup>*\<^sup>* (nd_world nd) w'" "finished w'" using closed_pool_finishes [OF assms(2)] by blast
  obtain nd1 where nd1: "(node_step he n)\<^sup>*\<^sup>* nd nd1" "nd_world nd1 = w'" "nd_loop nd1 = nd_loop nd"
    using pool_steps_node [OF w'(1) refl] by blast
  have inv: "node_inv he p n nd1" using process.simulates [OF nd1(1) assms(1)] by blast
  have gone: "w_gone w' = n" using finished_waits_for_nothing(2) [of p n w'] inv nd1(2) w'(2) assms(3) by (simp add: node_inv_def)
  have "run p n (nd_world nd)" using assms(1) by (simp add: node_inv_def pool_inv_def)
  then have closed: "pl_closed (w_pool w')" using steps_run [OF w'(1)] assms(2) by blast
  show ?thesis
  proof (cases "nd_loop nd")
    case Looping
    have "node_step he n nd1 (nd1\<lparr>nd_loop := Stopping\<rparr>)"
      using node_step.stop [of nd1 n he] Looping nd1 gone closed by (simp add: Close_sink_def)
    moreover obtain nd2 where "(node_step he n)\<^sup>*\<^sup>* (nd1\<lparr>nd_loop := Stopping\<rparr>) nd2" "nd_world nd2 = nd_world nd1" "nd_loop nd2 = Ended"
      "sk_pending (hs_sink (nd_state nd2)) = []"
      using batches_node [of "nd1\<lparr>nd_loop := Stopping\<rparr>" he n] by auto
    ultimately show ?thesis using nd1 w'(2) by (metis converse_rtranclp_into_rtranclp rtranclp_trans)
  next
    case Stopping
    then obtain nd2 where "(node_step he n)\<^sup>*\<^sup>* nd1 nd2" "nd_world nd2 = nd_world nd1" "nd_loop nd2 = Ended"
      "sk_pending (hs_sink (nd_state nd2)) = []"
      using batches_node [of nd1 he n] nd1(3) by auto
    then show ?thesis using nd1 w'(2) by (metis rtranclp_trans)
  next
    case Ended
    then show ?thesis using nd1 w'(2) by auto
  qed
qed

lemma wired_node:
  assumes "wire s de = Inr (cfg, pr)" "encodes (pr_env pr)"
  shows "node_inv (pr_env pr) (pr_pool pr) (nat (pr_workers pr)) (New_node (pr_pool pr) (nat (pr_workers pr)) (pr_state pr))"
    and "service_of (New_node (pr_pool pr) (nat (pr_workers pr)) (pr_state pr)) = idle_service"
proof -
  obtain registry where w: "pr_state pr = fresh_state registry (cf_ResumeMax cfg) (cf_ResumeTTL cfg) (NewSink True)"
    "pr_pool pr = New_pool (cf_QueueDepth cfg) (cf_ReserveMS cfg) (cf_MinBudgetMS cfg) (cf_QueueFull cfg)"
    by (rule wire_parts [OF assms(1)])
  show "node_inv (pr_env pr) (pr_pool pr) (nat (pr_workers pr)) (New_node (pr_pool pr) (nat (pr_workers pr)) (pr_state pr))"
    "service_of (New_node (pr_pool pr) (nat (pr_workers pr)) (pr_state pr)) = idle_service"
    by (rule node_starts [OF assms(2)]; simp add: w fresh_state_def)+
qed

text \<open>
  C7: the process implements an answering service on the bus.  Through pool, handlers, parser, reloads of rules,
  the registry of kept transactions, the audit sink and the shutdown, in any interleaving, all that can be seen on the
  bus is questions and answers: every message with a reply subject, except an accepted release, is a question, and
  each answer goes to an open question and closes it, so that nothing is answered twice or unasked.
\<close>

theorem process_refines_service:
  assumes "wire s de = Inr (cfg, pr)" "encodes (pr_env pr)"
    and "(node_step (pr_env pr) (nat (pr_workers pr)))\<^sup>*\<^sup>* (New_node (pr_pool pr) (nat (pr_workers pr)) (pr_state pr)) nd"
  shows "service_step\<^sup>*\<^sup>* idle_service (service_of nd) \<and>
    nd_asked nd = questions (image_mset tk_Reply (waiting (nd_world nd))) + mset (map fst (hs_out (nd_state nd)))"
proof -
  note start = wired_node [OF assms(1,2)]
  have "sv_asked (service_of nd) = sv_open (service_of nd) + mset (sv_sent (service_of nd))"
    by (rule process.keeps [OF assms(3) start(1)]) (use start(2) service_conserves in \<open>auto simp: idle_service_def\<close>)
  then show ?thesis using process.simulates [OF assms(3) start(1)] start(2) by (simp add: service_of_def)
qed

lemma ended_is_final:
  "node_step he n nd nd' \<Longrightarrow> nd_loop nd = Ended \<Longrightarrow> nd_loop nd' = Ended \<and> nd_calls nd' = nd_calls nd"
  by (cases rule: node_step.cases) (auto simp: Close_sink_def)

lemma ended_forever:
  "(node_step he n)\<^sup>*\<^sup>* nd nd' \<Longrightarrow> nd_loop nd = Ended \<Longrightarrow> nd_loop nd' = Ended \<and> nd_calls nd' = nd_calls nd"
  by (induction rule: rtranclp_induct) (auto dest: ended_is_final)

text \<open>At the step that ends the sink's goroutine nothing is pending.\<close>

lemma quit_step:
  assumes "node_inv he p n nd" "node_step he n nd nd'" "nd_loop nd \<noteq> Ended" "nd_loop nd' = Ended"
  shows "\<exists>gone. nd_events nd' = map snd gone \<and> sk_dropped (hs_sink (nd_state nd')) = of_nat (length (filter (\<lambda>g. fst g = Dropped) gone)) \<and>
    (\<forall>subject. sent_to subject (nd_calls nd') = for_subject subject (published gone))"
proof -
  have pend: "sk_pending (hs_sink (nd_state nd')) = []"
    using assms(2-4) by (cases rule: node_step.cases) (auto simp: take_batch_def Close_sink_def Let_def split: if_splits)
  obtain gone where run: "sink_run (hs_sink (nd_state nd')) (nd_events nd') gone (nd_calls nd')"
    using node_step_inv [OF assms(1,2)] by (auto simp: node_inv_def)
  show ?thesis using sink_run_conserves [OF run] sink_run_dropped [OF run] sink_run_sent [OF run] pend
    by (intro exI [of _ gone]) auto
qed

text \<open>A step of the process's own goroutines, as against messages, clocks and reloads: one of the pool, or one of the
  sink that takes a batch or moves its goroutine on.  The measure counts what is left to do.\<close>

definition own_step :: "henv \<Rightarrow> nat \<Rightarrow> 's proc \<Rightarrow> 's proc \<Rightarrow> bool" where
  "own_step he n nd nd' \<longleftrightarrow> node_step he n nd nd' \<and>
     (pool_step (nd_world nd) (nd_world nd') \<or>
      nd_world nd' = nd_world nd \<and>
        (nd_loop nd' \<noteq> nd_loop nd \<or> (\<exists>items. take_batch (hs_sink (nd_state nd)) = Some (items, hs_sink (nd_state nd')))))"

primrec loop_work :: "loop_state \<Rightarrow> nat" where
  "loop_work Looping = 2" | "loop_work Stopping = 1" | "loop_work Ended = 0"

definition node_work :: "'s proc \<Rightarrow> nat \<times> nat \<times> nat" where
  "node_work nd = (work (nd_world nd), loop_work (nd_loop nd), length (sk_pending (hs_sink (nd_state nd))))"

abbreviation (input) less_work :: "((nat \<times> nat \<times> nat) \<times> (nat \<times> nat \<times> nat)) set" where
  "less_work \<equiv> less_than <*lex*> less_than <*lex*> less_than"

lemma loop_moves_on: "node_step he n nd nd' \<Longrightarrow> nd_loop nd' \<noteq> nd_loop nd \<Longrightarrow> loop_work (nd_loop nd') < loop_work (nd_loop nd)"
  by (cases rule: node_step.cases) (auto simp: Close_sink_def split: if_splits)

lemma own_step_works: "own_step he n nd nd' \<Longrightarrow> (node_work nd', node_work nd) \<in> less_work"
  unfolding own_step_def node_work_def using pool_step_works loop_moves_on take_batch_Some(1,2) by fastforce

lemma node_step_closed:
  assumes "node_inv he p n nd" "node_step he n nd nd'" "pl_closed (w_pool (nd_world nd))"
  shows "pl_closed (w_pool (nd_world nd'))"
proof -
  have "run p n (nd_world nd)" using assms(1) by (simp add: node_inv_def pool_inv_def)
  then have "pool_step (nd_world nd) w \<Longrightarrow> pl_closed (w_pool w)" for w using steps_run [OF r_into_rtranclp] assms(3) by blast
  note closed = this
  from assms(2) show ?thesis by cases (use assms(3) closed in \<open>auto simp: submit_all_effect(3) Close_pool_def\<close>)
qed

lemma stays_closed:
  "(node_step he n)\<^sup>*\<^sup>* nd nd' \<Longrightarrow> node_inv he p n nd \<Longrightarrow> pl_closed (w_pool (nd_world nd)) \<Longrightarrow>
     node_inv he p n nd' \<and> pl_closed (w_pool (nd_world nd'))"
  by (induction rule: rtranclp_induct) (use node_step_inv node_step_closed in blast)+

lemma own_step_stuck:
  assumes "node_inv he p n nd" "pl_closed (w_pool (nd_world nd))" "0 < n" "\<And>nd'. \<not> own_step he n nd nd'"
  shows "finished (nd_world nd) \<and> nd_loop nd = Ended"
proof -
  have "\<not> pool_step (nd_world nd) w" for w using pool_step_node [of nd w he n] assms(4) unfolding own_step_def by metis
  then have fin: "finished (nd_world nd)" using closed_pool_steps [OF assms(2)] by blast
  have gone: "w_gone (nd_world nd) = n" using finished_waits_for_nothing(2) [of p, OF _ fin assms(3)] assms(1) by (simp add: node_inv_def)
  have "nd_loop nd = Ended"
  proof (cases "nd_loop nd")
    case Looping
    have "own_step he n nd (nd\<lparr>nd_loop := Stopping\<rparr>)"
      using node_step.stop [OF assms(2) gone, of he] Looping by (simp add: own_step_def Close_sink_def)
    then show ?thesis using assms(4) by blast
  next
    case Stopping
    show ?thesis
    proof (cases "take_batch (hs_sink (nd_state nd))")
      case None
      have "own_step he n nd (nd\<lparr>nd_loop := Ended\<rparr>)" using node_step.quit [OF Stopping None] Stopping by (simp add: own_step_def)
      then show ?thesis using assms(4) by blast
    next
      case (Some b)
      obtain items sink where b: "b = (items, sink)" by fastforce
      have "own_step he n nd (nd\<lparr>nd_state := (nd_state nd)\<lparr>hs_sink := sink\<rparr>, nd_calls := nd_calls nd @ publish items\<rparr>)"
        using node_step.batch [of nd items sink he n] Stopping Some b by (simp add: own_step_def)
      then show ?thesis using assms(4) by blast
    qed
  qed
  then show ?thesis using fin by blast
qed

text \<open>
  C8: stopping the process completes it.  Once the pool is closed, the workers can finish and the sink's goroutine
  can end with nothing pending; the process's own steps cannot go on forever, each having less left to do, and, with
  messages still coming in between, they are never stuck before the workers are gone and the sink has ended; whenever
  no goroutine of the pool is left, every question asked until then has been answered exactly once; and when the
  sink's goroutine ends, every event added until then went out to its subject, in order, or was counted as dropped.
  An event that is added after that has no such promise: it can be lost, as the next section shows.
\<close>

theorem stopping_completes:
  assumes "wire s de = Inr (cfg, pr)" "encodes (pr_env pr)"
    and "(node_step (pr_env pr) (nat (pr_workers pr)))\<^sup>*\<^sup>* (New_node (pr_pool pr) (nat (pr_workers pr)) (pr_state pr)) nd"
    and "pl_closed (w_pool (nd_world nd))"
  shows "(\<exists>nd'. (node_step (pr_env pr) (nat (pr_workers pr)))\<^sup>*\<^sup>* nd nd' \<and> finished (nd_world nd') \<and> nd_loop nd' = Ended \<and>
      (nd_loop nd = Ended \<or> sk_pending (hs_sink (nd_state nd')) = [])) \<and>
    (\<forall>nd1 nd2 :: 's proc. own_step (pr_env pr) (nat (pr_workers pr)) nd1 nd2 \<longrightarrow> (node_work nd2, node_work nd1) \<in> less_work) \<and>
    (\<forall>nd'. (node_step (pr_env pr) (nat (pr_workers pr)))\<^sup>*\<^sup>* nd nd' \<and> \<not> (\<exists>nd''. own_step (pr_env pr) (nat (pr_workers pr)) nd' nd'') \<longrightarrow>
      finished (nd_world nd') \<and> nd_loop nd' = Ended \<and> mset (map fst (hs_out (nd_state nd'))) = nd_asked nd') \<and>
    (finished (nd_world nd) \<longrightarrow> mset (map fst (hs_out (nd_state nd))) = nd_asked nd) \<and>
    (\<forall>nd'. node_step (pr_env pr) (nat (pr_workers pr)) nd nd' \<and> nd_loop nd \<noteq> Ended \<and> nd_loop nd' = Ended \<longrightarrow>
      (\<exists>gone. nd_events nd' = map snd gone \<and> sk_dropped (hs_sink (nd_state nd')) = of_nat (length (filter (\<lambda>g. fst g = Dropped) gone)) \<and>
        (\<forall>subject. sent_to subject (nd_calls nd') = for_subject subject (published gone))))"
proof (intro conjI allI impI)
  note start = wired_node [OF assms(1,2)]
  have inv: "node_inv (pr_env pr) (pr_pool pr) (nat (pr_workers pr)) nd" using process.simulates [OF assms(3) start(1)] by blast
  have workers: "0 < nat (pr_workers pr)" using wired_start(2) [OF assms(1)] .
  show "\<exists>nd'. (node_step (pr_env pr) (nat (pr_workers pr)))\<^sup>*\<^sup>* nd nd' \<and> finished (nd_world nd') \<and> nd_loop nd' = Ended \<and>
      (nd_loop nd = Ended \<or> sk_pending (hs_sink (nd_state nd')) = [])"
    using node_finishes [OF inv assms(4) workers] by blast
  show "(node_work nd2, node_work nd1) \<in> less_work" if "own_step (pr_env pr) (nat (pr_workers pr)) nd1 nd2" for nd1 nd2 :: "'s proc"
    using own_step_works [OF that] .
  have answered: "mset (map fst (hs_out (nd_state v))) = nd_asked v"
    if v: "(node_step (pr_env pr) (nat (pr_workers pr)))\<^sup>*\<^sup>* (New_node (pr_pool pr) (nat (pr_workers pr)) (pr_state pr)) v"
      and fin: "finished (nd_world v)" for v
  proof -
    have "sv_asked (service_of v) = sv_open (service_of v) + mset (sv_sent (service_of v))"
      by (rule process.keeps [OF v start(1)]) (use start(2) service_conserves in \<open>auto simp: idle_service_def\<close>)
    moreover have "waiting (nd_world v) = {#}"
      using finished_waits_for_nothing(1) [OF _ fin workers] process.simulates [OF v start(1)] by (auto simp: node_inv_def)
    ultimately show ?thesis by (simp add: service_of_def)
  qed
  show "mset (map fst (hs_out (nd_state nd))) = nd_asked nd" if "finished (nd_world nd)" using answered [OF assms(3) that] .
  fix nd'
  show "finished (nd_world nd')" and "nd_loop nd' = Ended" and "mset (map fst (hs_out (nd_state nd'))) = nd_asked nd'"
    if "(node_step (pr_env pr) (nat (pr_workers pr)))\<^sup>*\<^sup>* nd nd' \<and> \<not> (\<exists>nd''. own_step (pr_env pr) (nat (pr_workers pr)) nd' nd'')"
  proof -
    have end': "finished (nd_world nd') \<and> nd_loop nd' = Ended"
      using own_step_stuck [OF _ _ workers] stays_closed [OF conjunct1 [OF that] inv assms(4)] that by blast
    then show "finished (nd_world nd')" "nd_loop nd' = Ended" by simp_all
    show "mset (map fst (hs_out (nd_state nd'))) = nd_asked nd'"
      using answered [OF rtranclp_trans [OF assms(3) conjunct1 [OF that]]] end' by blast
  qed
  assume "node_step (pr_env pr) (nat (pr_workers pr)) nd nd' \<and> nd_loop nd \<noteq> Ended \<and> nd_loop nd' = Ended"
  then show "\<exists>gone. nd_events nd' = map snd gone \<and> sk_dropped (hs_sink (nd_state nd')) = of_nat (length (filter (\<lambda>g. fst g = Dropped) gone)) \<and>
      (\<forall>subject. sent_to subject (nd_calls nd') = for_subject subject (published gone))"
    using quit_step [OF inv] by blast
qed

section \<open>Events after the end\<close>

lemma shed_items:
  assumes "encodes he" "shed \<noteq> ''''" "tk_Reply t \<noteq> ''''" "req_AuditSubject (tk_Req t) = Some subject" "subject \<noteq> ''''"
    and "\<forall>ev. \<exists>b. he_event he ev = Inr b"
  shows "\<exists>b. evaluate_items he ck t left shed st = [\<lparr>it_subject = subject, it_body = b\<rparr>]"
proof -
  obtain reply det st1 where e: "evaluate_shed he t left shed st = (reply, det, st1)" by (metis surj_pair)
  have items: "\<exists>b. audit_items he ck (Some (tk_Req t)) reply det = [\<lparr>it_subject = subject, it_body = b\<rparr>]"
    using assms(4,5) assms(6) [rule_format, of "Build (ck_ts ck) (Some (tk_Req t)) (Some reply) det"] by (auto simp: audit_items_def)
  obtain p where "Marshal (he_marshal he) (FallbackReply (rp_RID reply) (rp_Inspector reply) codeInternalError) = Inr p"
    using assms(1) [unfolded encodes_def, rule_format, of "FallbackReply (rp_RID reply) (rp_Inspector reply) codeInternalError"]
    by (auto simp: Marshal_def FallbackReply_def)
  then show ?thesis using items assms(2,3) by (auto simp: evaluate_items_def e send_items_of_def split: sum.split)
qed

text \<open>
  C39: events after the end are lost without a trace.  The subscription's \<^verbatim>\<open>Drain\<close> does not wait, so a message can
  be submitted while the pool and then the sink are closed: it is answered, its event is added, but nothing is
  published any more, and no drop is counted.
\<close>

theorem late_event_is_lost:
  assumes "encodes he" "\<forall>ev. \<exists>b. he_event he ev = Inr b"
    and "(node_step he n)\<^sup>*\<^sup>* (New_node (New_pool depth reserveMS minBudgetMS full) n (fresh_state reg m ttl (NewSink True))) nd"
    and "nd_loop nd = Ended" "sk_pending (hs_sink (nd_state nd)) = []"
    and job: "w_jobs (nd_world nd) = add_mset (Expiring t left) js" "tk_Reply t \<noteq> ''''"
      "req_AuditSubject (tk_Req t) = Some subject" "subject \<noteq> ''''"
  shows "\<exists>nd' it. node_step he n nd nd' \<and> map fst (hs_out (nd_state nd')) = map fst (hs_out (nd_state nd)) @ [tk_Reply t] \<and>
    it_subject it = subject \<and> nd_events nd' = nd_events nd @ [it] \<and> sk_pending (hs_sink (nd_state nd')) = [it] \<and>
    sk_dropped (hs_sink (nd_state nd')) = sk_dropped (hs_sink (nd_state nd)) \<and>
    (\<forall>nd''. (node_step he n)\<^sup>*\<^sup>* nd' nd'' \<longrightarrow> nd_calls nd'' = nd_calls nd)"
proof -
  let ?p = "New_pool depth reserveMS minBudgetMS full"
  have "node_inv he ?p n (New_node ?p n (fresh_state reg m ttl (NewSink True)))"
    by (rule node_starts(1) [OF assms(1)]) (simp_all add: fresh_state_def)
  then have inv: "node_inv he ?p n nd" using process.simulates [OF assms(3)] by blast
  then obtain gone where run: "sink_run (hs_sink (nd_state nd)) (nd_events nd) gone (nd_calls nd)" by (auto simp: node_inv_def)
  have nc: "sk_nc (hs_sink (nd_state nd))" using inv by (simp add: node_inv_def)
  obtain call p where c: "expire t left (w_pool (nd_world nd)) = (call, p)" by fastforce
  then have call: "call = (t, left, ReasonDeadlineExceeded)" by (simp add: expire_def)
  let ?w = "(nd_world nd)\<lparr>w_pool := p, w_jobs := js, w_log := w_log (nd_world nd) @ [call]\<rparr>"
  let ?nd = "nd\<lparr>nd_world := ?w, nd_state := evaluate he sample_clock t left ReasonDeadlineExceeded (nd_state nd),
      nd_events := nd_events nd @ evaluate_items he sample_clock t left ReasonDeadlineExceeded (nd_state nd)\<rparr>"
  have step: "node_step he n nd ?nd"
    by (rule node_step.handler [OF pool_step.expires [OF job(1) c]]) (simp add: call)
  obtain b where items: "evaluate_items he sample_clock t left ReasonDeadlineExceeded (nd_state nd) = [\<lparr>it_subject = subject, it_body = b\<rparr>]"
    using shed_items [OF assms(1) _ job(2-4) assms(2), of ReasonDeadlineExceeded] by blast
  have sink: "hs_sink (nd_state ?nd) = Add_item \<lparr>it_subject = subject, it_body = b\<rparr> (hs_sink (nd_state nd))"
    using evaluate_sink [OF nc, of he sample_clock t left ReasonDeadlineExceeded] items by simp
  note added = Add_item_effect [OF sink_run_ok [OF run], of "\<lparr>it_subject = subject, it_body = b\<rparr>"]
  have "\<forall>nd''. (node_step he n)\<^sup>*\<^sup>* ?nd nd'' \<longrightarrow> nd_calls nd'' = nd_calls nd" using ended_forever [of he n ?nd] assms(4) by fastforce
  then show ?thesis using step items evaluate_sends [OF assms(1), of sample_clock t left ReasonDeadlineExceeded "nd_state nd"] job(2) sink added assms(5)
    by (intro exI [of _ ?nd] exI [of _ "\<lparr>it_subject = subject, it_body = b\<rparr>"]) simp
qed

section \<open>A process that is stopped while a message comes in\<close>

abbreviation (input) sample_msg :: nats_msg where
  "sample_msg \<equiv> \<lparr>nm_Subject = ''waf.req'', nm_Reply = ''_INBOX.1'', nm_Data = []\<rparr>"

lemma sample_receive:
  "receive sample_env sample_clock sample_msg sample_state = sample_state\<lparr>hs_tasks := [sample_task]\<rparr>"
  "receive_items sample_env sample_clock sample_msg = []" "asked_by sample_env sample_msg = {#''_INBOX.1''#}"
proof -
  have p: "Parse (he_unmarshal sample_env) [] = Inr sample_request" using sample_request_parses by (simp add: sample_env_def)
  have s: "Supports sample_env (req_V sample_request)" "req_Release sample_request = None" "supports_phase (req_Phase sample_request)"
    by (simp_all add: Supports_def sample_env_def sample_request_def supports_phase_def)
  have t: "\<lparr>tk_Req = sample_request, tk_Reply = ''_INBOX.1'', tk_Personal = (he_inbox sample_env \<noteq> '''' \<and> ''waf.req'' = he_inbox sample_env),
      tk_Fill = 0, tk_enqueued = 0\<rparr> = sample_task"
    by (simp add: sample_task_def sample_env_def)
  show "receive sample_env sample_clock sample_msg sample_state = sample_state\<lparr>hs_tasks := [sample_task]\<rparr>"
    using t by (simp add: receive_def p s fresh_state_def)
  show "receive_items sample_env sample_clock sample_msg = []" "asked_by sample_env sample_msg = {#''_INBOX.1''#}"
    by (simp_all add: receive_items_def asked_by_def released_def p s)
qed

definition stopped_node :: "world \<Rightarrow> loop_state \<Rightarrow> (unit \<times> tx_call list) proc" where
  "stopped_node w l = \<lparr>nd_world = w, nd_state = sample_state\<lparr>hs_tasks := [sample_task]\<rparr>, nd_loop = l,
     nd_asked = {#''_INBOX.1''#}, nd_events = [], nd_calls = []\<rparr>"

abbreviation (input) closing_world :: "Pool \<Rightarrow> job multiset \<Rightarrow> nat \<Rightarrow> world" where
  "closing_world p js gone \<equiv> \<lparr>w_pool = p, w_jobs = js, w_idle = 1 - gone, w_gone = gone, w_log = [], w_now = 0, w_submitted = {#sample_task#}\<rparr>"

lemma closed_sections:
  "leftAt (Close_pool sample_pool) sample_task 0 = 190 * Millisecond" "pl_minBudget (Close_pool sample_pool) = 5 * Millisecond"
  "takeExpiredLocked 0 (Close_pool sample_pool) = ([], Close_pool sample_pool)"
  "enter 0 sample_task (Close_pool sample_pool) = (Some (Expiring sample_task 0), Close_pool sample_pool)"
  "pop 0 (Close_pool sample_pool) = (PopEnd, [], Close_pool sample_pool)" "pl_closed (Close_pool sample_pool)"
  by code_simp+

lemma stopped_while_submitting:
  "(node_step sample_env 1)\<^sup>*\<^sup>* (New_node sample_pool 1 sample_state)
     (stopped_node (closing_world (Close_pool sample_pool) {#Expiring sample_task 0#} 1) Ended)"
    and "node_step sample_env 1 (New_node sample_pool 1 sample_state) (stopped_node (closing_world sample_pool {#Submitting sample_task#} 0) Looping)"
    and "node_step sample_env 1 (stopped_node (closing_world sample_pool {#Submitting sample_task#} 0) Looping)
      (stopped_node (closing_world (Close_pool sample_pool) {#Submitting sample_task#} 0) Looping)"
proof -
  let ?c = "Close_pool sample_pool"
  let ?n1 = "stopped_node (closing_world sample_pool {#Submitting sample_task#} 0) Looping"
  let ?n2 = "stopped_node (closing_world ?c {#Submitting sample_task#} 0) Looping"
  let ?n3 = "\<lambda>l. stopped_node (closing_world ?c {#Submitting sample_task#} 1) l"
  have t: "sample_task\<lparr>tk_enqueued := 0, tk_Fill := 0\<rparr> = sample_task" by (simp add: sample_task_def)
  have r: "receive sample_env sample_clock sample_msg (nd_state (New_node sample_pool 1 sample_state)) = sample_state\<lparr>hs_tasks := [sample_task]\<rparr>"
    by (simp only: New_node_def proc.select_convs sample_receive(1))
  have tasks: "received_tasks sample_state (sample_state\<lparr>hs_tasks := [sample_task]\<rparr>) = [sample_task]"
    by (simp add: received_tasks_def fresh_state_def)
  show s1: "node_step sample_env 1 (New_node sample_pool 1 sample_state) ?n1"
    using node_step.message [OF r, of 1] tasks
    by (simp add: New_node_def New_world_def stopped_node_def submit_all_def t sample_receive(2,3))
  show s2: "node_step sample_env 1 ?n1 ?n2" using node_step.close [of sample_env 1 ?n1] by (simp add: stopped_node_def)
  have s3: "node_step sample_env 1 ?n2 (?n3 Looping)"
    using node_step.silent [OF pool_step.pop_end [of "nd_world ?n2" 0 "[]" ?c]] by (simp add: stopped_node_def closed_sections replyDead_def)
  have s4: "node_step sample_env 1 (?n3 Looping) (?n3 Stopping)" using node_step.stop [of "?n3 Looping" 1 sample_env] by (simp add: stopped_node_def closed_sections Close_sink_def)
  have "take_batch (hs_sink sample_state) = None" by (simp add: fresh_state_def NewSink_def take_batch_def)
  then have s5: "node_step sample_env 1 (?n3 Stopping) (?n3 Ended)" using node_step.quit [of "?n3 Stopping" sample_env 1] by (simp add: stopped_node_def)
  let ?e = "\<lambda>j. stopped_node (closing_world ?c {#j#} 1) Ended"
  have s6: "node_step sample_env 1 (?n3 Ended) (?e (Checked sample_task))"
    using node_step.silent [OF pool_step.in_time [of "nd_world (?n3 Ended)" sample_task "{#}"]] by (simp add: stopped_node_def closed_sections)
  have s7: "node_step sample_env 1 (?e (Checked sample_task)) (?e (Entering sample_task))"
    using node_step.silent [OF pool_step.collect [of "nd_world (?e (Checked sample_task))" sample_task "{#}" "[]" ?c]]
    by (simp add: stopped_node_def closed_sections replyDead_def)
  have s8: "node_step sample_env 1 (?e (Entering sample_task)) (?e (Expiring sample_task 0))"
    using node_step.silent [OF pool_step.enters [of "nd_world (?e (Entering sample_task))" sample_task "{#}" "Some (Expiring sample_task 0)" ?c]]
    by (simp add: stopped_node_def closed_sections jobs_of_def)
  show "(node_step sample_env 1)\<^sup>*\<^sup>* (New_node sample_pool 1 sample_state) (?e (Expiring sample_task 0))" using s1 s2 s3 s4 s5 s6 s7 s8 by (meson rtranclp.rtrancl_into_rtrancl rtranclp.rtrancl_refl)
qed

text \<open>The wired sample process with one message received, and then closed.\<close>

lemma sample_asks:
  assumes "wire sample_sys sample_deps = Inr (cfg, pr)"
  shows "asked_by (pr_env pr) sample_msg = {#''_INBOX.1''#}"
proof -
  have "he_unmarshal (pr_env pr) = (\<lambda>_. Inr sample_request)"
    by (rule wire_parts [OF assms]) (simp add: new_env_def sample_deps_def)
  then have "Parse (he_unmarshal (pr_env pr)) [] = Inr sample_request" using sample_request_parses by simp
  then show ?thesis by (simp add: asked_by_def released_def sample_request_def)
qed

lemma sample_closing:
  assumes "wire sample_sys sample_deps = Inr (cfg, pr)"
  shows "\<exists>nd. (node_step (pr_env pr) (nat (pr_workers pr)))\<^sup>*\<^sup>* (New_node (pr_pool pr) (nat (pr_workers pr)) (pr_state pr)) nd \<and>
    nd_asked nd = {#''_INBOX.1''#} \<and> pl_closed (w_pool (nd_world nd)) \<and> nd_loop nd = Looping"
proof -
  let ?n0 = "New_node (pr_pool pr) (nat (pr_workers pr)) (pr_state pr)"
  let ?st = "receive (pr_env pr) sample_clock sample_msg (nd_state ?n0)"
  let ?n1 = "?n0\<lparr>nd_world := submit_all (received_tasks (nd_state ?n0) ?st) (nd_world ?n0), nd_state := ?st,
      nd_asked := nd_asked ?n0 + asked_by (pr_env pr) sample_msg, nd_events := nd_events ?n0 @ receive_items (pr_env pr) sample_clock sample_msg\<rparr>"
  let ?n2 = "?n1\<lparr>nd_world := (nd_world ?n1)\<lparr>w_pool := Close_pool (w_pool (nd_world ?n1))\<rparr>\<rparr>"
  have "node_step (pr_env pr) (nat (pr_workers pr)) ?n0 ?n1" by (rule node_step.message [OF refl])
  moreover have "node_step (pr_env pr) (nat (pr_workers pr)) ?n1 ?n2" by (rule node_step.close)
  ultimately have "(node_step (pr_env pr) (nat (pr_workers pr)))\<^sup>*\<^sup>* ?n0 ?n2"
    by (rule rtranclp.rtrancl_into_rtrancl [OF r_into_rtranclp])
  moreover have "nd_asked ?n2 = {#''_INBOX.1''#}" by (simp add: New_node_def sample_asks [OF assms])
  moreover have "pl_closed (w_pool (nd_world ?n2))" by (simp add: Close_pool_def)
  moreover have "nd_loop ?n2 = Looping" by (simp add: New_node_def)
  ultimately show ?thesis by (intro exI [of _ ?n2] conjI)
qed

theorem process_refines_service_witness:
  "\<exists>cfg pr (nd :: (unit \<times> tx_call list) proc). wire sample_sys sample_deps = Inr (cfg, pr) \<and> service_step\<^sup>*\<^sup>* idle_service (service_of nd) \<and>
     questions (image_mset tk_Reply (waiting (nd_world nd))) + mset (map fst (hs_out (nd_state nd))) = {#''_INBOX.1''#}"
proof -
  obtain cfg pr where pr: "wire sample_sys sample_deps = Inr (cfg, pr)" "encodes (pr_env pr)" using sample_wired by blast
  obtain nd where nd: "(node_step (pr_env pr) (nat (pr_workers pr)))\<^sup>*\<^sup>* (New_node (pr_pool pr) (nat (pr_workers pr)) (pr_state pr)) nd"
    "nd_asked nd = {#''_INBOX.1''#}"
    using sample_closing [OF pr(1)] by blast
  note c = process_refines_service [OF pr nd(1)]
  show ?thesis using pr(1) conjunct1 [OF c] conjunct2 [OF c, symmetric] unfolding nd(2) by (intro exI [of _ cfg] exI [of _ pr] exI [of _ nd] conjI)
qed

theorem stopping_completes_witness:
  "\<exists>cfg pr (nd :: (unit \<times> tx_call list) proc) nd'. wire sample_sys sample_deps = Inr (cfg, pr) \<and> nd_asked nd = {#''_INBOX.1''#} \<and>
     (node_step (pr_env pr) (nat (pr_workers pr)))\<^sup>*\<^sup>* nd nd' \<and> finished (nd_world nd') \<and> nd_loop nd' = Ended \<and>
     sk_pending (hs_sink (nd_state nd')) = []"
proof -
  obtain cfg pr where pr: "wire sample_sys sample_deps = Inr (cfg, pr)" "encodes (pr_env pr)" using sample_wired by blast
  obtain nd where nd: "(node_step (pr_env pr) (nat (pr_workers pr)))\<^sup>*\<^sup>* (New_node (pr_pool pr) (nat (pr_workers pr)) (pr_state pr)) nd"
    "nd_asked nd = {#''_INBOX.1''#}" "pl_closed (w_pool (nd_world nd))" "nd_loop nd = Looping"
    using sample_closing [OF pr(1)] by blast
  obtain nd' where nd': "(node_step (pr_env pr) (nat (pr_workers pr)))\<^sup>*\<^sup>* nd nd'" "finished (nd_world nd')" "nd_loop nd' = Ended"
    "nd_loop nd = Ended \<or> sk_pending (hs_sink (nd_state nd')) = []"
    using conjunct1 [OF stopping_completes [OF pr nd(1,3)]] by (elim exE conjE)
  have "sk_pending (hs_sink (nd_state nd')) = []" using nd'(4) nd(4) by simp
  then show ?thesis using pr(1) nd(2) nd'(1-3) by (intro exI [of _ cfg] exI [of _ pr] exI [of _ nd] exI [of _ nd'] conjI)
qed

theorem late_event_is_lost_witness:
  "\<exists>nd it. (node_step sample_env 1)\<^sup>*\<^sup>* (New_node sample_pool 1 sample_state) nd \<and> nd_loop nd = Ended \<and>
     map fst (hs_out (nd_state nd)) = [''_INBOX.1''] \<and>
     nd_events nd = [it] \<and> it_subject it = ''waf.audit.n1'' \<and> sk_pending (hs_sink (nd_state nd)) = [it]"
proof -
  let ?nd = "stopped_node (closing_world (Close_pool sample_pool) {#Expiring sample_task 0#} 1) Ended"
  have start: "(node_step sample_env 1)\<^sup>*\<^sup>* (New_node (New_pool 4 10 5 '''') 1 sample_state) ?nd"
    by (subst sample_pool_def [symmetric]) (rule stopped_while_submitting(1))
  have events: "\<forall>ev. \<exists>b. he_event sample_env ev = Inr b" by (simp add: sample_env_def)
  have nd: "nd_loop ?nd = Ended" "sk_pending (hs_sink (nd_state ?nd)) = []" "w_jobs (nd_world ?nd) = add_mset (Expiring sample_task 0) {#}"
    "hs_out (nd_state ?nd) = []" "nd_events ?nd = []"
    by (simp_all add: stopped_node_def fresh_state_def NewSink_def)
  have t: "tk_Reply sample_task = ''_INBOX.1''" "tk_Reply sample_task \<noteq> ''''" "req_AuditSubject (tk_Req sample_task) = Some ''waf.audit.n1''"
    "''waf.audit.n1'' \<noteq> ''''"
    by (simp_all add: sample_task_def sample_request_def)
  obtain nd' it where nd': "node_step sample_env 1 ?nd nd'" "map fst (hs_out (nd_state nd')) = [''_INBOX.1'']" "it_subject it = ''waf.audit.n1''"
    "nd_events nd' = [it]" "sk_pending (hs_sink (nd_state nd')) = [it]"
    using late_event_is_lost [OF sample_encodes events start nd(1,2,3) t(2,3,4), unfolded nd(4,5) t(1)]
    by auto
  have "nd_loop nd' = Ended" using ended_is_final [OF nd'(1) nd(1)] by blast
  then show ?thesis using rtranclp.rtrancl_into_rtrancl [OF stopped_while_submitting(1) nd'(1)] nd'(2-5)
    by (intro exI [of _ nd'] exI [of _ it] conjI)
qed

end
