(* ===== verification/Probe.thy ===== *)
theory Probe
  imports Startup
begin

text \<open>
  The probe, \<^verbatim>\<open>cmd/probe/main.go\<close>: a client that places headers, query string and response body in
  Redis, sends one message to the inspector and checks the verdict.  The bus and Redis are the world
  \<open>'w\<close>: each call of their clients takes it and returns it, with an error or a result.  The lemmas show
  that the probe and the inspector agree on the message and on the stored objects, so that the engine
  sees what the flags say.
\<close>

unbundle bit_operations_syntax

section \<open>The world of the probe\<close>

type_synonym ('w, 'a) call = "'w \<Rightarrow> (string + 'a) \<times> 'w"

text \<open>What the Redis client does: \<^verbatim>\<open>Set\<close>, and the server a reader sees.\<close>

record 'w redis_server =
  rv_Set :: "string \<Rightarrow> bytes \<Rightarrow> duration \<Rightarrow> ('w, unit) call"
  rv_at :: "'w \<Rightarrow> redis_client"

definition RedisStore_Put :: "'w redis_server \<Rightarrow> string \<Rightarrow> bytes \<Rightarrow> duration \<Rightarrow> ('w, unit) call" where
  "RedisStore_Put srv key val ttl w = rv_Set srv key val ttl w"

record 'w client_lib =
  ow_now :: int
  ow_rand :: "8 word list"
  ow_Connect :: "string \<Rightarrow> duration \<Rightarrow> ('w, unit) call"
  ow_SubscribeSync :: "string \<Rightarrow> ('w, unit) call"
  ow_Request :: "string \<Rightarrow> bytes \<Rightarrow> duration \<Rightarrow> ('w, bytes) call"
  ow_NextMsg :: "string \<Rightarrow> duration \<Rightarrow> ('w, bytes) call"
  ow_ParseURL :: "string \<Rightarrow> string option"
  ow_redis :: "'w redis_server"
  ow_headers :: "Header list \<Rightarrow> string + bytes"
  ow_marshal :: "Request \<Rightarrow> string + bytes"
  ow_unmarshal :: "bytes \<Rightarrow> string + Reply"
  ow_print :: "Reply \<Rightarrow> string + bytes"

section \<open>Flags\<close>

definition storeTTL :: duration where
  "storeTTL = 60 * Second"

record probe =
  pb_servers :: string
  pb_subject :: string
  pb_name :: string
  pb_redisURL :: string
  pb_profile :: string
  pb_uri :: string
  pb_method :: string
  pb_userAgent :: string
  pb_clientIP :: string
  pb_expect :: string
  pb_timeout :: duration
  pb_quiet :: bool
  pb_phase :: string
  pb_status :: int
  pb_responseBody :: string
  pb_auditSubject :: string

definition default_probe :: "sys \<Rightarrow> probe" where
  "default_probe s =
     \<lparr>pb_servers = env s ''NATS_URL'' ''nats://127.0.0.1:4222'', pb_subject = env s ''WAF_MODSEC_SUBJECT'' ''waf.req.modsec'',
      pb_name = env s ''WAF_MODSEC_NAME'' ''modsec'', pb_redisURL = env s ''REDIS_URL'' '''', pb_profile = ''default'',
      pb_uri = ''/healthcheck'', pb_method = ''GET'', pb_userAgent = ''modsec-probe'', pb_clientIP = ''127.0.0.1'',
      pb_expect = '''', pb_timeout = Second, pb_quiet = False, pb_phase = PhaseRequest, pb_status = 200,
      pb_responseBody = '''', pb_auditSubject = ''''\<rparr>"

text \<open>
  \<^verbatim>\<open>flag.Parse\<close>: an argument \<^verbatim>\<open>-name=value\<close> or \<^verbatim>\<open>-name value\<close>, with one or two dashes; it stops at the first
  argument that is no flag and after \<^verbatim>\<open>--\<close>.  \<open>parseInt\<close> is \<^verbatim>\<open>strconv.ParseInt\<close> with the base taken
  from the prefix.
\<close>

datatype flag_error = BadSyntax string | NotDefined string | Help | NeedsArgument string | InvalidValue string string

datatype flag_arg = NoFlag | BadFlag | Flag string "string option"

definition flag_arg :: "string \<Rightarrow> flag_arg" where
  "flag_arg s =
     (if length s < 2 \<or> hd s \<noteq> CHR ''-'' \<or> s = ''--'' then NoFlag
      else
       (let name = (if s ! 1 = CHR ''-'' then drop 2 s else drop 1 s)
        in if hd name = CHR ''-'' \<or> hd name = CHR ''='' then BadFlag
           else (case Cut (tl name) ''='' of
             None \<Rightarrow> Flag name None
           | Some (rest, val) \<Rightarrow> Flag (hd name # rest) (Some val))))"

definition ParseBool :: "string \<Rightarrow> bool option" where
  "ParseBool s =
     (if s \<in> {''1'', ''t'', ''T'', ''TRUE'', ''true'', ''True''} then Some True
      else if s \<in> {''0'', ''f'', ''F'', ''FALSE'', ''false'', ''False''} then Some False
      else None)"

definition string_flags :: "(string \<times> (string \<Rightarrow> probe \<Rightarrow> probe)) list" where
  "string_flags =
     [(''servers'', \<lambda>v. pb_servers_update (\<lambda>_. v)), (''subject'', \<lambda>v. pb_subject_update (\<lambda>_. v)),
      (''inspector'', \<lambda>v. pb_name_update (\<lambda>_. v)), (''redis'', \<lambda>v. pb_redisURL_update (\<lambda>_. v)),
      (''profile'', \<lambda>v. pb_profile_update (\<lambda>_. v)), (''uri'', \<lambda>v. pb_uri_update (\<lambda>_. v)),
      (''method'', \<lambda>v. pb_method_update (\<lambda>_. v)), (''user-agent'', \<lambda>v. pb_userAgent_update (\<lambda>_. v)),
      (''client-ip'', \<lambda>v. pb_clientIP_update (\<lambda>_. v)), (''expect'', \<lambda>v. pb_expect_update (\<lambda>_. v)),
      (''phase'', \<lambda>v. pb_phase_update (\<lambda>_. v)), (''response-body'', \<lambda>v. pb_responseBody_update (\<lambda>_. v)),
      (''audit-subject'', \<lambda>v. pb_auditSubject_update (\<lambda>_. v))]"

definition known_flag :: "string \<Rightarrow> bool" where
  "known_flag name \<longleftrightarrow> name \<in> {''timeout'', ''quiet'', ''status''} \<or> map_of string_flags name \<noteq> None"

definition set_flag :: "(string \<Rightarrow> int option) \<Rightarrow> string \<Rightarrow> string \<Rightarrow> probe \<Rightarrow> flag_error + probe" where
  "set_flag parseInt name val p =
     (if name = ''timeout'' then
        (case ParseDuration val of None \<Rightarrow> Inl (InvalidValue name val) | Some d \<Rightarrow> Inr (p\<lparr>pb_timeout := d\<rparr>))
      else if name = ''quiet'' then
        (case ParseBool val of None \<Rightarrow> Inl (InvalidValue name val) | Some b \<Rightarrow> Inr (p\<lparr>pb_quiet := b\<rparr>))
      else if name = ''status'' then
        (case parseInt val of None \<Rightarrow> Inl (InvalidValue name val) | Some n \<Rightarrow> Inr (p\<lparr>pb_status := n\<rparr>))
      else (case map_of string_flags name of Some set' \<Rightarrow> Inr (set' val p) | None \<Rightarrow> Inl (NotDefined name)))"

fun parse_flags :: "(string \<Rightarrow> int option) \<Rightarrow> string list \<Rightarrow> probe \<Rightarrow> flag_error + probe" where
  "parse_flags parseInt [] p = Inr p"
| "parse_flags parseInt (s # args) p = (case flag_arg s of
     NoFlag \<Rightarrow> Inr p
   | BadFlag \<Rightarrow> Inl (BadSyntax s)
   | Flag name val \<Rightarrow>
       if \<not> known_flag name then Inl (if name = ''help'' \<or> name = ''h'' then Help else NotDefined name)
       else (case (if name = ''quiet'' \<and> val = None then Some ''true'' else val) of
          Some v \<Rightarrow> (case set_flag parseInt name v p of Inl e \<Rightarrow> Inl e | Inr p' \<Rightarrow> parse_flags parseInt args p')
        | None \<Rightarrow> (case args of
              [] \<Rightarrow> Inl (NeedsArgument name)
            | v # args' \<Rightarrow> (case set_flag parseInt name v p of Inl e \<Rightarrow> Inl e | Inr p' \<Rightarrow> parse_flags parseInt args' p'))))"

section \<open>The message\<close>

text \<open>\<^verbatim>\<open>strings.Cut\<close> at the question mark: without one the whole address is the path.\<close>

definition cut_uri :: "string \<Rightarrow> string \<times> string" where
  "cut_uri uri = (case Cut uri ''?'' of Some parts \<Rightarrow> parts | None \<Rightarrow> (uri, ''''))"

definition hex_lower :: "nat \<Rightarrow> char" where
  "hex_lower n = (if n < 10 then char_of (48 + n) else char_of (87 + n))"

fun hex_digits :: "nat \<Rightarrow> string" where
  "hex_digits n = (if n < 16 then [hex_lower n] else hex_digits (n div 16) @ [hex_lower (n mod 16)])"

declare hex_digits.simps [simp del]

definition pad_zero :: "nat \<Rightarrow> string \<Rightarrow> string" where
  "pad_zero width s = replicate (width - length s) (CHR ''0'') @ s"

text \<open>\<^verbatim>\<open>fmt.Sprintf("%016x", n)\<close>: the sign takes one of the 16 places.\<close>

definition hex16 :: "int \<Rightarrow> string" where
  "hex16 n = (if n < 0 then CHR ''-'' # pad_zero 15 (hex_digits (nat (- n))) else pad_zero 16 (hex_digits (nat n)))"

definition hex_bytes :: "8 word list \<Rightarrow> string" where
  "hex_bytes bs = concat (map (\<lambda>b. [hex_lower (unat b div 16), hex_lower (unat b mod 16)]) bs)"

text \<open>\<open>rnd\<close> are the 16 bytes of \<^verbatim>\<open>rand.Read\<close>.\<close>

definition uuid_bits :: "8 word list \<Rightarrow> 8 word list" where
  "uuid_bits rnd = (let b = rnd[6 := (rnd ! 6 AND 0x0F) OR 0x40] in b[8 := (b ! 8 AND 0x3F) OR 0x80])"

definition uuid4 :: "8 word list \<Rightarrow> string" where
  "uuid4 rnd =
     (let b = uuid_bits rnd
      in hex_bytes (take 4 b) @ ''-'' @ hex_bytes (take 2 (drop 4 b)) @ ''-'' @ hex_bytes (take 2 (drop 6 b)) @ ''-'' @
         hex_bytes (take 2 (drop 8 b)) @ ''-'' @ hex_bytes (take 6 (drop 10 b)))"

abbreviation (input) NeedHeaders :: string where "NeedHeaders \<equiv> ''headers''"
abbreviation (input) NeedArgs :: string where "NeedArgs \<equiv> ''args''"
abbreviation (input) NeedBody :: string where "NeedBody \<equiv> ''body''"

abbreviation (input) no_store :: Store where
  "no_store \<equiv> \<lparr>st_Headers = None, st_Args = None, st_Body = None\<rparr>"

definition base_request :: "int \<Rightarrow> probe \<Rightarrow> Request" where
  "base_request now p = (case cut_uri (pb_uri p) of (path, args) \<Rightarrow>
     \<lparr>req_V = Protocol.Version, req_RID = hex16 now, req_Ray = '''', req_Phase = pb_phase p, req_Wave = 0, req_Inspector = pb_name p,
      req_DeadlineMS = trunc_div (pb_timeout p) Millisecond, req_AuditSubject = None, req_Node = ''probe'',
      req_Conn = \<lparr>conn_ClientIP = pb_clientIP p, conn_ClientPort = 12345, conn_ServerIP = ''127.0.0.1'', conn_ServerPort = 8080,
        conn_TLS = None\<rparr>,
      req_HTTP = \<lparr>http_Method = pb_method p, http_Scheme = ''http'', http_Host = ''probe.local'', http_URI = path,
        http_ArgsSize = int (length args), http_Version = ''HTTP/1.1''\<rparr>,
      req_Vars = [], req_Needs = [NeedHeaders, NeedArgs], req_Store = no_store,
      req_Route = \<lparr>rt_ServerName = ''probe.local'', rt_Location = ''/'', rt_Profile = pb_profile p\<rparr>,
      req_Score = \<lparr>sc_Total = 0, sc_DenyAt = 100\<rparr>, req_Prior = [], req_Response = None, req_RequestStore = no_store,
      req_Resume = None, req_Release = None, req_ConnID = '''', req_Seq = 0, req_Stream = None\<rparr>)"

definition request :: "int \<Rightarrow> 8 word list \<Rightarrow> probe \<Rightarrow> Request" where
  "request now rnd p =
     (let req = base_request now p;
          req1 = (if pb_phase p = PhaseResponse
            then req\<lparr>req_Needs := [NeedHeaders, NeedBody],
                     req_Response := Some \<lparr>rsp_Status = pb_status p, rsp_Headers = [], rsp_UpstreamMS = 0\<rparr>\<rparr>
            else req)
      in if pb_auditSubject p \<noteq> '''' then req1\<lparr>req_Ray := uuid4 rnd, req_AuditSubject := Some (pb_auditSubject p)\<rparr> else req1)"

section \<open>Placing the objects\<close>

definition probe_locator :: "string \<Rightarrow> bytes \<Rightarrow> Locator" where
  "probe_locator key data =
     \<lparr>loc_Store = ''probe'', loc_Driver = ''redis'', loc_Key = key, loc_Unavailable = '''', loc_Size = int (length data),
      loc_DeclaredSize = 0, loc_SHA256 = '''', loc_ProcessedSHA256 = '''', loc_Transformed = False, loc_Complete = True,
      loc_Truncated = False, loc_Encoding = '''', loc_ExpiresAt = 0, loc_Hint = '''', loc_Enc = None\<rparr>"

definition put_object :: "'w redis_server \<Rightarrow> string \<Rightarrow> bytes \<Rightarrow> ('w, Locator) call" where
  "put_object srv key data w = (case RedisStore_Put srv key data storeTTL w of
     (Inl e, w') \<Rightarrow> (Inl e, w')
   | (Inr _, w') \<Rightarrow> (Inr (probe_locator key data), w'))"

text \<open>One call after another; an error stops.\<close>

definition then_call :: "('w, 'a) call \<Rightarrow> ('a \<Rightarrow> ('w, 'b) call) \<Rightarrow> ('w, 'b) call" where
  "then_call f g w = (case f w of (Inl e, w') \<Rightarrow> (Inl e, w') | (Inr x, w') \<Rightarrow> g x w')"

definition lift_call :: "string + 'a \<Rightarrow> ('w, 'a) call" where
  "lift_call r w = (r, w)"

definition request_headers :: "probe \<Rightarrow> Header list" where
  "request_headers p = [(''host'', ''probe.local''), (''user-agent'', pb_userAgent p), (''accept'', ''*/*'')]"

definition response_headers :: "Header list" where
  "response_headers = [(''content-type'', ''text/html; charset=utf-8'')]"

text \<open>\<open>place_request\<close> fills the store of the request's own objects, \<open>place_response\<close> the one of the response.\<close>

definition place_request :: "'w client_lib \<Rightarrow> string \<Rightarrow> probe \<Rightarrow> ('w, Store) call" where
  "place_request ow base p =
     then_call (lift_call (ow_headers ow (request_headers p))) (\<lambda>hdr.
     then_call (put_object (ow_redis ow) (base @ '':req:hdr'') hdr) (\<lambda>h.
       let args = snd (cut_uri (pb_uri p)) in
       if args \<noteq> ''''
       then then_call (put_object (ow_redis ow) (base @ '':req:arg'') args) (\<lambda>a.
         lift_call (Inr \<lparr>st_Headers = Some h, st_Args = Some a, st_Body = None\<rparr>))
       else lift_call (Inr \<lparr>st_Headers = Some h, st_Args = None, st_Body = None\<rparr>)))"

definition place_response :: "'w client_lib \<Rightarrow> string \<Rightarrow> probe \<Rightarrow> ('w, Store) call" where
  "place_response ow base p =
     then_call (lift_call (ow_headers ow response_headers)) (\<lambda>hdr.
     then_call (put_object (ow_redis ow) (base @ '':rsp:hdr'') hdr) (\<lambda>h.
     then_call (put_object (ow_redis ow) (base @ '':rsp:body'') (pb_responseBody p)) (\<lambda>b.
       lift_call (Inr \<lparr>st_Headers = Some h, st_Args = None, st_Body = Some b\<rparr>))))"

definition place :: "'w client_lib \<Rightarrow> Request \<Rightarrow> probe \<Rightarrow> ('w, Request) call" where
  "place ow req p =
     (if pb_redisURL p = '''' then lift_call (Inr (req\<lparr>req_Needs := []\<rparr>))
      else (case ow_ParseURL ow (pb_redisURL p) of
        Some e \<Rightarrow> lift_call (Inl e)
      | None \<Rightarrow>
         (let base = ''probe:'' @ req_RID req in
          then_call (place_request ow base p) (\<lambda>own.
            if pb_phase p \<noteq> PhaseResponse then lift_call (Inr (req\<lparr>req_Store := own\<rparr>))
            else then_call (place_response ow base p) (\<lambda>rsp.
              lift_call (Inr (req\<lparr>req_RequestStore := own, req_Store := rsp\<rparr>)))))))"

section \<open>One run\<close>

datatype probe_error =
    BadPhase string | Failed string | NoVerdict string string | MalformedReply string | NoEvent string string
  | WrongVerdict string string

text \<open>The lines printed, and the error if there is one; the call order is the code's.\<close>

definition check_verdict :: "probe \<Rightarrow> Reply \<Rightarrow> probe_error option" where
  "check_verdict p reply =
     (if pb_expect p \<noteq> '''' \<and> rp_Verdict reply \<noteq> pb_expect p then Some (WrongVerdict (rp_Verdict reply) (pb_expect p)) else None)"

definition read_event :: "'w client_lib \<Rightarrow> probe \<Rightarrow> Reply \<Rightarrow> string list \<Rightarrow> 'w \<Rightarrow> (string list \<times> probe_error option) \<times> 'w" where
  "read_event ow p reply lines w =
     (if pb_auditSubject p = '''' then ((lines, check_verdict p reply), w)
      else (case ow_NextMsg ow (pb_auditSubject p) (pb_timeout p) w of
        (Inl e, w') \<Rightarrow> ((lines, Some (NoEvent (pb_auditSubject p) e)), w')
      | (Inr data, w') \<Rightarrow> ((if pb_quiet p then lines else lines @ [data], check_verdict p reply), w')))"

definition ask_inspector :: "'w client_lib \<Rightarrow> probe \<Rightarrow> Request \<Rightarrow> 'w \<Rightarrow> (string list \<times> probe_error option) \<times> 'w" where
  "ask_inspector ow p req w = (case ow_marshal ow req of
     Inl e \<Rightarrow> (([], Some (Failed e)), w)
   | Inr payload \<Rightarrow> (case ow_Request ow (pb_subject p) payload (pb_timeout p) w of
       (Inl e, w1) \<Rightarrow> (([], Some (NoVerdict (pb_subject p) e)), w1)
     | (Inr data, w1) \<Rightarrow> (case ow_unmarshal ow data of
         Inl e \<Rightarrow> (([], Some (MalformedReply e)), w1)
       | Inr reply \<Rightarrow>
           read_event ow p reply
             (if pb_quiet p then [] else [case ow_print ow reply of Inl _ \<Rightarrow> '''' | Inr out \<Rightarrow> out]) w1)))"

definition connect :: "'w client_lib \<Rightarrow> probe \<Rightarrow> ('w, unit) call" where
  "connect ow p = then_call (ow_Connect ow (pb_servers p) (pb_timeout p)) (\<lambda>_.
     if pb_auditSubject p \<noteq> '''' then ow_SubscribeSync ow (pb_auditSubject p) else lift_call (Inr ()))"

definition probe_run :: "'w client_lib \<Rightarrow> probe \<Rightarrow> 'w \<Rightarrow> (string list \<times> probe_error option) \<times> 'w" where
  "probe_run ow p w =
     (if pb_phase p \<noteq> PhaseRequest \<and> pb_phase p \<noteq> PhaseResponse then (([], Some (BadPhase (pb_phase p))), w)
      else (case then_call (connect ow p) (\<lambda>_. place ow (request (ow_now ow) (ow_rand ow) p) p) w of
        (Inl e, w') \<Rightarrow> (([], Some (Failed e)), w')
      | (Inr req, w') \<Rightarrow> ask_inspector ow p req w'))"

text \<open>The exit code: flag errors end the process in \<^verbatim>\<open>flag.Parse\<close>, a request for help with 0.\<close>

definition main_probe :: "sys \<Rightarrow> (string \<Rightarrow> int option) \<Rightarrow> string list \<Rightarrow> 'w client_lib \<Rightarrow> 'w \<Rightarrow> int \<times> 'w" where
  "main_probe s parseInt args ow w = (case parse_flags parseInt args (default_probe s) of
     Inl Help \<Rightarrow> (0, w)
   | Inl _ \<Rightarrow> (2, w)
   | Inr p \<Rightarrow> (case probe_run ow p w of ((_, None), w') \<Rightarrow> (0, w') | ((_, Some _), w') \<Rightarrow> (1, w')))"

section \<open>What the Redis server promises\<close>

text \<open>
  SET makes GET find the value under its key and leaves the other keys alone; nothing expires within the
  minute the objects live.
\<close>

locale redis_writes =
  fixes srv :: "'w redis_server"
  assumes set_get: "rv_Set srv key val ttl w = (Inr (), w') \<Longrightarrow> rc_Get (rv_at srv w') key = Inr val"
    and set_other: "rv_Set srv k1 v1 t1 w1 = (res, w2) \<Longrightarrow> k2 \<noteq> k1 \<Longrightarrow> rc_Get (rv_at srv w1) k2 = Inr v2 \<Longrightarrow>
      rc_Get (rv_at srv w2) k2 = Inr v2"
    and reader: "redis (rv_at srv w0)"
begin

lemma put_object_stored:
  assumes "put_object srv key data w = (Inr loc, w')"
  shows "loc = probe_locator key data" "rc_Get (rv_at srv w') key = Inr data"
  using assms set_get [of key data storeTTL w w']
  by (auto simp: put_object_def RedisStore_Put_def split: prod.splits sum.splits)

lemma put_object_keeps:
  assumes "put_object srv key data w = (res, w')" "k \<noteq> key" "rc_Get (rv_at srv w) k = Inr v"
  shows "rc_Get (rv_at srv w') k = Inr v"
  using assms set_other [of key data storeTTL w _ w' k v]
  by (auto simp: put_object_def RedisStore_Put_def split: prod.splits sum.splits)

end

lemma then_call_Inr:
  "then_call f g w = (Inr y, w'') \<longleftrightarrow> (\<exists>x w'. f w = (Inr x, w') \<and> g x w' = (Inr y, w''))"
  by (auto simp: then_call_def split: prod.splits sum.splits)

lemma lift_call_Inr: "lift_call r w = (Inr x, w') \<longleftrightarrow> r = Inr x \<and> w' = w"
  by (auto simp: lift_call_def)

lemmas call_simps = then_call_Inr lift_call_Inr

text \<open>A locator of an object the server holds.\<close>

definition stored_at :: "redis_client \<Rightarrow> string \<Rightarrow> bytes \<Rightarrow> Locator option \<Rightarrow> bool" where
  "stored_at client key data loc \<longleftrightarrow> loc = Some (probe_locator key data) \<and> rc_Get client key = Inr data"

text \<open>The query string is only placed when there is one.\<close>

definition stored_args :: "redis_client \<Rightarrow> string \<Rightarrow> bytes \<Rightarrow> Locator option \<Rightarrow> bool" where
  "stored_args client key data loc \<longleftrightarrow> (if data = '''' then loc = None else stored_at client key data loc)"

lemma stored_at_later:
  "stored_at client key data loc \<Longrightarrow> (rc_Get client key = Inr data \<Longrightarrow> rc_Get later key = Inr data) \<Longrightarrow> stored_at later key data loc"
  by (simp add: stored_at_def)

lemma stored_args_later:
  "stored_args client key data loc \<Longrightarrow> (rc_Get client key = Inr data \<Longrightarrow> rc_Get later key = Inr data) \<Longrightarrow> stored_args later key data loc"
  by (simp add: stored_args_def stored_at_def split: if_splits)

context redis_writes
begin

lemma place_request_stored:
  assumes "place_request ow base p w = (Inr s, w')" "ow_redis ow = srv" "snd (cut_uri (pb_uri p)) = args"
  obtains hdr where "ow_headers ow (request_headers p) = Inr hdr" "st_Body s = None"
    "stored_at (rv_at srv w') (base @ '':req:hdr'') hdr (st_Headers s)"
    "stored_args (rv_at srv w') (base @ '':req:arg'') args (st_Args s)"
proof -
  obtain hdr h w1 where h: "ow_headers ow (request_headers p) = Inr hdr"
    "put_object srv (base @ '':req:hdr'') hdr w = (Inr h, w1)"
    and rest: "if args = '''' then s = \<lparr>st_Headers = Some h, st_Args = None, st_Body = None\<rparr> \<and> w' = w1
      else \<exists>a. put_object srv (base @ '':req:arg'') args w1 = (Inr a, w') \<and> s = \<lparr>st_Headers = Some h, st_Args = Some a, st_Body = None\<rparr>"
    using assms by (auto simp: place_request_def call_simps Let_def split: if_splits)
  show ?thesis
    by (rule that [OF h(1)]; insert rest put_object_stored [OF h(2)] put_object_stored [of "base @ '':req:arg''" args w1 _ w']
      put_object_keeps [of "base @ '':req:arg''" args w1 _ w' "base @ '':req:hdr''" hdr])
      (auto simp: stored_at_def stored_args_def split: if_splits)
qed

lemma place_response_stored:
  assumes "place_response ow base p w = (Inr s, w')" "ow_redis ow = srv"
  obtains hdr where "ow_headers ow response_headers = Inr hdr" "st_Args s = None"
    "stored_at (rv_at srv w') (base @ '':rsp:hdr'') hdr (st_Headers s)"
    "stored_at (rv_at srv w') (base @ '':rsp:body'') (pb_responseBody p) (st_Body s)"
    "\<And>k v. k \<notin> {base @ '':rsp:hdr'', base @ '':rsp:body''} \<Longrightarrow> rc_Get (rv_at srv w) k = Inr v \<Longrightarrow> rc_Get (rv_at srv w') k = Inr v"
proof -
  obtain hdr h b w1 where h: "ow_headers ow response_headers = Inr hdr"
    "put_object srv (base @ '':rsp:hdr'') hdr w = (Inr h, w1)"
    "put_object srv (base @ '':rsp:body'') (pb_responseBody p) w1 = (Inr b, w')"
    "s = \<lparr>st_Headers = Some h, st_Args = None, st_Body = Some b\<rparr>"
    using assms by (auto simp: place_response_def call_simps)
  show ?thesis
    by (rule that [OF h(1)])
      (use put_object_stored [OF h(2)] put_object_stored [OF h(3)] put_object_keeps [OF h(2)] put_object_keeps [OF h(3)] h(4) in
        \<open>auto simp: stored_at_def\<close>)
qed

lemma Load_stored:
  assumes "stored_at (rv_at srv w) key data loc" "ld_store l = Some (RedisStore (rv_at srv w))"
  shows "Load l loc = Some \<lparr>bd_Data = data, bd_Truncated = False, bd_Unavailable = '''', bd_SHA256 = cl_SHA256 (ld_crypto l) data\<rparr>"
  using assms by (simp add: stored_at_def Load_def probe_locator_def RedisStore_def RedisStore_Get_def finish_def verify_def wanted_def Let_def)

lemma LoadMany_server: "ld_store l = Some (RedisStore (rv_at srv w)) \<Longrightarrow> LoadMany l locs = those (map (Load l) locs)"
  by (rule redis.batch_agrees [OF reader])

end

section \<open>What the engine sees\<close>

definition ascii :: "string \<Rightarrow> bool" where
  "ascii s \<longleftrightarrow> list_all (\<lambda>c. (of_char c :: nat) < 128) s"

text \<open>The JSON codec of header lists: on ASCII, the decoder returns what was encoded; no encoding is empty.\<close>

definition header_codec :: "(Header list \<Rightarrow> string + bytes) \<Rightarrow> (bytes \<Rightarrow> string + Header list) \<Rightarrow> bool" where
  "header_codec enc dec \<longleftrightarrow> (\<forall>hs. list_all (\<lambda>(k, v). ascii k \<and> ascii v) hs \<longrightarrow> (\<exists>b. enc hs = Inr b \<and> b \<noteq> [] \<and> dec b = Inr hs))"

definition probe_input :: "int \<Rightarrow> probe \<Rightarrow> Input" where
  "probe_input now p =
     \<lparr>in_RID = hex16 now, in_ClientIP = pb_clientIP p, in_ClientPort = 12345, in_ServerIP = ''127.0.0.1'', in_ServerPort = 8080,
      in_Method = pb_method p, in_URI = fst (cut_uri (pb_uri p)), in_Args = snd (cut_uri (pb_uri p)), in_Version = ''HTTP/1.1'',
      in_Host = ''probe.local'', in_Headers = request_headers p, in_Body = [], in_BodyTruncated = False\<rparr>"

definition probe_response :: "probe \<Rightarrow> ResponseInput" where
  "probe_response p = \<lparr>ri_Status = (if pb_status p = 0 then 200 else pb_status p), ri_Proto = '''', ri_Headers = response_headers,
     ri_Body = pb_responseBody p, ri_BodyTruncated = False\<rparr>"

definition probe_engine_call :: "'s Engine \<Rightarrow> int \<Rightarrow> probe \<Rightarrow> int \<Rightarrow> 's option \<times> (string + EngineOutcome)" where
  "probe_engine_call e now p us =
     (if pb_phase p = PhaseResponse then ApplyResponse_tx e (probe_input now p) (probe_response p) us
      else Apply e (probe_input now p) us)"

lemma headers_decoded:
  assumes "header_codec enc (he_pairs he)" "list_all (\<lambda>(k, v). ascii k \<and> ascii v) hs" "enc hs = Inr b"
    "Available loaded" "bd_Data loaded = b"
  shows "headers he loaded = hs"
  using assms by (auto simp: header_codec_def headers_def)

lemma probe_headers_ascii:
  "ascii (pb_userAgent p) \<Longrightarrow> list_all (\<lambda>(k, v). ascii k \<and> ascii v) (request_headers p)"
  "list_all (\<lambda>(k, v). ascii k \<and> ascii v) response_headers"
  by (simp_all add: request_headers_def response_headers_def, simp_all add: ascii_def)

lemma request_fields:
  "req_Prior (request now rnd p) = []" "req_Resume (request now rnd p) = None" "req_Release (request now rnd p) = None"
  "req_Phase (request now rnd p) = pb_phase p" "req_RID (request now rnd p) = hex16 now"
  "req_V (request now rnd p) = Protocol.Version" "req_Inspector (request now rnd p) = pb_name p"
  "req_Route (request now rnd p) = \<lparr>rt_ServerName = ''probe.local'', rt_Location = ''/'', rt_Profile = pb_profile p\<rparr>"
  "http_Method (req_HTTP (request now rnd p)) = pb_method p" "http_URI (req_HTTP (request now rnd p)) = fst (cut_uri (pb_uri p))"
  "req_Store (request now rnd p) = no_store" "req_RequestStore (request now rnd p) = no_store"
  "pb_phase p = PhaseResponse \<Longrightarrow> responseStatus (request now rnd p) = (if pb_status p = 0 then 200 else pb_status p)"
  "input (request now rnd p) args hdr b = (probe_input now p)\<lparr>in_Args := args, in_Headers := hdr, in_Body := bd_Data b\<rparr>"
  by (simp_all add: request_def base_request_def Let_def responseStatus_def input_def probe_input_def split: prod.splits)

text \<open>Where the objects are after \<open>place\<close>.\<close>

definition placed :: "'w client_lib \<Rightarrow> probe \<Rightarrow> redis_client \<Rightarrow> string \<Rightarrow> Request \<Rightarrow> Request \<Rightarrow> bool" where
  "placed ow p client base req req' \<longleftrightarrow>
     (\<exists>hdr own. ow_headers ow (request_headers p) = Inr hdr \<and> st_Body own = None \<and>
        stored_at client (base @ '':req:hdr'') hdr (st_Headers own) \<and>
        stored_args client (base @ '':req:arg'') (snd (cut_uri (pb_uri p))) (st_Args own) \<and>
        (if pb_phase p \<noteq> PhaseResponse then req' = req\<lparr>req_Store := own\<rparr>
         else \<exists>rsp hdr'. req' = req\<lparr>req_RequestStore := own, req_Store := rsp\<rparr> \<and> ow_headers ow response_headers = Inr hdr' \<and>
            st_Args rsp = None \<and> stored_at client (base @ '':rsp:hdr'') hdr' (st_Headers rsp) \<and>
            stored_at client (base @ '':rsp:body'') (pb_responseBody p) (st_Body rsp)))"

context redis_writes
begin

lemma place_placed:
  assumes "place ow req p w = (Inr req', w')" "ow_redis ow = srv" "pb_redisURL p \<noteq> ''''"
  shows "placed ow p (rv_at srv w') (''probe:'' @ req_RID req) req req'"
proof -
  let ?base = "''probe:'' @ req_RID req"
  obtain own w1 where own: "place_request ow ?base p w = (Inr own, w1)"
    and rest: "if pb_phase p \<noteq> PhaseResponse then req' = req\<lparr>req_Store := own\<rparr> \<and> w' = w1
      else \<exists>rsp. place_response ow ?base p w1 = (Inr rsp, w') \<and> req' = req\<lparr>req_RequestStore := own, req_Store := rsp\<rparr>"
    using assms by (auto simp: place_def call_simps Let_def split: if_splits option.splits)
  obtain hdr where hdr: "ow_headers ow (request_headers p) = Inr hdr" "st_Body own = None"
    "stored_at (rv_at srv w1) (?base @ '':req:hdr'') hdr (st_Headers own)"
    "stored_args (rv_at srv w1) (?base @ '':req:arg'') (snd (cut_uri (pb_uri p))) (st_Args own)"
    using place_request_stored [OF own assms(2) refl] by blast
  show ?thesis
  proof (cases "pb_phase p = PhaseResponse")
    case False
    then show ?thesis using hdr rest unfolding placed_def by auto
  next
    case True
    then obtain rsp where rsp: "place_response ow ?base p w1 = (Inr rsp, w')" "req' = req\<lparr>req_RequestStore := own, req_Store := rsp\<rparr>"
      using rest by auto
    obtain hdr' where h: "ow_headers ow response_headers = Inr hdr'" "st_Args rsp = None"
      "stored_at (rv_at srv w') (?base @ '':rsp:hdr'') hdr' (st_Headers rsp)"
      "stored_at (rv_at srv w') (?base @ '':rsp:body'') (pb_responseBody p) (st_Body rsp)"
      and kept: "\<And>k v. k \<notin> {?base @ '':rsp:hdr'', ?base @ '':rsp:body''} \<Longrightarrow> rc_Get (rv_at srv w1) k = Inr v \<Longrightarrow> rc_Get (rv_at srv w') k = Inr v"
      using place_response_stored [OF rsp(1) assms(2)] by blast
    have "stored_at (rv_at srv w') (?base @ '':req:hdr'') hdr (st_Headers own)"
      "stored_args (rv_at srv w') (?base @ '':req:arg'') (snd (cut_uri (pb_uri p))) (st_Args own)"
      using hdr(3,4) stored_at_later [OF _ kept] stored_args_later [OF _ kept] by simp_all
    moreover have "if pb_phase p \<noteq> PhaseResponse then req' = req\<lparr>req_Store := own\<rparr>
        else \<exists>rsp hdr'. req' = req\<lparr>req_RequestStore := own, req_Store := rsp\<rparr> \<and> ow_headers ow response_headers = Inr hdr' \<and>
          st_Args rsp = None \<and> stored_at (rv_at srv w') (?base @ '':rsp:hdr'') hdr' (st_Headers rsp) \<and>
          stored_at (rv_at srv w') (?base @ '':rsp:body'') (pb_responseBody p) (st_Body rsp)"
      unfolding True using h rsp(2) by (simp only: not_True_eq_False if_False simp_thms) blast
    ultimately show ?thesis using hdr(1,2) unfolding placed_def by blast
  qed
qed

end

lemma hex_digits_nonempty [simp]: "hex_digits n \<noteq> []"
  by (simp add: hex_digits.simps [of n])

lemma hex16_nonempty [simp]: "hex16 n \<noteq> []"
  by (simp add: hex16_def pad_zero_def)

lemma stored_locator_valid:
  "validate_locator None obj = None"
  "stored_at client key data loc \<Longrightarrow> key \<noteq> '''' \<Longrightarrow> validate_locator loc obj = None"
  "stored_args client key data loc \<Longrightarrow> key \<noteq> '''' \<Longrightarrow> validate_locator loc obj = None"
  by (auto simp: stored_at_def stored_args_def validate_locator_def probe_locator_def split: if_splits)

lemma placed_request:
  assumes "placed ow p client base req req'" "pb_phase p \<noteq> PhaseResponse"
  obtains hdr own where "ow_headers ow (request_headers p) = Inr hdr" "st_Body own = None"
    "stored_at client (base @ '':req:hdr'') hdr (st_Headers own)"
    "stored_args client (base @ '':req:arg'') (snd (cut_uri (pb_uri p))) (st_Args own)" "req' = req\<lparr>req_Store := own\<rparr>"
  using assms unfolding placed_def by (simp only: if_True simp_thms) blast

lemma placed_response:
  assumes "placed ow p client base req req'" "pb_phase p = PhaseResponse"
  obtains hdr own rsp hdr' where "ow_headers ow (request_headers p) = Inr hdr" "st_Body own = None"
    "stored_at client (base @ '':req:hdr'') hdr (st_Headers own)"
    "stored_args client (base @ '':req:arg'') (snd (cut_uri (pb_uri p))) (st_Args own)"
    "ow_headers ow response_headers = Inr hdr'" "st_Args rsp = None" "stored_at client (base @ '':rsp:hdr'') hdr' (st_Headers rsp)"
    "stored_at client (base @ '':rsp:body'') (pb_responseBody p) (st_Body rsp)"
    "req' = req\<lparr>req_RequestStore := own, req_Store := rsp\<rparr>"
  using assms(1) unfolding placed_def assms(2) by (simp only: if_False simp_thms not_True_eq_False) blast

lemma placed_fields:
  assumes "placed ow p client base req req'"
  shows "req_RID req' = req_RID req" "req_V req' = req_V req" "req_Inspector req' = req_Inspector req" "req_Phase req' = req_Phase req"
    "req_Release req' = req_Release req" "req_HTTP req' = req_HTTP req"
  by (cases "pb_phase p = PhaseResponse", (rule placed_response [OF assms], simp, simp), (rule placed_request [OF assms], simp, simp))+

lemma placed_accepted:
  assumes "placed ow p client base (request now rnd p) req" "base \<noteq> ''''" "unmarshal payload = Inr req"
    and "pb_phase p \<in> {PhaseRequest, PhaseResponse}" "pb_name p \<noteq> ''''" "pb_method p \<noteq> ''''" "fst (cut_uri (pb_uri p)) \<noteq> ''''"
  shows "Parse unmarshal payload = Inr req"
proof -
  have fields: "check_store pre (req_Store req) = None \<and> check_store pre (req_RequestStore req) = None \<and>
      req_RID req = hex16 now \<and> req_V req = Protocol.Version \<and> req_Inspector req = pb_name p \<and> req_Phase req = pb_phase p \<and>
      req_Release req = None \<and> req_HTTP req = req_HTTP (request now rnd p)" for pre
  proof (cases "pb_phase p = PhaseResponse")
    case True
    show ?thesis by (rule placed_response [OF assms(1) True])
      (simp add: check_store_def store_locators_def stored_locator_valid request_fields assms(2))
  next
    case False
    show ?thesis by (rule placed_request [OF assms(1) False])
      (simp add: check_store_def store_locators_def stored_locator_valid request_fields assms(2))
  qed
  show ?thesis using assms(3-7) fields by (auto simp: Parse_def request_fields)
qed

context redis_writes
begin

lemma Load_stored_at:
  assumes "stored_at (rv_at srv w) key data loc" "ld_store l = Some (RedisStore (rv_at srv w))"
  shows "\<exists>b. Load l loc = Some b \<and> Available b \<and> bd_Data b = data \<and> bodyError b = None"
  using Load_stored [OF assms] by (simp add: Available_def bodyError_def)

lemma Load_stored_args:
  assumes "stored_args (rv_at srv w) key data loc" "ld_store l = Some (RedisStore (rv_at srv w))"
  shows "\<exists>a. Load l loc = Some a \<and> argsOf a = data"
proof (cases "data = ''''")
  case True
  then show ?thesis using assms(1) by (simp add: stored_args_def Load_def argsOf_def no_body_def)
next
  case False
  then show ?thesis using Load_stored_at [OF _ assms(2), of key data loc] assms(1) by (auto simp: stored_args_def argsOf_def)
qed

lemma request_objects:
  assumes "placed ow p (rv_at srv w) base (request now rnd p) req" "pb_phase p \<noteq> PhaseResponse"
    and "header_codec (ow_headers ow) (he_pairs he)" "ascii (pb_userAgent p)"
    and store: "ld_store l = Some (RedisStore (rv_at srv w))"
  shows "\<exists>got. LoadMany l [st_Headers (req_Store req), st_Args (req_Store req), st_Body (req_Store req)] = Some got \<and>
    headers he (got ! 0) = request_headers p \<and> argsOf (got ! 1) = snd (cut_uri (pb_uri p)) \<and>
    bodyError (got ! 2) = None \<and> bd_Data (got ! 2) = []"
proof -
  obtain hdr own where own: "ow_headers ow (request_headers p) = Inr hdr" "st_Body own = None"
    "stored_at (rv_at srv w) (base @ '':req:hdr'') hdr (st_Headers own)" "req_Store req = own"
    and args: "stored_args (rv_at srv w) (base @ '':req:arg'') (snd (cut_uri (pb_uri p))) (st_Args own)"
    by (rule placed_request [OF assms(1,2)]) simp
  obtain h where h: "Load l (st_Headers own) = Some h" "headers he h = request_headers p"
    using Load_stored_at [OF own(3) store] headers_decoded [OF assms(3) probe_headers_ascii(1) [OF assms(4)] own(1)] by metis
  obtain a where a: "Load l (st_Args own) = Some a" "argsOf a = snd (cut_uri (pb_uri p))"
    using Load_stored_args [OF args store] by blast
  have "LoadMany l [st_Headers own, st_Args own, st_Body own] = Some [h, a, no_body]"
    using h(1) a(1) own(2) by (simp add: LoadMany_server [OF store] Load_def)
  then show ?thesis using h(2) a(2) own(4) by (auto simp: bodyError_def no_body_def Available_def)
qed

lemma response_objects:
  assumes "placed ow p (rv_at srv w) base (request now rnd p) req" "pb_phase p = PhaseResponse"
    and "header_codec (ow_headers ow) (he_pairs he)" "ascii (pb_userAgent p)"
    and store: "ld_store l = Some (RedisStore (rv_at srv w))"
  shows "\<exists>got. LoadMany l [st_Headers (req_Store req), st_Body (req_Store req), st_Headers (req_RequestStore req), st_Args (req_RequestStore req)] = Some got \<and>
    headers he (got ! 0) = response_headers \<and> bodyError (got ! 1) = None \<and> bd_Data (got ! 1) = pb_responseBody p \<and>
    headers he (got ! 2) = request_headers p \<and> argsOf (got ! 3) = snd (cut_uri (pb_uri p))"
proof -
  obtain hdr own rsp hdr' where own: "ow_headers ow (request_headers p) = Inr hdr" "st_Body own = None"
    "stored_at (rv_at srv w) (base @ '':req:hdr'') hdr (st_Headers own)" "req_RequestStore req = own" "req_Store req = rsp"
    and args: "stored_args (rv_at srv w) (base @ '':req:arg'') (snd (cut_uri (pb_uri p))) (st_Args own)"
    and rsp: "ow_headers ow response_headers = Inr hdr'" "stored_at (rv_at srv w) (base @ '':rsp:hdr'') hdr' (st_Headers rsp)"
      "stored_at (rv_at srv w) (base @ '':rsp:body'') (pb_responseBody p) (st_Body rsp)"
    by (rule placed_response [OF assms(1,2)]) simp
  obtain h where h: "Load l (st_Headers own) = Some h" "headers he h = request_headers p"
    using Load_stored_at [OF own(3) store] headers_decoded [OF assms(3) probe_headers_ascii(1) [OF assms(4)] own(1)] by metis
  obtain h' where h': "Load l (st_Headers rsp) = Some h'" "headers he h' = response_headers"
    using Load_stored_at [OF rsp(2) store] headers_decoded [OF assms(3) probe_headers_ascii(2) rsp(1)] by metis
  obtain b where b: "Load l (st_Body rsp) = Some b" "bodyError b = None" "bd_Data b = pb_responseBody p"
    using Load_stored_at [OF rsp(3) store] by metis
  obtain a where a: "Load l (st_Args own) = Some a" "argsOf a = snd (cut_uri (pb_uri p))"
    using Load_stored_args [OF args store] by blast
  have "LoadMany l [st_Headers rsp, st_Body rsp, st_Headers own, st_Args own] = Some [h', b, h, a]"
    using h(1) a(1) h'(1) b(1) by (simp add: LoadMany_server [OF store])
  then show ?thesis using h(2) a(2) h'(2) b(2,3) own(4,5) by (simp add: numeral_eq_Suc)
qed

end

lemma no_prior [simp]: "Evaluate [] rules = \<lparr>ask_Skip = False, ask_Percent = 0, ask_Outcomes = []\<rparr>"
  by (simp add: Evaluate_def clamp_percent_def Let_def)

text \<open>The reply of the shared tail: the verdict of the outcome, unless a list write failed.\<close>

definition verdict_of :: "henv \<Rightarrow> Request \<Rightarrow> EngineOutcome \<Rightarrow> Reply \<Rightarrow> bool" where
  "verdict_of he req out reply \<longleftrightarrow> reply = ErrorReply req codeGeoUnavailable \<or>
     (\<exists>acts. reply = (From req out ((he_opts he)\<lparr>op_ScalePercent := 0\<rparr>))\<lparr>rp_Actions := acts\<rparr>)"

lemma answer_verdict:
  assumes "answer he req sel (Evaluate [] rules) out decorate extra st = (ok, reply, det, st')"
  shows "verdict_of he req out reply" "hs_ended st' = hs_ended st"
proof -
  have same: "\<exists>acts. r = r\<lparr>rp_Actions := acts\<rparr>" for r :: Reply by (rule exI [of _ "rp_Actions r"]) simp
  show "verdict_of he req out reply" using assms same
    by (auto simp: answer_def verdict_of_def Let_def split: prod.splits option.splits if_splits)
  show "hs_ended st' = hs_ended st" using assms
    by (auto simp: answer_def Let_def publish_bans_def split: prod.splits option.splits if_splits)
qed

definition probe_answer :: "henv \<Rightarrow> Request \<Rightarrow> 's option \<times> (string + EngineOutcome) \<Rightarrow> 's hstate \<Rightarrow> Reply \<Rightarrow> 's hstate \<Rightarrow> bool" where
  "probe_answer he req got st reply st' \<longleftrightarrow> hs_ended st' = hs_ended st @ option_list (fst got) \<and>
     (case snd got of Inl err \<Rightarrow> reply = ErrorReply req codeInternalError | Inr out \<Rightarrow> verdict_of he req out reply)"

context redis_writes
begin

lemma request_inspected:
  assumes "placed ow p (rv_at srv w) base (request now rnd p) (tk_Req t)" "pb_phase p = PhaseRequest"
    and "header_codec (ow_headers ow) (he_pairs he)" "ascii (pb_userAgent p)"
    and store: "ld_store (he_loader he) = Some (RedisStore (rv_at srv w))"
    and sel: "Select (pb_profile p) (hs_registry st) = ((Some e, sel), reg)"
  shows "\<exists>reply det st'. inspect he ck t st = (Some (reply, det), st') \<and>
    probe_answer he (tk_Req t) (probe_engine_call e now p (ck_us ck)) st reply st'"
proof -
  note One_nat_def [simp del]
  let ?req = "tk_Req t"
  have phase: "pb_phase p \<noteq> PhaseResponse" using assms(2) by simp
  obtain got where got: "LoadMany (he_loader he) [st_Headers (req_Store ?req), st_Args (req_Store ?req), st_Body (req_Store ?req)] = Some got"
    "headers he (got ! 0) = request_headers p" "argsOf (got ! 1) = snd (cut_uri (pb_uri p))" "bodyError (got ! 2) = None" "bd_Data (got ! 2) = []"
    using request_objects [OF assms(1) phase assms(3,4) store] by blast
  obtain own where req: "?req = request now rnd p\<lparr>req_Store := own\<rparr>" using placed_request [OF assms(1) phase] by blast
  have fields: "req_Prior ?req = []" "req_Resume ?req = None" "req_Phase ?req = PhaseRequest" "rt_Profile (req_Route ?req) = pb_profile p"
    by (simp_all add: req request_fields assms(2))
  have "input ?req args hdr b = input (request now rnd p) args hdr b" for args hdr b by (simp add: req input_def)
  then have inp: "input ?req (argsOf (got ! 1)) (headers he (got ! 0)) (got ! 2) = probe_input now p"
    by (simp add: request_fields got) (simp add: probe_input_def)
  have call: "run_engine he ck ?req e (probe_input now p) st1 =
      (case probe_engine_call e now p (ck_us ck) of (s, Inl err) \<Rightarrow> (option_list s, Inl err) | (s, Inr out) \<Rightarrow> (option_list s, Inr (out, None)))" for st1
    using phase by (simp add: run_engine_def wantsResume_def fields probe_engine_call_def)
  obtain r st1 where r: "inspect_loaded he ck t e sel (Evaluate [] (PriorRules reg (sel_Profile sel))) got (st\<lparr>hs_registry := reg\<rparr>) = (r, st1)" by fastforce
  have insp: "inspect he ck t st = (Some r, st1)"
    using sel r by (simp add: inspect_def inspect_request_def fields got(1) Let_def)
  obtain s res where pc: "probe_engine_call e now p (ck_us ck) = (s, res)" by fastforce
  show ?thesis
  proof (cases res)
    case (Inl err)
    then have "r = (ErrorReply ?req codeInternalError, engine_details [''error'' \<mapsto> AStr err])" "hs_ended st1 = hs_ended st @ option_list s"
      using r by (auto simp: inspect_loaded_def Let_def got(4) inp call pc end_tx_def)
    then show ?thesis using insp Inl pc by (auto simp: probe_answer_def)
  next
    case (Inr out)
    let ?st = "end_tx (option_list s) (st\<lparr>hs_registry := reg\<rparr>)"
    obtain extra ok reply det st2 where a: "answer he ?req sel (Evaluate [] (PriorRules reg (sel_Profile sel))) out (\<lambda>d. d) extra ?st = (ok, reply, det, st2)"
      "r = (reply, det)" "st1 = st2"
      using r by (auto simp: inspect_loaded_def conclude_def Let_def got(4) inp call pc Inr split: prod.splits)
    show ?thesis using insp Inr pc answer_verdict [OF a(1)] a(2,3) by (auto simp: probe_answer_def end_tx_def)
  qed
qed

lemma response_inspected:
  assumes "placed ow p (rv_at srv w) base (request now rnd p) (tk_Req t)" "pb_phase p = PhaseResponse"
    and "header_codec (ow_headers ow) (he_pairs he)" "ascii (pb_userAgent p)"
    and store: "ld_store (he_loader he) = Some (RedisStore (rv_at srv w))"
    and sel: "Select (pb_profile p) (hs_registry st) = ((Some e, sel), reg)"
  shows "\<exists>reply det st'. inspect he ck t st = (Some (reply, det), st') \<and>
    probe_answer he (tk_Req t) (probe_engine_call e now p (ck_us ck)) st reply st'"
proof -
  note One_nat_def [simp del]
  let ?req = "tk_Req t"
  obtain got where got: "LoadMany (he_loader he) [st_Headers (req_Store ?req), st_Body (req_Store ?req),
      st_Headers (req_RequestStore ?req), st_Args (req_RequestStore ?req)] = Some got"
    "headers he (got ! 0) = response_headers" "bodyError (got ! 1) = None" "bd_Data (got ! 1) = pb_responseBody p"
    "headers he (got ! 2) = request_headers p" "argsOf (got ! 3) = snd (cut_uri (pb_uri p))"
    using response_objects [OF assms(1) assms(2) assms(3,4) store] by blast
  obtain own rsp where req: "?req = request now rnd p\<lparr>req_RequestStore := own, req_Store := rsp\<rparr>" using placed_response [OF assms(1,2)] by blast
  have fields: "req_Prior ?req = []" "req_Resume ?req = None" "req_Phase ?req = PhaseResponse" "rt_Profile (req_Route ?req) = pb_profile p"
    by (simp_all add: req request_fields assms(2))
  have "input ?req args hdr b = input (request now rnd p) args hdr b" for args hdr b by (simp add: req input_def)
  then have inp: "input ?req (snd (cut_uri (pb_uri p))) (request_headers p) no_body = probe_input now p"
    by (simp add: request_fields) (simp add: probe_input_def no_body_def)
  have hdr: "responseHeaders he ?req (got ! 0) = response_headers" by (simp add: responseHeaders_def got response_headers_def)
  have status: "responseStatus ?req = (if pb_status p = 0 then 200 else pb_status p)"
    using request_fields(13) [OF assms(2), of now rnd] by (simp add: req responseStatus_def)
  have call: "run_response (Inr e) (probe_input now p) \<lparr>ri_Status = responseStatus ?req, ri_Proto = '''', ri_Headers = response_headers,
      ri_Body = pb_responseBody p, ri_BodyTruncated = False\<rparr> (ck_us ck) =
      (case probe_engine_call e now p (ck_us ck) of (s, res) \<Rightarrow> (option_list s, res))"
    by (simp add: run_response_def probe_engine_call_def assms(2) probe_response_def status)
  let ?a = "Evaluate [] (PriorRules (hs_registry st) (pb_profile p))"
  have insp: "inspect he ck t st = respond he ck ?req (tk_Personal t) ?a sel (Inr e) (st\<lparr>hs_registry := reg\<rparr>)"
    using sel by (simp add: inspect_def inspectResponse_def fields resumeState_def Let_def split: option.split)
  obtain s res where pc: "probe_engine_call e now p (ck_us ck) = (s, res)" by fastforce
  show ?thesis
  proof (cases res)
    case (Inl err)
    then show ?thesis unfolding insp
      by (simp add: respond_def Let_def got inp hdr call pc probe_answer_def end_tx_def)
  next
    case (Inr out)
    let ?st = "end_tx (option_list s) (st\<lparr>hs_registry := reg\<rparr>)"
    obtain ok reply det st2 where a: "answer he ?req sel ?a out (note_response False (tk_Personal t)) no_fired ?st = (ok, reply, det, st2)"
      by (metis prod_cases4)
    have "respond he ck ?req (tk_Personal t) ?a sel (Inr e) (st\<lparr>hs_registry := reg\<rparr>) = (Some (reply, det), st2)"
      using a by (simp add: respond_def Let_def got inp hdr call pc Inr)
    then show ?thesis unfolding insp using answer_verdict [OF a] by (simp add: probe_answer_def pc Inr end_tx_def)
  qed
qed

end

text \<open>
  C16: what the probe's flags say is what the engine inspects.  Once the objects are placed, the message is
  the one sent on the bus, the inspector accepts it as one task with its reply subject, and inspecting
  the task runs the engine on exactly the method, address, query string and headers of the flags, in the
  response phase followed by the status, headers and body of the response; the answer is the verdict
  of that run.  The probe and the inspector agree on keys, drivers, stores and slots.
\<close>

theorem probe_flags_reach_engine:
  assumes "redis_writes (ow_redis ow)" "header_codec (ow_headers ow) (he_pairs he)" "ascii (pb_userAgent p)"
    and flags: "pb_phase p \<in> {PhaseRequest, PhaseResponse}" "pb_redisURL p \<noteq> ''''" "pb_name p \<noteq> ''''" "pb_method p \<noteq> ''''"
      "fst (cut_uri (pb_uri p)) \<noteq> ''''"
    and connected: "connect ow p w0 = (Inr (), w)"
    and placed: "place ow (request (ow_now ow) (ow_rand ow) p) p w = (Inr req, w')"
    and inspector: "ld_store (he_loader he) = Some (RedisStore (rv_at (ow_redis ow) w'))" "Supports he Protocol.Version"
      "he_unmarshal he (nm_Data msg) = Inr req" "Select (pb_profile p) (hs_registry st') = ((Some e, sel), reg)"
  shows "probe_run ow p w0 = ask_inspector ow p req w' \<and>
    (\<exists>t. hs_tasks (receive he ck0 msg st) = hs_tasks st @ [t] \<and> tk_Reply t = nm_Reply msg \<and>
      (\<exists>reply det st2. inspect he ck (t\<lparr>tk_Fill := fill, tk_enqueued := since\<rparr>) st' = (Some (reply, det), st2) \<and>
        probe_answer he req (probe_engine_call e (ow_now ow) p (ck_us ck)) st' reply st2))"
proof -
  let ?base = "''probe:'' @ hex16 (ow_now ow)"
  have ran: "probe_run ow p w0 = ask_inspector ow p req w'" using flags(1) connected placed by (auto simp: probe_run_def then_call_def)
  have pl: "placed ow p (rv_at (ow_redis ow) w') ?base (request (ow_now ow) (ow_rand ow) p) req"
    using redis_writes.place_placed [OF assms(1) placed refl flags(2)] by (simp add: request_fields)
  have "?base \<noteq> ''''" by simp
  then have "Parse (he_unmarshal he) (nm_Data msg) = Inr req"
    by (rule placed_accepted [OF pl]) (use inspector(3) flags(1,3,4,5) in simp_all)
  moreover have "req_V req = Protocol.Version" "req_Release req = None" "req_Phase req = pb_phase p"
    using placed_fields [OF pl] by (simp_all add: request_fields)
  ultimately obtain t where t: "hs_tasks (receive he ck0 msg st) = hs_tasks st @ [t]" "tk_Reply t = nm_Reply msg" "tk_Req t = req"
    using inspector(2) flags(1) by (auto simp: receive_def supports_phase_def)
  let ?t = "t\<lparr>tk_Fill := fill, tk_enqueued := since\<rparr>"
  have pt: "placed ow p (rv_at (ow_redis ow) w') ?base (request (ow_now ow) (ow_rand ow) p) (tk_Req ?t)"
    using pl t(3) by simp
  have "\<exists>reply det st2. inspect he ck ?t st' = (Some (reply, det), st2) \<and>
      probe_answer he req (probe_engine_call e (ow_now ow) p (ck_us ck)) st' reply st2"
    using flags(1) redis_writes.request_inspected [OF assms(1) pt _ assms(2,3) inspector(1,4)]
      redis_writes.response_inspected [OF assms(1) pt _ assms(2,3) inspector(1,4)] t(3) by auto
  then show ?thesis using ran t by blast
qed

section \<open>A world with a bus that is up and a Redis server\<close>

definition map_server :: "(string \<rightharpoonup> bytes) redis_server" where
  "map_server = \<lparr>rv_Set = (\<lambda>key val ttl db. (Inr (), db(key \<mapsto> val))), rv_at = snapshot_client\<rparr>"

interpretation mapped: redis_writes map_server
proof (rule redis_writes.intro)
  show "redis (rv_at map_server db)" for db using snap.redis_axioms by (simp add: map_server_def)
qed (auto simp: map_server_def snapshot_client_def split: option.splits)

text \<open>A codec of header lists whose separators are outside ASCII.\<close>

definition line_enc :: "Header list \<Rightarrow> string + bytes" where
  "line_enc hs = Inr (CHR 0x5B # concat (map (\<lambda>(k, v). k @ CHR 0x80 # v @ [CHR 0x81]) hs))"

definition line_dec :: "bytes \<Rightarrow> string + Header list" where
  "line_dec b = Inr (map (\<lambda>l. (hd (Split l (CHR 0x80)), last (Split l (CHR 0x80)))) (butlast (Split (tl b) (CHR 0x81))))"

lemma ascii_no_sep: "ascii s \<Longrightarrow> CHR 0x80 \<notin> set s \<and> CHR 0x81 \<notin> set s"
  by (auto simp: ascii_def list_all_iff)

lemma line_codec: "header_codec line_enc line_dec"
proof -
  have "map (\<lambda>l. (hd (Split l (CHR 0x80)), last (Split l (CHR 0x80))))
      (butlast (Split (concat (map (\<lambda>(k, v). k @ CHR 0x80 # v @ [CHR 0x81]) hs)) (CHR 0x81))) = hs"
    if "list_all (\<lambda>(k, v). ascii k \<and> ascii v) hs" for hs
    using that
  proof (induction hs)
    case (Cons h hs)
    obtain k v where h: "h = (k, v)" by fastforce
    have kv: "CHR 0x80 \<notin> set k" "CHR 0x81 \<notin> set k" "CHR 0x80 \<notin> set v" "CHR 0x81 \<notin> set v"
      using Cons(2) h ascii_no_sep by auto
    have "Split ((k @ CHR 0x80 # v) @ CHR 0x81 # r) (CHR 0x81) = (k @ CHR 0x80 # v) # Split r (CHR 0x81)" for r
      using kv by (intro Split_append) simp
    moreover have "Split (k @ CHR 0x80 # v) (CHR 0x80) = [k, v]"
      using kv by (simp add: Split_append Split_no_sep)
    ultimately show ?case using Cons h by simp
  qed simp
  then show ?thesis by (simp add: header_codec_def line_enc_def line_dec_def)
qed

definition sample_client_lib :: "(string \<rightharpoonup> bytes) client_lib" where
  "sample_client_lib = \<lparr>ow_now = 255, ow_rand = replicate 16 0xFF, ow_Connect = (\<lambda>_ _ db. (Inr (), db)), ow_SubscribeSync = (\<lambda>_ db. (Inr (), db)),
     ow_Request = (\<lambda>_ _ _ db. (Inr ''reply'', db)), ow_NextMsg = (\<lambda>_ _ db. (Inr ''event'', db)), ow_ParseURL = (\<lambda>_. None),
     ow_redis = map_server, ow_headers = line_enc, ow_marshal = (\<lambda>_. Inr ''message''),
     ow_unmarshal = (\<lambda>_. Inr (NewReply sample_request VerdictAllow)), ow_print = (\<lambda>_. Inr ''line'')\<rparr>"

definition sample_probe :: probe where
  "sample_probe = (default_probe sample_sys)\<lparr>pb_redisURL := ''redis://r'', pb_uri := ''/a?b=1'', pb_phase := PhaseResponse,
     pb_responseBody := ''<p>'', pb_name := ''modsec''\<rparr>"

definition sample_placed :: "Request \<times> (string \<rightharpoonup> bytes)" where
  "sample_placed = (case place sample_client_lib (request 255 (replicate 16 0xFF) sample_probe) sample_probe Map.empty of
     (Inr req, db) \<Rightarrow> (req, db) | (Inl _, db) \<Rightarrow> (sample_request, db))"

definition probed_env :: henv where
  "probed_env = sample_env\<lparr>he_loader := (he_loader sample_env)\<lparr>ld_store := Some (RedisStore (snapshot_client (snd sample_placed)))\<rparr>,
     he_pairs := line_dec, he_unmarshal := (\<lambda>_. Inr (fst sample_placed))\<rparr>"

lemma sample_placed_ok:
  "place sample_client_lib (request 255 (replicate 16 0xFF) sample_probe) sample_probe Map.empty = (Inr (fst sample_placed), snd sample_placed)"
proof -
  have "\<exists>req db. place sample_client_lib (request 255 (replicate 16 0xFF) sample_probe) sample_probe Map.empty = (Inr req, db)"
    by (simp add: place_def place_request_def place_response_def put_object_def RedisStore_Put_def then_call_def lift_call_def
      sample_client_lib_def sample_probe_def map_server_def line_enc_def Let_def)
  then show ?thesis by (auto simp: sample_placed_def)
qed

theorem probe_flags_reach_engine_witness:
  "\<exists>reply det st t. inspect probed_env sample_clock t sample_state = (Some (reply, det), st) \<and>
     probe_answer probed_env (fst sample_placed) (probe_engine_call calm_engine 255 sample_probe 0) sample_state reply st"
proof -
  have sel: "\<exists>sel reg. Select (pb_profile sample_probe) (hs_registry sample_state) = ((Some calm_engine, sel), reg)"
    by (simp add: Select_def selectFrom_def profile_name_def sample_probe_def default_probe_def fresh_state_def sample_rules_of_def Let_def)
  then obtain sel reg where sel: "Select (pb_profile sample_probe) (hs_registry sample_state) = ((Some calm_engine, sel), reg)" by blast
  have flags: "ascii (pb_userAgent sample_probe)" "pb_phase sample_probe \<in> {PhaseRequest, PhaseResponse}" "pb_redisURL sample_probe \<noteq> ''''"
    "pb_name sample_probe \<noteq> ''''" "pb_method sample_probe \<noteq> ''''" "fst (cut_uri (pb_uri sample_probe)) \<noteq> ''''"
    "connect sample_client_lib sample_probe Map.empty = (Inr (), Map.empty)"
    by (simp_all add: sample_probe_def default_probe_def ascii_def cut_uri_def go_string connect_def then_call_def lift_call_def sample_client_lib_def)
  have out: "ow_redis sample_client_lib = map_server" "ow_headers sample_client_lib = line_enc" "ow_now sample_client_lib = 255" "ow_rand sample_client_lib = replicate 16 0xFF"
    by (simp_all add: sample_client_lib_def)
  have ins: "he_pairs probed_env = line_dec" "ld_store (he_loader probed_env) = Some (RedisStore (rv_at map_server (snd sample_placed)))"
    "Supports probed_env Protocol.Version" "he_unmarshal probed_env (nm_Data msg) = Inr (fst sample_placed)" for msg
    by (simp_all add: probed_env_def map_server_def Supports_def sample_env_def)
  show ?thesis
    using probe_flags_reach_engine [where ow = sample_client_lib and he = probed_env and p = sample_probe and ck = sample_clock,
        unfolded out ins(1), OF mapped.redis_writes_axioms line_codec flags(1,2,3,4,5,6,7) sample_placed_ok ins(2,3,4) sel]
    by (simp add: sample_clock_def) blast
qed

section \<open>The other promises of the probe\<close>

lemma probe_run_ok:
  assumes "probe_run ow p w = ((lines, None), w')"
  shows "\<exists>req w1 w2 payload data reply. connect ow p w = (Inr (), w1) \<and>
    place ow (request (ow_now ow) (ow_rand ow) p) p w1 = (Inr req, w2) \<and> ow_marshal ow req = Inr payload \<and>
    fst (ow_Request ow (pb_subject p) payload (pb_timeout p) w2) = Inr data \<and> ow_unmarshal ow data = Inr reply \<and>
    (pb_expect p = '''' \<or> rp_Verdict reply = pb_expect p)"
  using assms
  by (auto simp: probe_run_def ask_inspector_def read_event_def check_verdict_def then_call_def split: if_splits prod.splits sum.splits)

text \<open>The event's id is a version 4 UUID of RFC 9562: five groups of digits, the version and the variant in place.\<close>

lemma length_hex_bytes [simp]: "length (hex_bytes bs) = 2 * length bs"
  by (induction bs) (simp_all add: hex_bytes_def)

lemma unat_high: "unat (drop_bit n w) = unat w div 2 ^ n"
  by (rule trans [OF unat_drop_bit_eq drop_bit_eq_div])

lemma version_bits: "unat (((x :: 8 word) AND 0x0F) OR 0x40) div 16 = 4"
proof -
  have "drop_bit 4 ((x AND 0x0F) OR 0x40) = (4 :: 8 word)" by (simp add: drop_bit_and drop_bit_or)
  then have "unat ((x AND 0x0F) OR 0x40) div 2 ^ 4 = unat (4 :: 8 word)" by (simp only: unat_high [symmetric])
  then show ?thesis by simp
qed

lemma variant_bits: "unat (((x :: 8 word) AND 0x3F) OR 0x80) div 16 \<in> {8, 9, 10, 11}"
proof -
  let ?w = "(x AND 0x3F) OR 0x80"
  have "drop_bit 6 ?w = (2 :: 8 word)" by (simp add: drop_bit_and drop_bit_or)
  then have "unat ?w div 2 ^ 6 = unat (2 :: 8 word)" by (simp only: unat_high [symmetric])
  then have "unat ?w div 64 = 2" by simp
  then have "128 \<le> unat ?w" "unat ?w < 192" by auto
  then have "8 \<le> unat ?w div 16" "unat ?w div 16 < 12" by auto
  then show ?thesis by auto
qed

lemma hex_lower_values: "hex_lower 4 = CHR ''4''" "list_all (\<lambda>n. hex_lower n \<in> set ''89ab'') [8, 9, 10, 11]"
  by code_simp+

lemma dashed_nth:
  assumes "length g1 = 8" "length g2 = 4" "length g3 = 4" "length g4 = 4" "length g5 = 12"
  shows "length (g1 @ ''-'' @ g2 @ ''-'' @ g3 @ ''-'' @ g4 @ ''-'' @ g5) = 36"
    "(g1 @ ''-'' @ g2 @ ''-'' @ g3 @ ''-'' @ g4 @ ''-'' @ g5) ! 14 = g3 ! 0"
    "(g1 @ ''-'' @ g2 @ ''-'' @ g3 @ ''-'' @ g4 @ ''-'' @ g5) ! 19 = g4 ! 0"
    "list_all (\<lambda>i. (g1 @ ''-'' @ g2 @ ''-'' @ g3 @ ''-'' @ g4 @ ''-'' @ g5) ! i = CHR ''-'') [8, 13, 18, 23]"
  using assms by (simp_all add: nth_append)

lemma hex_bytes_groups:
  assumes "length b = 16"
  shows "length (hex_bytes (take 4 b)) = 8" "length (hex_bytes (take 2 (drop 4 b))) = 4" "length (hex_bytes (take 2 (drop 6 b))) = 4"
    "length (hex_bytes (take 2 (drop 8 b))) = 4" "length (hex_bytes (take 6 (drop 10 b))) = 12"
  by (simp_all add: assms)

lemma hex_bytes_first:
  assumes "length b = 16" "k < 16"
  shows "hex_bytes (take 2 (drop k b)) ! 0 = hex_lower (unat (b ! k) div 16)"
proof -
  have "take 2 (drop k b) \<noteq> []" "hd (take 2 (drop k b)) = b ! k" using assms by (simp_all add: hd_drop_conv_nth hd_take)
  then show ?thesis by (cases "take 2 (drop k b)") (simp_all add: hex_bytes_def)
qed

lemma uuid_bits_nibbles:
  assumes "length rnd = 16"
  shows "length (uuid_bits rnd) = 16" "unat (uuid_bits rnd ! 6) div 16 = 4" "unat (uuid_bits rnd ! 8) div 16 \<in> {8, 9, 10, 11}"
proof -
  show "length (uuid_bits rnd) = 16" by (simp add: uuid_bits_def Let_def assms)
  have a: "uuid_bits rnd ! 6 = (rnd ! 6 AND 0x0F) OR 0x40" by (simp only: uuid_bits_def Let_def assms nth_list_update_neq nth_list_update_eq numeral_eq_iff) (simp add: assms)
  show "unat (uuid_bits rnd ! 6) div 16 = 4" unfolding a by (rule version_bits)
  show "unat (uuid_bits rnd ! 8) div 16 \<in> {8, 9, 10, 11}" 
  proof -
    have "uuid_bits rnd ! 8 = (rnd ! 8 AND 0x3F) OR 0x80" using assms by (simp add: uuid_bits_def Let_def)
    then show ?thesis using variant_bits by (simp only:)
  qed
qed

lemma uuid4_shape:
  assumes "length rnd = 16"
  shows "length (uuid4 rnd) = 36" "uuid4 rnd ! 14 = CHR ''4''" "uuid4 rnd ! 19 \<in> set ''89ab''"
    "list_all (\<lambda>i. uuid4 rnd ! i = CHR ''-'') [8, 13, 18, 23]"
proof -
  note bits = uuid_bits_nibbles [OF assms]
  note nth = dashed_nth [OF hex_bytes_groups [OF bits(1)], folded uuid4_def [unfolded Let_def]]
  show "length (uuid4 rnd) = 36" by (rule nth(1))
  have "uuid4 rnd ! 14 = hex_lower (unat (uuid_bits rnd ! 6) div 16)" unfolding nth(2) by (rule hex_bytes_first [OF bits(1)]) simp
  then show "uuid4 rnd ! 14 = CHR ''4''" by (simp only: bits(2) hex_lower_values(1))
  have "uuid4 rnd ! 19 = hex_lower (unat (uuid_bits rnd ! 8) div 16)" unfolding nth(3) by (rule hex_bytes_first [OF bits(1)]) simp
  moreover have "\<forall>n \<in> {8, 9, 10, 11}. hex_lower n \<in> set ''89ab''" using hex_lower_values(2) by (simp only: list_all_iff list.set)
  ultimately show "uuid4 rnd ! 19 \<in> set ''89ab''" using bits(3) by (simp only:)
  show "list_all (\<lambda>i. uuid4 rnd ! i = CHR ''-'') [8, 13, 18, 23]" by (rule nth(4))
qed

text \<open>A flag on the command line replaces the default and the environment.\<close>

lemma string_flag_set:
  assumes "map_of string_flags name = Some set'" "name \<notin> {''timeout'', ''quiet'', ''status''}"
  shows "parse_flags parseInt [CHR ''-'' # name, v] p = Inr (set' v p)"
proof -
  have "flag_arg (CHR ''-'' # name) = Flag name None"
    using assms(1) by (auto simp: string_flags_def flag_arg_def go_string split: if_splits)
  then show ?thesis using assms by (simp add: known_flag_def set_flag_def)
qed

end
