(* ===== verification/Spec2Isabelle.thy ===== *)
theory Spec2Isabelle
  imports Protocol Overload Engine Coraza Prior Outcome_Rows Audit_Log Verdict Body_Store Queue Mailbox Sticky Rule_Sets Handler Serving
    Config Desired_Pack Desired_Apply Startup Service Probe
begin

text \<open>
  A model of placitum-modsec, a WAF inspector, and what it guarantees.

  \<^bold>\<open>The program.\<close>  The inspector takes inspection requests from a NATS subject, runs each through a
  ModSecurity engine (Coraza) under the rule profile the request names, and publishes one verdict per request.  A
  message is parsed and dispatched by the handler (\<^verbatim>\<open>cmd/modsec\<close>), waits in a bounded pool of workers
  (\<^verbatim>\<open>internal/queue\<close>), has its headers, arguments and body fetched from Redis (\<^verbatim>\<open>internal/body\<close>), is
  weighed by the requests of neighbouring inspectors (\<^verbatim>\<open>internal/prior\<close>), inspected
  (\<^verbatim>\<open>internal/engine\<close>), and turned into a reply (\<^verbatim>\<open>internal/verdict\<close>), an audit event
  (\<^verbatim>\<open>internal/audit\<close>) and possibly list writes.  A transaction may be kept for the response phase
  (\<^verbatim>\<open>internal/sticky\<close>).  Rules come from a directory (\<^verbatim>\<open>internal/rules\<close>) that packs announced in a
  bucket replace while the process runs (\<^verbatim>\<open>internal/desired\<close>).  Settings come from the environment and a file
  (\<^verbatim>\<open>internal/config\<close>), and \<^verbatim>\<open>main.go\<close> puts the parts together.  A second program, the probe
  (\<^verbatim>\<open>cmd/probe\<close>), sends one message to a running inspector and checks the verdict.

  \<^bold>\<open>Theories and sources.\<close>

  \<^item> \<open>Go_Prelude\<close>, \<open>Go_Float\<close>: what the sources use of Go: 64-bit integers with their wrap-around, durations,
    strings and their functions, error values, and the rounding of float64.
  \<^item> \<open>Protocol\<close>, \<open>Overload\<close>: \<^verbatim>\<open>protocol.go\<close> and \<^verbatim>\<open>overload.go\<close>; what \<open>Parse\<close> accepts guarantees to everything after it.
  \<^item> \<open>Engine\<close>, \<open>Coraza\<close>: \<^verbatim>\<open>engine/\<close>: the driver of a transaction over any engine, and the adapter of
    Coraza.  The locales \<open>recording\<close> and \<open>recording_engine\<close> are engines that record their calls; the driver's lemmas on
    phases and closing are proved in them once, for any such engine.
  \<^item> \<open>Prior\<close>, \<open>Outcome_Rows\<close>: \<^verbatim>\<open>prior/\<close>: the requests of neighbours, and the rows a profile fires.
  \<^item> \<open>Verdict\<close>: \<^verbatim>\<open>verdict/\<close>: classification; scores in float64 and their exact meaning.
  \<^item> \<open>Audit_Log\<close>: \<^verbatim>\<open>audit/\<close>: events, the sink that batches them, and the stream they go to.
  \<^item> \<open>Body_Store\<close>: \<^verbatim>\<open>body/\<close>: loading, decrypting and verifying, one by one and batched.
  \<^item> \<open>Queue\<close>: \<^verbatim>\<open>queue.go\<close> as a step relation: each critical section under the mutex is one step,
    goroutines are a multiset of jobs, and \<open>run\<close> is any interleaving with time passing and messages arriving.
  \<^item> \<open>Mailbox\<close>: what the pool promises, as an abstract service: a clock, messages that are delivered, handed over, given up or
    turned away, each with the reason that must hold then, and the proof that every step of the pool is one of these or none: the
    interpretation of the locale \<open>simulation\<close> on the model of \<open>Queue\<close>.
  \<^item> \<open>Sticky\<close>: \<^verbatim>\<open>sticky.go\<close>: every method as one critical section; what it promises is a locale whose
    interpretation is the registry itself.
  \<^item> \<open>Rule_Sets\<close>: \<^verbatim>\<open>rules.go\<close>: building, replacing and selecting profiles.
  \<^item> \<open>Handler\<close>: \<^verbatim>\<open>handler.go\<close>, \<^verbatim>\<open>response.go\<close>, \<^verbatim>\<open>frame.go\<close>, \<^verbatim>\<open>resume.go\<close>, \<^verbatim>\<open>lists.go\<close>: the handlers of the
    three phases over the state they share.
  \<^item> \<open>Serving\<close>: the handlers over time: what an answer that lets a request through means, and the life of every transaction.
  \<^item> \<open>Config\<close>: \<^verbatim>\<open>config/\<close>: the environment, the parser of the queue file, validation.
  \<^item> \<open>Desired_Pack\<close>, \<open>Desired_Apply\<close>: \<^verbatim>\<open>desired/\<close>: packs, blobs and manifests; the exchange of the rule tree on a disk
    where any call may fail, and the loop that watches for packs.
  \<^item> \<open>Startup\<close>: \<^verbatim>\<open>main.go\<close>: the process as \<open>run\<close> wires it, its heartbeat, and the pool calling the handler.
  \<^item> \<open>Service\<close>: \<^verbatim>\<open>main.go\<close> from the wiring to the shutdown: messages, the pool, the handlers, reloads and the audit sink as
    the interleaved steps \<open>node_step\<close> of one process, and the abstract service on the bus that it implements, a second
    interpretation of \<open>simulation\<close>.  \<open>nd_world\<close> is the state of the pool, \<open>nd_state\<close> the state the handlers share, \<open>nd_loop\<close>
    the goroutine of the sink.
  \<^item> \<open>Probe\<close>: \<^verbatim>\<open>cmd/probe/main.go\<close>: flags, message, placed objects, one run; the locale \<open>redis_writes\<close> is what the probe and
    the inspector's loader both rely on.

  \<^bold>\<open>What is shown.\<close>  No message is lost: the pool keeps every submitted task exactly once, closing it drains it,
  every task is answered once on its own subject, and so is every message a stopped process ever accepted.  The pool implements
  a mailbox, and the whole process, interleaved with everything that happens to it, an answering service on the bus.
  Nothing passes without a reason: a request is let through only by a granted skip or by an inspection under the profile it names
  and no other, of a body that is there whole and, where a digest was promised, has it; headers and arguments that could not be
  loaded so are inspected as empty.  Nothing leaks: every transaction that was begun is closed exactly once or kept.  Until its
  goroutine ends, the audit sink loses nothing without counting it.  Scores in float64 are the nearest integers they stand for.
  Replacing rules is atomic for what is served: a failed application keeps the old rules, a successful one puts exactly the
  manifest in place and survives a restart, and the watcher reports what is served, or puts in force the remnant of a call that
  failed before.  A process that starts has a valid configuration.  The probe and the inspector agree on the message and on the
  stored objects, so the engine sees what the flags say.  Properties of the kind \<open>error\<close> state what the code does where
  it does not do what it means to.

  \<^bold>\<open>Parameters.\<close>  Code outside the repository is an argument: JSON and YAML codecs, Redis and NATS clients, the crypto
  primitives, the file system (\<open>rules_lib\<close>, \<open>sys\<close>, the trees and faults of \<open>Desired_Apply\<close>), Coraza (\<open>coraza_lib\<close>), the geo
  resolver, clocks, the collected answers at start (\<open>deps\<close>) and the world of the probe (\<open>client_lib\<close>).  Hypotheses on them are named where they are used: \<open>encodes\<close>
  (the encoder of replies does not fail), \<open>engines_ok\<close> (engines record their calls), \<open>reads_tree\<close> (building a rule set depends only on
  its tree), \<open>redis\<close> and \<open>redis_writes\<close> (what the Redis commands promise; \<open>redis\<close> takes an error of MGET for a server that
  does not answer at all), \<open>header_codec\<close> (ASCII headers survive their JSON encoding); each has a witness that satisfies it.

  \<^bold>\<open>Bounds.\<close>  Machine integers wrap at 64 bits (\<open>i64\<close>, \<open>u64\<close>).  No definition uses fuel: loops are structural, or have a
  termination proof (\<open>duration_loop\<close>, \<open>rewriteFromFile\<close>), or are steps of a relation.

  \<^bold>\<open>Not modelled.\<close>  Log lines and flow counters; timers, whose ticks are events that may happen at any time; the creation of Redis
  clients, which only calls the client; a rule reload between two lookups of one message, since a call of a handler is one step;
  the expiry of stored objects; the end of the process by a signal other than the two it waits for.
\<close>


text \<open>
  Stopping the process answers everything: once the pool is closed its goroutines come to an end, and
  whenever they do, the calls they made to the handler have published exactly one answer for every message that
  was ever submitted, on the reply subject of that message, and nothing else.
\<close>

theorem closing_answers_everything:
  assumes "wire s de = Inr (cfg, p)" "encodes (pr_env p)"
    and "run (pr_pool p) (nat (pr_workers p)) w" "pl_closed (w_pool w)" "\<forall>t \<in># w_submitted w. tk_Reply t \<noteq> ''''"
  shows "(\<exists>w'. pool_step\<^sup>*\<^sup>* w w' \<and> finished w') \<and>
    (\<forall>w' cks. pool_step\<^sup>*\<^sup>* w w' \<and> finished w' \<and> length cks = length (w_log w') \<longrightarrow>
      image_mset fst (mset (hs_out (handle_calls (pr_env p) cks (w_log w') (pr_state p)))) = image_mset tk_Reply (w_submitted w))"
proof -
  note p = wired_start [OF assms(1)]
  have "image_mset fst (mset (hs_out (handle_calls (pr_env p) cks (w_log w') (pr_state p)))) = image_mset tk_Reply (w_submitted w)"
    if steps: "pool_step\<^sup>*\<^sup>* w w'" and fin: "finished w'" and cks: "length cks = length (w_log w')" for w' cks
  proof -
    have r: "run (pr_pool p) (nat (pr_workers p)) w'" "w_submitted w' = w_submitted w" using steps_run [OF steps assms(3)] by auto
    have log: "image_mset erase (mset (map fst (w_log w'))) = w_submitted w" using finished_handled [OF r(1) fin p(1,2)] r(2) by simp
    have "tk_Reply (fst c) \<noteq> ''''" if "c \<in> set (w_log w')" for c
    proof -
      have "erase (fst c) \<in># w_submitted w" using that by (force simp: log [symmetric])
      then show ?thesis using assms(5) by force
    qed
    then obtain out where "hs_out (handle_calls (pr_env p) cks (w_log w') (pr_state p)) = out" "map fst out = map (tk_Reply \<circ> fst) (w_log w')"
      using handle_calls_answer [OF assms(2) cks] p(3) by (metis append_Nil)
    then show ?thesis unfolding handled_replies [OF log] by (metis mset_map)
  qed
  then show ?thesis using closed_pool_finishes [OF assms(4)] by blast
qed

text \<open>A process with one message submitted and then stopped.\<close>

theorem closing_answers_everything_witness:
  "\<exists>cfg p w w' cks. wire sample_sys sample_deps = Inr (cfg, p) \<and> w_submitted w = {#sample_task#} \<and>
     pool_step\<^sup>*\<^sup>* w w' \<and> finished w' \<and>
     image_mset fst (mset (hs_out (handle_calls (pr_env p) cks (w_log w') (pr_state p)))) = {#tk_Reply sample_task#}"
proof -
  obtain cfg p where p: "wire sample_sys sample_deps = Inr (cfg, p)" "encodes (pr_env p)" using sample_wired by blast
  define w0 where "w0 = New_world (pr_pool p) (nat (pr_workers p))"
  define w1 where "w1 = w0\<lparr>w_jobs := add_mset (Submitting sample_task) (w_jobs w0), w_submitted := add_mset sample_task (w_submitted w0)\<rparr>"
  define w where "w = w1\<lparr>w_pool := Close_pool (w_pool w1)\<rparr>"
  have "sample_task = sample_task\<lparr>tk_enqueued := w_now w0, tk_Fill := 0\<rparr>" by (simp add: sample_task_def w0_def New_world_def)
  then have "env_step w0 w1" unfolding w1_def by (rule env_step.submit)
  moreover have "env_step w1 w" unfolding w_def by (rule env_step.close)
  ultimately have r: "run (pr_pool p) (nat (pr_workers p)) w" using run.start run.env unfolding w0_def by blast
  have closed: "pl_closed (w_pool w)" and sub: "w_submitted w = {#sample_task#}"
    by (simp_all add: w_def w1_def w0_def New_world_def Close_pool_def)
  have "\<forall>t \<in># w_submitted w. tk_Reply t \<noteq> ''''" by (simp add: sub sample_task_def)
  note c = closing_answers_everything [OF p r closed this]
  then obtain w' where w': "pool_step\<^sup>*\<^sup>* w w'" "finished w'" by blast
  then have "image_mset fst (mset (hs_out (handle_calls (pr_env p) (replicate (length (w_log w')) sample_clock) (w_log w') (pr_state p)))) =
      image_mset tk_Reply (w_submitted w)"
    using c by simp
  then show ?thesis using p(1) w' sub by (metis image_mset_single)
qed

end
